(* ===== verification/CC_Prelude.thy ===== *)
theory CC_Prelude
  imports Main "HOL-Library.Word" "HOL-Library.Char_ord" "HOL-Library.List_Lexorder"
begin

text \<open>
  Shared vocabulary of the development: the named collections of simplification rules, the
  byte-string operations of Go's \<^verbatim>\<open>strings\<close> package that the sources use, signed 64-bit
  arithmetic, decimal printing, and SQL tables as lists of rows.

  A Go string is a byte sequence, so \<^typ>\<open>string\<close> (a list of 8-bit characters) models it
  exactly; \<^verbatim>\<open>len\<close> is \<^const>\<open>length\<close> and slicing is \<^const>\<open>take\<close> and \<^const>\<open>drop\<close>.
  Case folding and white space are the ASCII part of Go's Unicode tables.
  SQLite's default \<^verbatim>\<open>BINARY\<close> collation on \<^verbatim>\<open>TEXT\<close> columns is the lexicographic order of the
  bytes, which is the order \<^verbatim>\<open>List_Lexorder\<close> and \<^verbatim>\<open>Char_ord\<close> put on \<^typ>\<open>string\<close>.
\<close>

named_theorems go_string_simps
  \<comment> \<open>rewriting of the byte-string operations\<close>
named_theorems sql_simps
  \<comment> \<open>rewriting of selections from updated, extended or reduced tables\<close>

section \<open>Signed 64-bit integers\<close>

definition int64_min :: int where "int64_min = - (2 ^ 63)"
definition int64_max :: int where "int64_max = 2 ^ 63 - 1"

text \<open>\<^verbatim>\<open>int64\<close> arithmetic wraps around: every Go operator result is brought back into range.\<close>

definition i64 :: "int \<Rightarrow> int" where
  "i64 x = (x + 2 ^ 63) mod 2 ^ 64 - 2 ^ 63"

definition in_i64 :: "int \<Rightarrow> bool" where
  "in_i64 x \<longleftrightarrow> int64_min \<le> x \<and> x \<le> int64_max"

lemma i64_id [simp]: "in_i64 x \<Longrightarrow> i64 x = x"
  by (simp add: i64_def in_i64_def int64_min_def int64_max_def)

lemma i64_range: "in_i64 (i64 x)"
proof -
  have "0 \<le> (x + 2 ^ 63) mod 2 ^ 64" "(x + 2 ^ 63) mod 2 ^ 64 < (2::int) ^ 64"
    by simp_all
  then show ?thesis
    unfolding i64_def in_i64_def int64_min_def int64_max_def by simp
qed

lemma in_i64_nonneg_le: "0 \<le> x \<Longrightarrow> x \<le> y \<Longrightarrow> in_i64 y \<Longrightarrow> in_i64 x"
  by (auto simp: in_i64_def int64_min_def)

lemma i64_word: "i64 x = sint (word_of_int x :: 64 word)"
  by (simp add: i64_def signed_of_int signed_take_bit_eq_take_bit_shift take_bit_eq_mod)

section \<open>Byte strings\<close>

definition has_prefix :: "string \<Rightarrow> string \<Rightarrow> bool" where
  \<comment> \<open>\<^verbatim>\<open>strings.HasPrefix(s, p)\<close>\<close>
  "has_prefix s p \<longleftrightarrow> take (length p) s = p"

definition has_suffix :: "string \<Rightarrow> string \<Rightarrow> bool" where
  \<comment> \<open>\<^verbatim>\<open>strings.HasSuffix(s, p)\<close>\<close>
  "has_suffix s p \<longleftrightarrow> has_prefix (rev s) (rev p)"

definition trim_prefix :: "string \<Rightarrow> string \<Rightarrow> string" where
  \<comment> \<open>\<^verbatim>\<open>strings.TrimPrefix(s, p)\<close>\<close>
  "trim_prefix s p = (if has_prefix s p then drop (length p) s else s)"

definition trim_suffix :: "string \<Rightarrow> string \<Rightarrow> string" where
  \<comment> \<open>\<^verbatim>\<open>strings.TrimSuffix(s, p)\<close>\<close>
  "trim_suffix s p = (if has_suffix s p then take (length s - length p) s else s)"

fun contains_sub :: "string \<Rightarrow> string \<Rightarrow> bool" where
  \<comment> \<open>\<^verbatim>\<open>strings.Contains(s, sub)\<close>\<close>
  "contains_sub [] p = (p = [])"
| "contains_sub (c # s) p = (has_prefix (c # s) p \<or> contains_sub s p)"

definition contains_any :: "string \<Rightarrow> string \<Rightarrow> bool" where
  \<comment> \<open>\<^verbatim>\<open>strings.ContainsAny(s, chars)\<close>\<close>
  "contains_any s cs \<longleftrightarrow> list_ex (\<lambda>c. c \<in> set cs) s"

fun cut :: "char \<Rightarrow> string \<Rightarrow> (string \<times> string) option" where
  \<comment> \<open>\<^verbatim>\<open>strings.Cut\<close> around the first occurrence; \<^const>\<open>None\<close> is the result \<^verbatim>\<open>ok = false\<close>.
     With a one-byte separator it also gives \<^verbatim>\<open>strings.IndexByte\<close> and the two slices at it.\<close>
  "cut d [] = None"
| "cut d (c # s) =
     (if c = d then Some ([], s)
      else case cut d s of None \<Rightarrow> None | Some (a, b) \<Rightarrow> Some (c # a, b))"

definition cut_last :: "char \<Rightarrow> string \<Rightarrow> (string \<times> string) option" where
  \<comment> \<open>the slices at \<^verbatim>\<open>strings.LastIndexByte\<close>\<close>
  "cut_last d s =
     (case cut d (rev s) of None \<Rightarrow> None | Some (b, a) \<Rightarrow> Some (rev a, rev b))"

fun split_on :: "char \<Rightarrow> string \<Rightarrow> string list" where
  \<comment> \<open>\<^verbatim>\<open>strings.Split(s, sep)\<close> for a one-byte separator\<close>
  "split_on d [] = [[]]"
| "split_on d (c # s) =
     (if c = d then [] # split_on d s
      else case split_on d s of [] \<Rightarrow> [[c]] | w # ws \<Rightarrow> (c # w) # ws)"

fun join_with :: "string \<Rightarrow> string list \<Rightarrow> string" where
  \<comment> \<open>\<^verbatim>\<open>strings.Join(parts, sep)\<close>\<close>
  "join_with d [] = []"
| "join_with d [w] = w"
| "join_with d (w # v # ws) = w @ d @ join_with d (v # ws)"

definition is_space :: "char \<Rightarrow> bool" where
  "is_space c \<longleftrightarrow> c \<in> {CHR '' '', CHR 0x09, CHR 0x0A, CHR 0x0B, CHR 0x0C, CHR 0x0D}"

definition trim_space :: "string \<Rightarrow> string" where
  \<comment> \<open>\<^verbatim>\<open>strings.TrimSpace(s)\<close>\<close>
  "trim_space s = rev (dropWhile is_space (rev (dropWhile is_space s)))"

fun fields_acc :: "string \<Rightarrow> string \<Rightarrow> string list" where
  "fields_acc w [] = (if w = [] then [] else [rev w])"
| "fields_acc w (c # s) =
     (if is_space c then (if w = [] then fields_acc [] s else rev w # fields_acc [] s)
      else fields_acc (c # w) s)"

definition fields :: "string \<Rightarrow> string list" where
  \<comment> \<open>\<^verbatim>\<open>strings.Fields(s)\<close>\<close>
  "fields s = fields_acc [] s"

definition is_lower :: "char \<Rightarrow> bool" where
  "is_lower c \<longleftrightarrow> CHR ''a'' \<le> c \<and> c \<le> CHR ''z''"

definition is_upper :: "char \<Rightarrow> bool" where
  "is_upper c \<longleftrightarrow> CHR ''A'' \<le> c \<and> c \<le> CHR ''Z''"

definition is_digit :: "char \<Rightarrow> bool" where
  "is_digit c \<longleftrightarrow> CHR ''0'' \<le> c \<and> c \<le> CHR ''9''"

definition lower_char :: "char \<Rightarrow> char" where
  "lower_char c = (if is_upper c then char_of (of_char c + 32 :: nat) else c)"

definition to_lower :: "string \<Rightarrow> string" where
  \<comment> \<open>\<^verbatim>\<open>strings.ToLower(s)\<close>\<close>
  "to_lower s = map lower_char s"

definition equal_fold :: "string \<Rightarrow> string \<Rightarrow> bool" where
  \<comment> \<open>\<^verbatim>\<open>strings.EqualFold(s, t)\<close>\<close>
  "equal_fold s t \<longleftrightarrow> to_lower s = to_lower t"

lemma has_prefix_append [simp]: "has_prefix (p @ s) p"
  by (simp add: has_prefix_def)

lemma has_prefix_iff: "has_prefix s p \<longleftrightarrow> (\<exists>r. s = p @ r)"
  by (metis append_take_drop_id has_prefix_append has_prefix_def)

lemma has_prefix_Nil [simp]: "has_prefix s []"
  by (simp add: has_prefix_def)

lemma has_prefix_Cons [simp]:
  "has_prefix (c # s) (d # p) \<longleftrightarrow> c = d \<and> has_prefix s p"
  "\<not> has_prefix [] (d # p)"
  by (auto simp: has_prefix_def)

lemma has_prefix_trans: "has_prefix s q \<Longrightarrow> has_prefix q p \<Longrightarrow> has_prefix s p"
  by (auto simp: has_prefix_iff)

lemma has_suffix_append [simp]: "has_suffix (s @ p) p"
  by (simp add: has_suffix_def)

lemma has_suffix_iff: "has_suffix s p \<longleftrightarrow> (\<exists>r. s = r @ p)"
proof
  assume "has_suffix s p"
  then obtain r where "rev s = rev p @ r"
    by (auto simp: has_suffix_def has_prefix_iff)
  then have "s = rev r @ p"
    by (metis rev_append rev_rev_ident)
  then show "\<exists>r. s = r @ p" ..
next
  assume "\<exists>r. s = r @ p"
  then show "has_suffix s p" by auto
qed

lemma cut_None_iff: "cut d s = None \<longleftrightarrow> d \<notin> set s"
  by (induction s) (auto split: option.splits)

lemma cut_Some_iff: "cut d s = Some (a, b) \<longleftrightarrow> s = a @ d # b \<and> d \<notin> set a"
proof
  show "cut d s = Some (a, b) \<Longrightarrow> s = a @ d # b \<and> d \<notin> set a"
  proof (induction s arbitrary: a)
    case Nil
    then show ?case by simp
  next
    case (Cons c s)
    then show ?case by (fastforce split: option.splits if_splits)
  qed
  show "s = a @ d # b \<and> d \<notin> set a \<Longrightarrow> cut d s = Some (a, b)"
    by (induction a arbitrary: s) auto
qed

lemma cut_length: "cut d s = Some (a, b) \<Longrightarrow> length b < length s"
  by (auto simp: cut_Some_iff)

lemma cut_last_Some_iff: "cut_last d s = Some (a, b) \<longleftrightarrow> s = a @ d # b \<and> d \<notin> set b"
proof -
  have "cut_last d s = Some (a, b) \<longleftrightarrow> cut d (rev s) = Some (rev b, rev a)"
    by (auto simp: cut_last_def split: option.splits)
  also have "\<dots> \<longleftrightarrow> rev s = rev b @ d # rev a \<and> d \<notin> set b"
    by (simp add: cut_Some_iff)
  also have "\<dots> \<longleftrightarrow> s = a @ d # b \<and> d \<notin> set b"
    by (metis append.assoc append_Cons append_Nil rev.simps(2) rev_append rev_rev_ident)
  finally show ?thesis .
qed

lemma split_on_nonempty [simp]: "split_on d s \<noteq> []"
  by (induction s) (auto split: list.splits)

lemma join_split [simp]: "join_with [d] (split_on d s) = s"
proof (induction s)
  case Nil
  then show ?case by simp
next
  case (Cons c s)
  obtain w ws where w: "split_on d s = w # ws"
    by (cases "split_on d s") auto
  with Cons show ?case by (cases ws) auto
qed

lemma split_no_sep: "w \<in> set (split_on d s) \<Longrightarrow> d \<notin> set w"
  by (induction s arbitrary: w) (auto split: list.splits if_splits)

lemma split_on_append: "d \<notin> set a \<Longrightarrow> split_on d (a @ d # s) = a # split_on d s"
  by (induction a) auto

lemma split_on_single: "d \<notin> set a \<Longrightarrow> split_on d a = [a]"
  by (induction a) auto

lemma split_join:
  "ws \<noteq> [] \<Longrightarrow> \<forall>w \<in> set ws. d \<notin> set w \<Longrightarrow> split_on d (join_with [d] ws) = ws"
proof (induction ws rule: induct_list012)
  case (3 x y zs)
  then show ?case by (simp add: split_on_append)
qed (auto simp: split_on_single)

lemma cut_split_on:
  "fst (case cut d s of None \<Rightarrow> (s, []) | Some p \<Rightarrow> p) = hd (split_on d s)"
proof (cases "cut d s")
  case None
  then have "d \<notin> set s" by (simp add: cut_None_iff)
  with None show ?thesis by (simp add: split_on_single)
next
  case (Some p)
  obtain a b where p: "p = (a, b)" by (cases p)
  with Some have "s = a @ d # b" "d \<notin> set a" by (simp_all add: cut_Some_iff)
  then have "hd (split_on d s) = a" by (simp add: split_on_append)
  with Some p show ?thesis by simp
qed

section \<open>Decimal printing\<close>

definition digit_char :: "int \<Rightarrow> char" where
  "digit_char n = char_of (nat (48 + n))"

lemma char_of_digits: "list_all (\<lambda>k. char_of (48 + k) = ''0123456789'' ! k) [0..<10]"
  by code_simp

text \<open>The table makes evaluation of printed numbers fast.\<close>

lemma digit_char_table [code]:
  "digit_char n = (if 0 \<le> n \<and> n < 10 then ''0123456789'' ! nat n else char_of (nat (48 + n)))"
proof (cases "0 \<le> n \<and> n < 10")
  case True
  then have "nat n \<in> set [0..<10]" by auto
  then have "char_of (48 + nat n) = ''0123456789'' ! nat n"
    by (rule char_of_digits[unfolded list_all_iff, rule_format])
  then show ?thesis using True by (simp add: digit_char_def nat_add_distrib)
qed (auto simp: digit_char_def)

fun pad :: "nat \<Rightarrow> int \<Rightarrow> string" where
  \<comment> \<open>the last \<^verbatim>\<open>k\<close> decimal digits, zero padded\<close>
  "pad 0 n = []"
| "pad (Suc k) n = pad k (n div 10) @ [digit_char (n mod 10)]"

function digits_of :: "int \<Rightarrow> string" where
  "digits_of n = (if n < 10 then [digit_char n] else digits_of (n div 10) @ [digit_char (n mod 10)])"
  by pat_completeness auto
termination
  by (relation "measure nat") auto

declare digits_of.simps [simp del]

definition show_int :: "int \<Rightarrow> string" where
  \<comment> \<open>\<^verbatim>\<open>strconv.FormatInt(n, 10)\<close> and \<^verbatim>\<open>%d\<close>\<close>
  "show_int n = (if n < 0 then CHR ''-'' # digits_of (- n) else digits_of n)"

definition digit_val :: "char \<Rightarrow> int" where
  "digit_val c = int (of_char c) - 48"

definition parse_digits :: "string \<Rightarrow> int option" where
  "parse_digits s =
     (if s \<noteq> [] \<and> list_all is_digit s
      then Some (foldl (\<lambda>n c. 10 * n + digit_val c) 0 s) else None)"

definition atoi :: "string \<Rightarrow> int option" where
  \<comment> \<open>\<^verbatim>\<open>strconv.Atoi\<close> on a 64-bit platform: an optional sign, decimal digits, in range\<close>
  "atoi s =
     (let r = (case s of
                 [] \<Rightarrow> None
               | c # t \<Rightarrow> if c = CHR ''-'' then map_option uminus (parse_digits t)
                         else if c = CHR ''+'' then parse_digits t
                         else parse_digits s)
      in case r of None \<Rightarrow> None | Some n \<Rightarrow> if in_i64 n then Some n else None)"

lemma digit_char_code: "0 \<le> n \<Longrightarrow> n < 10 \<Longrightarrow> int (of_char (digit_char n)) = 48 + n"
  by (simp add: digit_char_def)

lemma digit_val_char [simp]: "0 \<le> n \<Longrightarrow> n < 10 \<Longrightarrow> digit_val (digit_char n) = n"
  by (simp add: digit_val_def digit_char_code)

lemma is_digit_char [simp]: "0 \<le> n \<Longrightarrow> n < 10 \<Longrightarrow> is_digit (digit_char n)"
  using digit_char_code[of n] by (simp add: is_digit_def less_eq_char_def)

lemma digit_char_less [simp]:
  "0 \<le> m \<Longrightarrow> m < 10 \<Longrightarrow> 0 \<le> n \<Longrightarrow> n < 10 \<Longrightarrow> digit_char m < digit_char n \<longleftrightarrow> m < n"
  unfolding less_char_def using digit_char_code[of m] digit_char_code[of n] by linarith

lemma digit_char_inj [simp]:
  "0 \<le> m \<Longrightarrow> m < 10 \<Longrightarrow> 0 \<le> n \<Longrightarrow> n < 10 \<Longrightarrow> digit_char m = digit_char n \<longleftrightarrow> m = n"
  by (metis digit_val_char)

lemma length_pad [simp]: "length (pad k n) = k"
  by (induction k arbitrary: n) auto

lemma pad_digits: "list_all is_digit (pad k n)"
  by (induction k arbitrary: n) auto

lemma foldl_digits_pad:
  "0 \<le> n \<Longrightarrow> n < 10 ^ k \<Longrightarrow> foldl (\<lambda>m c. 10 * m + digit_val c) 0 (pad k n) = n"
proof (induction k arbitrary: n)
  case 0
  then show ?case by simp
next
  case (Suc k)
  have "n div 10 < 10 ^ k" using Suc.prems by (simp add: div_less_iff_less_mult)
  then show ?case using Suc by simp
qed

lemma parse_digits_pad:
  "0 < k \<Longrightarrow> 0 \<le> n \<Longrightarrow> n < 10 ^ k \<Longrightarrow> parse_digits (pad k n) = Some n"
  by (metis foldl_digits_pad length_0_conv length_pad pad_digits parse_digits_def less_numeral_extra(3))

lemma append_less_same_length:
  fixes xs ys us vs :: "'a::linorder list"
  assumes "length xs = length ys"
  shows "xs @ us < ys @ vs \<longleftrightarrow> xs < ys \<or> (xs = ys \<and> us < vs)"
  using assms by (induction xs ys rule: list_induct2) auto

lemma pad_inj:
  "0 \<le> m \<Longrightarrow> m < 10 ^ k \<Longrightarrow> 0 \<le> n \<Longrightarrow> n < 10 ^ k \<Longrightarrow> pad k m = pad k n \<longleftrightarrow> m = n"
  by (metis foldl_digits_pad)

lemma div_mod_less: "(m::int) < n \<longleftrightarrow> m div 10 < n div 10 \<or> (m div 10 = n div 10 \<and> m mod 10 < n mod 10)"
proof -
  have "0 \<le> m mod 10" "m mod 10 < 10" "0 \<le> n mod 10" "n mod 10 < 10"
    and "m = 10 * (m div 10) + m mod 10" "n = 10 * (n div 10) + n mod 10" by simp_all
  then show ?thesis by linarith
qed

lemma pad_less:
  "0 \<le> m \<Longrightarrow> m < 10 ^ k \<Longrightarrow> 0 \<le> n \<Longrightarrow> n < 10 ^ k \<Longrightarrow> pad k m < pad k n \<longleftrightarrow> m < n"
proof (induction k arbitrary: m n)
  case 0
  then show ?case by simp
next
  case (Suc k)
  have b: "m div 10 < 10 ^ k" "n div 10 < 10 ^ k" "0 \<le> m div 10" "0 \<le> n div 10"
    using Suc.prems by (simp_all add: div_less_iff_less_mult)
  have less: "pad k (m div 10) < pad k (n div 10) \<longleftrightarrow> m div 10 < n div 10"
    using b by (intro Suc.IH) auto
  have eq: "pad k (m div 10) = pad k (n div 10) \<longleftrightarrow> m div 10 = n div 10"
    using b by (intro pad_inj) auto
  have "pad (Suc k) m < pad (Suc k) n \<longleftrightarrow>
      m div 10 < n div 10 \<or> (m div 10 = n div 10 \<and> m mod 10 < n mod 10)"
    by (simp add: append_less_same_length less eq)
  then show ?case by (simp only: div_mod_less[of m n])
qed

section \<open>SQL tables\<close>

text \<open>
  A table is the list of its rows in insertion order. A \<^verbatim>\<open>SELECT\<close> is a filter,
  \<^verbatim>\<open>UPDATE ... WHERE\<close> maps the matching rows, \<^verbatim>\<open>DELETE ... WHERE\<close> filters them out, and
  \<^verbatim>\<open>INSERT\<close> appends after checking the primary key. \<^verbatim>\<open>RowsAffected\<close> is \<open>sql_count\<close>.
\<close>

definition sql_find :: "('r \<Rightarrow> bool) \<Rightarrow> 'r list \<Rightarrow> 'r option" where
  "sql_find P t = List.find P t"

definition sql_update :: "('r \<Rightarrow> bool) \<Rightarrow> ('r \<Rightarrow> 'r) \<Rightarrow> 'r list \<Rightarrow> 'r list" where
  "sql_update P f t = map (\<lambda>r. if P r then f r else r) t"

definition sql_delete :: "('r \<Rightarrow> bool) \<Rightarrow> 'r list \<Rightarrow> 'r list" where
  "sql_delete P t = filter (\<lambda>r. \<not> P r) t"

definition sql_count :: "('r \<Rightarrow> bool) \<Rightarrow> 'r list \<Rightarrow> nat" where
  "sql_count P t = length (filter P t)"

definition sql_insert :: "('r \<Rightarrow> 'k) \<Rightarrow> 'r \<Rightarrow> 'r list \<Rightarrow> 'r list option" where
  \<comment> \<open>\<^const>\<open>None\<close> is a primary-key conflict\<close>
  "sql_insert k r t = (if k r \<in> k ` set t then None else Some (t @ [r]))"

fun sql_sum_from :: "int \<Rightarrow> int list \<Rightarrow> int option" where
  \<comment> \<open>SQLite's \<^verbatim>\<open>sum()\<close> fails with an integer overflow when a partial sum leaves int64\<close>
  "sql_sum_from a [] = Some a"
| "sql_sum_from a (x # xs) = (if in_i64 (a + x) then sql_sum_from (a + x) xs else None)"

definition sql_sum :: "int list \<Rightarrow> int option" where
  "sql_sum xs = sql_sum_from 0 xs"

fun best_by :: "('r \<Rightarrow> 'r \<Rightarrow> bool) \<Rightarrow> 'r list \<Rightarrow> 'r option" where
  \<comment> \<open>\<^verbatim>\<open>ORDER BY ... LIMIT 1\<close>: the first row in the order \<open>before\<close>\<close>
  "best_by before [] = None"
| "best_by before (r # rs) =
     (case best_by before rs of None \<Rightarrow> Some r
      | Some s \<Rightarrow> if before s r then Some s else Some r)"

lemma sql_find_Some: "sql_find P t = Some r \<Longrightarrow> r \<in> set t \<and> P r"
  by (auto simp: sql_find_def find_Some_iff)

lemma sql_find_None: "sql_find P t = None \<longleftrightarrow> (\<forall>r \<in> set t. \<not> P r)"
  by (auto simp: sql_find_def find_None_iff)

lemma sql_find_Nil [simp]: "sql_find P [] = None"
  by (simp add: sql_find_def)

lemma sql_find_Cons [simp]: "sql_find P (r # t) = (if P r then Some r else sql_find P t)"
  by (simp add: sql_find_def)

lemma sql_find_append [sql_simps]:
  "sql_find P (t @ u) = (case sql_find P t of None \<Rightarrow> sql_find P u | Some r \<Rightarrow> Some r)"
  by (induction t) (auto simp: sql_find_def)

lemma sql_find_update_key [sql_simps]:
  assumes "\<And>r. P (f r) = P r"
  shows "sql_find P (sql_update Q f t) =
    map_option (\<lambda>r. if Q r then f r else r) (sql_find P t)"
  using assms by (induction t) (auto simp: sql_find_def sql_update_def)

lemma sql_find_delete [sql_simps]:
  "(\<And>r. P r \<Longrightarrow> \<not> Q r) \<Longrightarrow> sql_find P (sql_delete Q t) = sql_find P t"
  by (induction t) (auto simp: sql_find_def sql_delete_def)

lemma set_sql_update: "set (sql_update P f t) = (\<lambda>r. if P r then f r else r) ` set t"
  by (simp add: sql_update_def)

lemma in_sql_update: "r \<in> set (sql_update P f t) \<Longrightarrow>
    \<exists>r0 \<in> set t. r = (if P r0 then f r0 else r0)"
  by (auto simp: sql_update_def)

lemma ball_sql_update:
  "(\<And>r. Q (f r) = Q r) \<Longrightarrow> (\<forall>r \<in> set (sql_update P f t). Q r) = (\<forall>r \<in> set t. Q r)"
  by (induction t) (auto simp: sql_update_def)

lemma map_key_sql_update [sql_simps]:
  "(\<And>r. k (f r) = k r) \<Longrightarrow> map k (sql_update P f t) = map k t"
  by (simp add: sql_update_def)

lemma set_sql_delete [simp]: "set (sql_delete P t) = {r \<in> set t. \<not> P r}"
  by (simp add: sql_delete_def)

lemma length_sql_update [simp]: "length (sql_update P f t) = length t"
  by (simp add: sql_update_def)

lemma sql_count_0: "sql_count P t = 0 \<longleftrightarrow> (\<forall>r \<in> set t. \<not> P r)"
  by (simp add: sql_count_def filter_empty_conv)

lemma sql_update_none: "sql_count P t = 0 \<Longrightarrow> sql_update P f t = t"
  by (induction t) (auto simp: sql_count_def sql_update_def)

lemma sql_insert_Some: "sql_insert k r t = Some t' \<longleftrightarrow> k r \<notin> k ` set t \<and> t' = t @ [r]"
  by (auto simp: sql_insert_def)

lemma distinct_sql_delete: "distinct (map k t) \<Longrightarrow> distinct (map k (sql_delete P t))"
  by (simp add: sql_delete_def distinct_map_filter)

lemma sql_sum_from_Some: "sql_sum_from a xs = Some s \<Longrightarrow> s = a + sum_list xs"
  by (induction xs arbitrary: a) (fastforce split: if_splits)+

lemma sql_sum_Some: "sql_sum xs = Some s \<Longrightarrow> s = sum_list xs"
  using sql_sum_from_Some[of 0 xs s] by (simp add: sql_sum_def)

lemma sql_sum_from_total:
  "\<forall>x \<in> set xs. 0 \<le> x \<Longrightarrow> 0 \<le> a \<Longrightarrow> in_i64 (a + sum_list xs) \<Longrightarrow>
   sql_sum_from a xs = Some (a + sum_list xs)"
proof (induction xs arbitrary: a)
  case Nil
  then show ?case by simp
next
  case (Cons x xs)
  have "0 \<le> sum_list xs" using Cons.prems by (simp add: sum_list_nonneg)
  then have "in_i64 (a + x)"
    using Cons.prems by (auto intro: in_i64_nonneg_le[where y = "a + sum_list (x # xs)"])
  with Cons show ?case by (simp add: add.assoc)
qed

lemma sql_sum_total:
  "\<forall>x \<in> set xs. 0 \<le> x \<Longrightarrow> in_i64 (sum_list xs) \<Longrightarrow> sql_sum xs = Some (sum_list xs)"
  using sql_sum_from_total[of xs 0] by (simp add: sql_sum_def)

lemma best_by_None [simp]: "best_by b t = None \<longleftrightarrow> t = []"
  by (cases t) (auto split: option.splits)

lemma best_by_mem: "best_by b t = Some r \<Longrightarrow> r \<in> set t"
  by (induction t arbitrary: r) (auto split: option.splits if_splits)

lemma best_by_first:
  assumes "best_by b t = Some r" "x \<in> set t" "x \<noteq> r" "distinct (map k t)"
    "\<And>u v w. b u v \<Longrightarrow> b v w \<Longrightarrow> b u w" "\<And>u v. k u \<noteq> k v \<Longrightarrow> b u v \<or> b v u"
  shows "b r x"
  using assms(1-4)
proof (induction t arbitrary: r x)
  case (Cons a t)
  have ka: "k a \<noteq> k y" if "y \<in> set t" for y using Cons.prems(4) that by auto
  show ?case
  proof (cases "best_by b t")
    case None
    then show ?thesis using Cons.prems by simp
  next
    case (Some s)
    note m = best_by_mem[OF Some]
    have "b s x" if "x \<in> set t" "x \<noteq> s" using Cons.IH[OF Some that] Cons.prems(4) by simp
    then show ?thesis
      using Cons.prems(1-3) Some assms(5)[of r s x] assms(6)[OF ka[OF m]]
      by (auto split: if_splits)
  qed
qed simp

lemma sql_count_update_le:
  "(\<And>r. P r \<Longrightarrow> \<not> Q (f r)) \<Longrightarrow> sql_count Q (sql_update P f t) \<le> sql_count Q t"
  by (induction t) (auto simp: sql_count_def sql_update_def)

lemma sql_count_update_less:
  "(\<And>r. P r \<Longrightarrow> \<not> Q (f r)) \<Longrightarrow> x \<in> set t \<Longrightarrow> P x \<Longrightarrow> Q x \<Longrightarrow> sql_count Q (sql_update P f t) < sql_count Q t"
proof (induction t)
  case (Cons a t)
  have "sql_count Q (sql_update P f t) \<le> sql_count Q t" by (rule sql_count_update_le) (rule Cons.prems(1))
  then show ?case using Cons by (auto simp: sql_count_def sql_update_def)
qed simp

end
