(* ===== verification/CC_Time.thy ===== *)
theory CC_Time
  imports CC_Prelude
begin

text \<open>
  UTC time as the sources use it. A \<^verbatim>\<open>time.Time\<close> is the number of nanoseconds since Go's
  zero time, 0001-01-01T00:00:00Z; a \<^verbatim>\<open>time.Duration\<close> is a number of nanoseconds. The
  theory models \<^verbatim>\<open>t.UTC().Format(time.RFC3339Nano)\<close> (the \<open>rfc\<close> every module stores in
  its \<^verbatim>\<open>TEXT\<close> columns), the matching \<^verbatim>\<open>time.Parse\<close> and the calendar fields, and proves that
  parsing inverts printing and when the text order of two stored times is their time order.
\<close>

type_synonym time = int
type_synonym duration = int

definition nano :: int where "nano = 1000000000"
definition day_secs :: int where "day_secs = 86400"

abbreviation seconds :: "int \<Rightarrow> duration" where "seconds n \<equiv> n * 1000000000"

section \<open>The Gregorian calendar\<close>

definition leap :: "int \<Rightarrow> bool" where
  "leap y \<longleftrightarrow> y mod 4 = 0 \<and> (y mod 100 \<noteq> 0 \<or> y mod 400 = 0)"

definition ylen :: "int \<Rightarrow> int" where
  "ylen y = (if leap y then 366 else 365)"

definition mlens :: "int \<Rightarrow> int list" where
  "mlens y = [31, if leap y then 29 else 28, 31, 30, 31, 30, 31, 31, 30, 31, 30, 31]"

function year_loop :: "int \<Rightarrow> int \<Rightarrow> int \<times> int" where
  "year_loop y d = (if d < ylen y then (y, d) else year_loop (y + 1) (d - ylen y))"
  by pat_completeness auto
termination
  by (relation "measure (\<lambda>(y, d). nat d)") (auto simp: ylen_def split: if_splits)

declare year_loop.simps [simp del]

fun month_loop :: "int list \<Rightarrow> int \<Rightarrow> int \<Rightarrow> int \<times> int" where
  "month_loop [] m d = (m, d)"
| "month_loop (l # ls) m d = (if d < l then (m, d) else month_loop ls (m + 1) (d - l))"

definition civil :: "int \<Rightarrow> int \<times> int \<times> int" where
  \<comment> \<open>year, month and day of the \<open>n\<close>-th day after 0001-01-01\<close>
  "civil n =
     (let era = n div 146097; (y, doy) = year_loop 1 (n mod 146097);
          (m, d) = month_loop (mlens y) 1 doy
      in (400 * era + y, m, d + 1))"

definition days_before_year :: "int \<Rightarrow> int" where
  "days_before_year y = 365 * (y - 1) + (y - 1) div 4 - (y - 1) div 100 + (y - 1) div 400"

definition days_before_month :: "int \<Rightarrow> int \<Rightarrow> int" where
  "days_before_month y m = sum_list (take (nat (m - 1)) (mlens y))"

definition days_of :: "int \<Rightarrow> int \<Rightarrow> int \<Rightarrow> int" where
  "days_of y m d = days_before_year y + days_before_month y m + (d - 1)"

lemma ylen_pos: "365 \<le> ylen y" "ylen y \<le> 366"
  by (simp_all add: ylen_def)

lemma div_step: "(k::int) > 0 \<Longrightarrow> y div k = (y - 1) div k + (if y mod k = 0 then 1 else 0)"
proof -
  assume k: "k > 0"
  show ?thesis
  proof (cases "y mod k = 0")
    case True
    then have "y = k * (y div k)" by (metis add.right_neutral mult_div_mod_eq)
    then have "(y - 1) div k = (k * (y div k - 1) + (k - 1)) div k"
      by (simp add: algebra_simps)
    also have "\<dots> = y div k - 1" using k by simp
    finally show ?thesis using True by simp
  next
    case False
    then have "0 < y mod k" using k by (simp add: order_less_le)
    moreover have "y - 1 = k * (y div k) + (y mod k - 1)" by simp
    moreover have "y mod k < k" using k by simp
    ultimately have "(y - 1) div k = y div k"
      by (intro int_div_pos_eq[of "y - 1" k "y div k" "y mod k - 1"]) linarith+
    then show ?thesis using False by simp
  qed
qed

lemma leap_count:
  "(c \<Longrightarrow> b) \<Longrightarrow> (b \<Longrightarrow> a) \<Longrightarrow> (if a \<and> (\<not> b \<or> c) then 366 else 365 :: int) =
    365 + (if a then 1 else 0) - (if b then 1 else 0) + (if c then 1 else 0)"
  by (cases a; cases b; cases c) simp_all

lemma add_year:
  "q4 = p4 + e4 \<Longrightarrow> q100 = p100 + e100 \<Longrightarrow> q400 = p400 + e400 \<Longrightarrow>
   365 * y + q4 - q100 + q400 =
     365 * (y - 1) + p4 - p100 + p400 + (365 + e4 - e100 + e400 :: int)"
  by simp

lemma days_before_year_Suc: "days_before_year (y + 1) = days_before_year y + ylen y"
proof -
  have "(100::int) dvd 400" "(4::int) dvd 100" by simp_all
  then have m: "y mod 400 = 0 \<Longrightarrow> y mod 100 = 0" "y mod 100 = 0 \<Longrightarrow> y mod 4 = 0"
    by (meson dvd_trans mod_0_imp_dvd mod_eq_0_iff_dvd)+
  have d: "days_before_year (y + 1) = 365 * y + y div 4 - y div 100 + y div 400"
    by (simp add: days_before_year_def)
  have l: "ylen y = 365 + (if y mod 4 = 0 then 1 else 0) - (if y mod 100 = 0 then 1 else 0)
      + (if y mod 400 = 0 then 1 else 0)"
    unfolding ylen_def leap_def using m by (rule leap_count)
  have "y div 4 = (y - 1) div 4 + (if y mod 4 = 0 then 1 else 0)"
    "y div 100 = (y - 1) div 100 + (if y mod 100 = 0 then 1 else 0)"
    "y div 400 = (y - 1) div 400 + (if y mod 400 = 0 then 1 else 0)"
    by (rule div_step, simp)+
  then have "365 * y + y div 4 - y div 100 + y div 400 = days_before_year y + ylen y"
    unfolding l days_before_year_def by (rule add_year)
  with d show ?thesis by (rule trans)
qed

lemma year_loop_sum: "year_loop y d = (y', d') \<Longrightarrow> days_before_year y + d = days_before_year y' + d'"
proof (induction y d rule: year_loop.induct)
  case (1 y d)
  show ?case
  proof (cases "d < ylen y")
    case True
    with 1 show ?thesis by (simp add: year_loop.simps[of y d])
  next
    case False
    then have "days_before_year (y + 1) + (d - ylen y) = days_before_year y' + d'"
      using 1 by (simp add: year_loop.simps[of y d])
    then show ?thesis by (simp add: days_before_year_Suc)
  qed
qed

lemma year_loop_bounds:
  "0 \<le> d \<Longrightarrow> year_loop y d = (y', d') \<Longrightarrow> 0 \<le> d' \<and> d' < ylen y' \<and> y \<le> y'"
proof (induction y d rule: year_loop.induct)
  case (1 y d)
  show ?case
  proof (cases "d < ylen y")
    case True
    with 1 show ?thesis by (simp add: year_loop.simps[of y d])
  next
    case False
    then have "0 \<le> d' \<and> d' < ylen y' \<and> y + 1 \<le> y'"
      using 1 by (simp add: year_loop.simps[of y d])
    then show ?thesis by simp
  qed
qed

lemma days_before_year_mono: "y \<le> z \<Longrightarrow> days_before_year y \<le> days_before_year z"
proof (induction rule: int_ge_induct)
  case base
  then show ?case by simp
next
  case (step i)
  then show ?case using ylen_pos(1)[of i] by (simp add: days_before_year_Suc)
qed

lemma days_before_year_era: "days_before_year (400 * e + y) = 146097 * e + days_before_year y"
proof -
  have "400 * e + y - 1 = y - 1 + (100 * e) * 4" "400 * e + y - 1 = y - 1 + (4 * e) * 100"
    "400 * e + y - 1 = y - 1 + e * 400" by simp_all
  then have q: "(400 * e + y - 1) div 4 = 100 * e + (y - 1) div 4"
    "(400 * e + y - 1) div 100 = 4 * e + (y - 1) div 100"
    "(400 * e + y - 1) div 400 = e + (y - 1) div 400"
    by (simp_all only: div_mult_self1 zero_neq_numeral not_False_eq_True add.commute)
  have "365 * (400 * e + y - 1) + (100 * e + a) - (4 * e + b) + (e + c) =
      146097 * e + (365 * (y - 1) + a - b + c)" for a b c :: int
    by (simp add: algebra_simps)
  then show ?thesis by (simp only: days_before_year_def q)
qed

lemma leap_era [simp]: "leap (400 * e + y) = leap y"
proof -
  have "400 * e + y = y + (100 * e) * 4" "400 * e + y = y + (4 * e) * 100"
    "400 * e + y = y + e * 400" by simp_all
  then have "(400 * e + y) mod 4 = y mod 4" "(400 * e + y) mod 100 = y mod 100"
    "(400 * e + y) mod 400 = y mod 400"
    by (metis mod_mult_self1)+
  then show ?thesis by (simp add: leap_def)
qed

lemma mlens_era [simp]: "mlens (400 * e + y) = mlens y"
  by (simp add: mlens_def)

lemma sum_mlens: "sum_list (mlens y) = ylen y"
  by (simp add: mlens_def ylen_def)

lemma month_loop_sum:
  "month_loop ls m d = (m', d') \<Longrightarrow> 0 \<le> d \<Longrightarrow> d < sum_list ls \<Longrightarrow> \<forall>l \<in> set ls. 0 < l \<Longrightarrow>
   m \<le> m' \<and> m' < m + int (length ls) \<and> d = sum_list (take (nat (m' - m)) ls) + d' \<and>
   0 \<le> d' \<and> d' < ls ! nat (m' - m)"
proof (induction ls m d rule: month_loop.induct)
  case (1 m d)
  then show ?case by simp
next
  case (2 l ls m d)
  show ?case
  proof (cases "d < l")
    case True
    with 2 show ?thesis by simp
  next
    case False
    with 2 have IH: "m + 1 \<le> m' \<and> m' < m + 1 + int (length ls) \<and>
        d - l = sum_list (take (nat (m' - (m + 1))) ls) + d' \<and> 0 \<le> d' \<and>
        d' < ls ! nat (m' - (m + 1))" by simp
    moreover from IH have "nat (m' - m) = Suc (nat (m' - (m + 1)))" by linarith
    ultimately show ?thesis by simp
  qed
qed

lemma mlens_pos: "\<forall>l \<in> set (mlens y). 0 < l"
  by (simp add: mlens_def)

lemma length_mlens [simp]: "length (mlens y) = 12"
  by (simp add: mlens_def)

lemma civil_correct:
  assumes "civil n = (y, m, d)"
  shows "days_of y m d = n" "1 \<le> m" "m \<le> 12" "1 \<le> d" "d \<le> mlens y ! nat (m - 1)"
    "days_before_year y \<le> n" "n < days_before_year (y + 1)"
proof -
  obtain yr doy where yl: "year_loop 1 (n mod 146097) = (yr, doy)" by fastforce
  obtain dd where ml: "month_loop (mlens yr) 1 doy = (m, dd)"
    and y: "y = 400 * (n div 146097) + yr" and d: "d = dd + 1"
    using assms yl by (auto simp: civil_def Let_def split: prod.splits)
  have b: "0 \<le> doy" "doy < ylen yr"
    using year_loop_bounds[OF _ yl] by simp_all
  have "days_before_year 1 + n mod 146097 = days_before_year yr + doy"
    by (rule year_loop_sum[OF yl])
  then have s: "n mod 146097 = days_before_year yr + doy"
    by (simp add: days_before_year_def)
  have n: "n = days_before_year y + doy"
    using s mult_div_mod_eq[of 146097 n] by (simp add: y days_before_year_era)
  note mb = month_loop_sum[OF ml b(1) _ mlens_pos, unfolded sum_mlens, OF b(2)]
  have doy: "doy = days_before_month y m + dd"
    using mb by (simp add: y days_before_month_def)
  show "days_of y m d = n" using n doy d by (simp add: days_of_def)
  show "1 \<le> m" "m \<le> 12" "1 \<le> d" "d \<le> mlens y ! nat (m - 1)"
    using mb d y by simp_all
  show "days_before_year y \<le> n" using n b by simp
  show "n < days_before_year (y + 1)"
    using n b y by (simp add: days_before_year_Suc ylen_def)
qed

section \<open>Printing and parsing RFC 3339 with nanoseconds\<close>

definition sec_of :: "time \<Rightarrow> int" where "sec_of t = t div 1000000000"
definition nsec_of :: "time \<Rightarrow> int" where "nsec_of t = t mod 1000000000"

definition clock :: "time \<Rightarrow> int \<times> int \<times> int" where
  "clock t = (let s = sec_of t mod 86400 in (s div 3600, s div 60 mod 60, s mod 60))"

definition date_of :: "time \<Rightarrow> int \<times> int \<times> int" where
  "date_of t = civil (sec_of t div 86400)"

definition fmt_year :: "int \<Rightarrow> string" where
  "fmt_year y = (if 0 \<le> y \<and> y \<le> 9999 then pad 4 y else show_int y)"

definition fmt_date :: "int \<times> int \<times> int \<Rightarrow> string" where
  "fmt_date ymd = (case ymd of (y, m, d) \<Rightarrow> fmt_year y @ ''-'' @ pad 2 m @ ''-'' @ pad 2 d)"

definition fmt_clock :: "int \<times> int \<times> int \<Rightarrow> string" where
  "fmt_clock hms = (case hms of (h, mi, s) \<Rightarrow> pad 2 h @ '':'' @ pad 2 mi @ '':'' @ pad 2 s)"

fun strip0_rev :: "string \<Rightarrow> string" where
  "strip0_rev [] = []"
| "strip0_rev (c # s) = (if c = CHR ''0'' then strip0_rev s else c # s)"

definition fmt_frac :: "int \<Rightarrow> string" where
  \<comment> \<open>the \<^verbatim>\<open>.999999999\<close> layout element: trailing zeros are removed, and the point with them\<close>
  "fmt_frac ns = (if ns = 0 then [] else CHR ''.'' # rev (strip0_rev (rev (pad 9 ns))))"

definition rfc :: "time \<Rightarrow> string" where
  "rfc t = fmt_date (date_of t) @ ''T'' @ fmt_clock (clock t) @ fmt_frac (nsec_of t) @ ''Z''"

definition parse_num :: "nat \<Rightarrow> int \<Rightarrow> int \<Rightarrow> string \<Rightarrow> (int \<times> string) option" where
  \<comment> \<open>exactly \<open>k\<close> digits with a value between \<open>lo\<close> and \<open>hi\<close>\<close>
  "parse_num k lo hi s =
     (if length s < k then None
      else case parse_digits (take k s) of None \<Rightarrow> None
      | Some n \<Rightarrow> if lo \<le> n \<and> n \<le> hi then Some (n, drop k s) else None)"

definition expect :: "char \<Rightarrow> string \<Rightarrow> string option" where
  "expect c s = (case s of [] \<Rightarrow> None | d # t \<Rightarrow> if d = c then Some t else None)"

definition parse_frac :: "string \<Rightarrow> (int \<times> string) option" where
  \<comment> \<open>an optional fraction; digits past the ninth are read and dropped\<close>
  "parse_frac s = (case s of
      c # t \<Rightarrow>
        if c = CHR ''.'' then
          (let ds = takeWhile is_digit t in
           if ds = [] then None
           else map_option (\<lambda>n. (n, dropWhile is_digit t))
                  (parse_digits (take 9 (ds @ replicate 9 (CHR ''0'')))))
        else Some (0, s)
    | [] \<Rightarrow> Some (0, []))"

definition time_at :: "int \<Rightarrow> int \<Rightarrow> int \<Rightarrow> int \<Rightarrow> int \<Rightarrow> int \<Rightarrow> int \<Rightarrow> time" where
  \<comment> \<open>\<^verbatim>\<open>time.Date(y, m, d, h, mi, s, ns, time.UTC)\<close> for fields in range\<close>
  "time_at y m d h mi s ns =
     (days_of y m d * 86400 + h * 3600 + mi * 60 + s) * 1000000000 + ns"

definition parse_date :: "string \<Rightarrow> ((int \<times> int \<times> int) \<times> string) option" where
  "parse_date s0 =
     Option.bind (parse_num 4 0 9999 s0) (\<lambda>(y, s1).
     Option.bind (expect CHR ''-'' s1) (\<lambda>s2.
     Option.bind (parse_num 2 1 12 s2) (\<lambda>(m, s3).
     Option.bind (expect CHR ''-'' s3) (\<lambda>s4.
     Option.bind (parse_num 2 1 (mlens y ! nat (m - 1)) s4) (\<lambda>(d, s5).
     Some ((y, m, d), s5))))))"

definition parse_clock :: "string \<Rightarrow> ((int \<times> int \<times> int) \<times> string) option" where
  "parse_clock s0 =
     Option.bind (parse_num 2 0 23 s0) (\<lambda>(h, s1).
     Option.bind (expect CHR '':'' s1) (\<lambda>s2.
     Option.bind (parse_num 2 0 59 s2) (\<lambda>(mi, s3).
     Option.bind (expect CHR '':'' s3) (\<lambda>s4.
     Option.bind (parse_num 2 0 59 s4) (\<lambda>(s, s5).
     Some ((h, mi, s), s5))))))"

definition parse_time :: "string \<Rightarrow> time option" where
  \<comment> \<open>\<^verbatim>\<open>time.Parse(time.RFC3339Nano, s)\<close> for the UTC designator \<^verbatim>\<open>Z\<close>, the only one the
     program writes\<close>
  "parse_time s0 =
     Option.bind (parse_date s0) (\<lambda>((y, m, d), s1).
     Option.bind (expect CHR ''T'' s1) (\<lambda>s2.
     Option.bind (parse_clock s2) (\<lambda>((h, mi, s), s3).
     Option.bind (parse_frac s3) (\<lambda>(ns, s4).
     if s4 = ''Z'' then Some (time_at y m d h mi s ns) else None))))"

text \<open>The times with a four-digit year: every text the program stores.\<close>

definition year_ok :: "time \<Rightarrow> bool" where
  "year_ok t \<longleftrightarrow> 0 \<le> fst (date_of t) \<and> fst (date_of t) \<le> 9999"

lemma parse_num_pad [simp]:
  "0 < k \<Longrightarrow> 0 \<le> n \<Longrightarrow> n < 10 ^ k \<Longrightarrow> lo \<le> n \<Longrightarrow> n \<le> hi \<Longrightarrow> parse_num k lo hi (pad k n @ s) = Some (n, s)"
  by (simp add: parse_num_def parse_digits_pad)

lemma expect_Cons [simp]: "expect c (c # s) = Some s"
  by (simp add: expect_def)

lemma mlens_max: "i < 12 \<Longrightarrow> mlens y ! i \<le> 31"
  by (auto simp: mlens_def nth_Cons split: nat.splits)

lemma clock_bounds:
  assumes "clock t = (h, mi, s)"
  shows "0 \<le> h" "h \<le> 23" "0 \<le> mi" "mi \<le> 59" "0 \<le> s" "s \<le> 59"
    "h * 3600 + mi * 60 + s = sec_of t mod 86400"
proof -
  define x where "x = sec_of t mod 86400"
  have x: "0 \<le> x" "x < 86400" by (simp_all add: x_def)
  have e: "h = x div 3600" "mi = x div 60 mod 60" "s = x mod 60"
    using assms by (simp_all add: clock_def Let_def x_def)
  have "x div 3600 = x div 60 div 60" using zdiv_zmult2_eq[of 60 x 60] by simp
  then have "x = 3600 * (x div 3600) + 60 * (x div 60 mod 60) + x mod 60"
    using mult_div_mod_eq[of 60 x] mult_div_mod_eq[of 60 "x div 60"] by linarith
  then show "h * 3600 + mi * 60 + s = sec_of t mod 86400"
    unfolding e x_def[symmetric] by linarith
  show "0 \<le> h" "h \<le> 23" "0 \<le> mi" "mi \<le> 59" "0 \<le> s" "s \<le> 59"
    using x e by simp_all
qed

lemma strip0_rev_append: "\<exists>k. s = replicate k (CHR ''0'') @ strip0_rev s"
proof (induction s)
  case Nil
  then show ?case by simp
next
  case (Cons c s)
  then obtain k where k: "s = replicate k (CHR ''0'') @ strip0_rev s" ..
  show ?case
  proof (cases "c = CHR ''0''")
    case True
    then have "c # s = replicate (Suc k) (CHR ''0'') @ strip0_rev (c # s)"
      using k by simp
    then show ?thesis by blast
  next
    case False
    then have "c # s = replicate 0 (CHR ''0'') @ strip0_rev (c # s)" by simp
    then show ?thesis by blast
  qed
qed

lemma frac_digits:
  obtains k where "pad 9 ns = rev (strip0_rev (rev (pad 9 ns))) @ replicate k (CHR ''0'')"
proof -
  obtain k where "rev (pad 9 ns) = replicate k (CHR ''0'') @ strip0_rev (rev (pad 9 ns))"
    using strip0_rev_append by blast
  then have "pad 9 ns = rev (strip0_rev (rev (pad 9 ns))) @ replicate k (CHR ''0'')"
    by (metis rev_append rev_replicate rev_rev_ident)
  then show ?thesis by (rule that)
qed

lemma pad_zero: "pad k 0 = replicate k (CHR ''0'')"
proof (induction k)
  case 0
  then show ?case by simp
next
  case (Suc k)
  have "digit_char 0 = CHR ''0''" by code_simp
  with Suc show ?case by (simp add: replicate_append_same)
qed

lemma parse_frac_fmt:
  assumes "0 \<le> ns" "ns < 1000000000"
  shows "parse_frac (fmt_frac ns @ ''Z'') = Some (ns, ''Z'')"
proof (cases "ns = 0")
  case True
  then show ?thesis by (simp add: fmt_frac_def parse_frac_def)
next
  case False
  define D where "D = rev (strip0_rev (rev (pad 9 ns)))"
  obtain k where k: "pad 9 ns = D @ replicate k (CHR ''0'')"
    using frac_digits unfolding D_def by blast
  have len: "length D + k = 9"
    using arg_cong[OF k, of length] by simp
  have dig: "list_all is_digit D"
    using pad_digits[of 9 ns] unfolding k by simp
  have "D \<noteq> []"
  proof
    assume "D = []"
    then have "pad 9 ns = pad 9 0" using k len by (simp add: pad_zero)
    then show False using False assms by (simp add: pad_inj)
  qed
  moreover have "takeWhile is_digit (D @ ''Z'') = D" "dropWhile is_digit (D @ ''Z'') = ''Z''"
    using dig by (simp_all add: list_all_iff is_digit_def less_eq_char_def)
  moreover have "take 9 (D @ replicate 9 (CHR ''0'')) = pad 9 ns"
    using len by (simp add: k)
  moreover have "fmt_frac ns @ ''Z'' = CHR ''.'' # D @ ''Z''"
    using False by (simp add: fmt_frac_def D_def)
  ultimately show ?thesis
    using assms by (simp add: parse_frac_def parse_digits_pad)
qed

lemma parse_date_fmt:
  assumes "civil n = (y, m, d)" "0 \<le> y" "y \<le> 9999"
  shows "parse_date (fmt_date (y, m, d) @ s) = Some ((y, m, d), s)"
proof -
  note c = civil_correct[OF assms(1)]
  have "nat (m - 1) < 12" using c by simp
  then have "d \<le> 31" using c(5) mlens_max[of "nat (m - 1)" y] by linarith
  then show ?thesis
    using assms c by (simp add: parse_date_def fmt_date_def fmt_year_def)
qed

lemma parse_clock_fmt:
  "clock t = (h, mi, sc) \<Longrightarrow> parse_clock (fmt_clock (h, mi, sc) @ s) = Some ((h, mi, sc), s)"
  using clock_bounds[of t h mi sc] by (simp add: parse_clock_def fmt_clock_def)

lemma time_at_fields:
  assumes "date_of t = (y, m, d)" "clock t = (h, mi, sc)"
  shows "time_at y m d h mi sc (nsec_of t) = t"
proof -
  have "days_of y m d = sec_of t div 86400"
    using civil_correct(1) assms(1) by (simp add: date_of_def)
  moreover note clock_bounds(7)[OF assms(2)]
  ultimately have "days_of y m d * 86400 + h * 3600 + mi * 60 + sc = sec_of t"
    using div_mult_mod_eq[of "sec_of t" 86400] by linarith
  then show ?thesis
    using div_mult_mod_eq[of t 1000000000] by (simp add: time_at_def sec_of_def nsec_of_def)
qed

lemma parse_time_rfc:
  assumes "year_ok t"
  shows "parse_time (rfc t) = Some t"
proof -
  obtain y m d where ymd: "date_of t = (y, m, d)" by (cases "date_of t") auto
  obtain h mi sc where hms: "clock t = (h, mi, sc)" by (cases "clock t") auto
  have "parse_frac (fmt_frac (nsec_of t) @ ''Z'') = Some (nsec_of t, ''Z'')"
    by (rule parse_frac_fmt) (simp_all add: nsec_of_def)
  then show ?thesis
    using assms ymd hms parse_date_fmt parse_clock_fmt[OF hms] time_at_fields[OF ymd hms]
    by (simp add: parse_time_def rfc_def year_ok_def date_of_def)
qed

lemma rfc_inj: "year_ok t \<Longrightarrow> year_ok u \<Longrightarrow> rfc t = rfc u \<longleftrightarrow> t = u"
  by (metis option.inject parse_time_rfc)

section \<open>The text order of stored times\<close>

definition lex3 :: "int \<times> int \<times> int \<Rightarrow> int \<times> int \<times> int \<Rightarrow> bool" where
  "lex3 p q = (case (p, q) of ((a, b, c), (a', b', c')) \<Rightarrow>
     a < a' \<or> (a = a' \<and> (b < b' \<or> (b = b' \<and> c < c'))))"

lemma lex3_total: "p = q \<or> lex3 p q \<or> lex3 q p"
  by (cases p; cases q) (auto simp: lex3_def)

lemma days_before_month_mono:
  assumes "1 \<le> m" "m < m'" "m' \<le> 12"
  shows "days_before_month y m + mlens y ! nat (m - 1) \<le> days_before_month y m'"
proof -
  have "nat (m - 1) < length (mlens y)" using assms by simp
  then have "days_before_month y m + mlens y ! nat (m - 1) = sum_list (take (Suc (nat (m - 1))) (mlens y))"
    by (simp add: days_before_month_def take_Suc_conv_app_nth)
  also have "\<dots> \<le> days_before_month y m'"
  proof -
    have "Suc (nat (m - 1)) \<le> nat (m' - 1)" using assms by linarith
    then have "take (nat (m' - 1)) (mlens y) =
        take (Suc (nat (m - 1))) (mlens y) @ drop (Suc (nat (m - 1))) (take (nat (m' - 1)) (mlens y))"
      by (metis append_take_drop_id min.absorb1 take_take)
    moreover have "0 \<le> sum_list (drop (Suc (nat (m - 1))) (take (nat (m' - 1)) (mlens y)))"
      using mlens_pos[of y] by (intro sum_list_nonneg) (meson in_set_dropD in_set_takeD less_imp_le)
    ultimately show ?thesis by (metis add_increasing2 days_before_month_def order_refl sum_list_append)
  qed
  finally show ?thesis .
qed

lemma civil_less: "lex3 (civil n) (civil n') \<Longrightarrow> n < n'"
proof -
  assume l: "lex3 (civil n) (civil n')"
  obtain y m d where c: "civil n = (y, m, d)" by (cases "civil n") auto
  obtain y' m' d' where c': "civil n' = (y', m', d')" by (cases "civil n'") auto
  note a = civil_correct[OF c] and b = civil_correct[OF c']
  consider "y < y'" | "y = y'" "m < m'" | "y = y'" "m = m'" "d < d'"
    using l c c' by (auto simp: lex3_def)
  then show "n < n'"
  proof cases
    case 1
    then have "days_before_year (y + 1) \<le> days_before_year y'"
      by (intro days_before_year_mono) simp
    then show ?thesis using a(7) b(6) by linarith
  next
    case 2
    then have "days_before_month y m + mlens y ! nat (m - 1) \<le> days_before_month y m'"
      using a(2) b(3) by (intro days_before_month_mono) auto
    then show ?thesis using a(1,4,5) b(1,4) 2 by (simp add: days_of_def)
  next
    case 3
    then show ?thesis using a(1) b(1) by (auto simp: days_of_def)
  qed
qed

lemma civil_mono: "n < n' \<longleftrightarrow> lex3 (civil n) (civil n')"
proof
  assume "n < n'"
  then have "civil n \<noteq> civil n'"
    by (metis civil_correct(1) less_irrefl prod_cases3)
  moreover have "\<not> lex3 (civil n') (civil n)"
    using \<open>n < n'\<close> civil_less by fastforce
  ultimately show "lex3 (civil n) (civil n')" using lex3_total by blast
qed (rule civil_less)

lemma fmt3_less:
  assumes "0 \<le> a" "a < 10 ^ i" "0 \<le> a'" "a' < 10 ^ i" "0 \<le> b" "b < 10 ^ j" "0 \<le> b'" "b' < 10 ^ j"
    "0 \<le> d" "d < 10 ^ k" "0 \<le> d'" "d' < 10 ^ k"
  shows "pad i a @ [c] @ pad j b @ [c] @ pad k d < pad i a' @ [c] @ pad j b' @ [c] @ pad k d' \<longleftrightarrow>
    lex3 (a, b, d) (a', b', d')"
  using assms by (simp add: append_less_same_length pad_less pad_inj lex3_def)

lemma clock_mono:
  assumes "sec_of t div 86400 = sec_of u div 86400"
  shows "lex3 (clock t) (clock u) \<longleftrightarrow> sec_of t < sec_of u"
proof -
  obtain h mi s where c: "clock t = (h, mi, s)" by (cases "clock t") auto
  obtain h' mi' s' where c': "clock u = (h', mi', s')" by (cases "clock u") auto
  note a = clock_bounds[OF c] and b = clock_bounds[OF c']
  have "sec_of t < sec_of u \<longleftrightarrow> sec_of t mod 86400 < sec_of u mod 86400"
    using assms mult_div_mod_eq[of 86400 "sec_of t"] mult_div_mod_eq[of 86400 "sec_of u"] by linarith
  also have "\<dots> \<longleftrightarrow> h * 3600 + mi * 60 + s < h' * 3600 + mi' * 60 + s'"
    using a(7) b(7) by simp
  also have "\<dots> \<longleftrightarrow> lex3 (clock t) (clock u)"
    using a(1-6) b(1-6) c c' by (auto simp: lex3_def)
  finally show ?thesis by simp
qed

definition stamp :: "time \<Rightarrow> string" where
  "stamp t = fmt_date (date_of t) @ ''T'' @ fmt_clock (clock t)"

lemma rfc_stamp: "rfc t = stamp t @ fmt_frac (nsec_of t) @ ''Z''"
  by (simp add: rfc_def stamp_def)

lemma fmt_clock_less: "fmt_clock (clock t) < fmt_clock (clock u) \<longleftrightarrow> lex3 (clock t) (clock u)"
proof -
  obtain h mi s where c: "clock t = (h, mi, s)" by (cases "clock t") auto
  obtain h' mi' s' where c': "clock u = (h', mi', s')" by (cases "clock u") auto
  show ?thesis
    unfolding c c' fmt_clock_def prod.case
    using clock_bounds[OF c] clock_bounds[OF c'] by (intro fmt3_less) auto
qed

lemma date_bounds:
  assumes "year_ok t" "date_of t = (y, m, d)"
  shows "0 \<le> y" "y < 10 ^ 4" "0 \<le> m" "m < 10 ^ 2" "0 \<le> d" "d < 10 ^ 2"
proof -
  have c: "civil (sec_of t div 86400) = (y, m, d)" using assms by (simp add: date_of_def)
  note a = civil_correct[OF c]
  have "nat (m - 1) < 12" using a by simp
  then have "d \<le> 31" using a(5) mlens_max[of "nat (m - 1)" y] by linarith
  then show "0 \<le> y" "y < 10 ^ 4" "0 \<le> m" "m < 10 ^ 2" "0 \<le> d" "d < 10 ^ 2"
    using a assms by (simp_all add: year_ok_def)
qed

lemma fmt_date_less:
  assumes "year_ok t" "year_ok u"
  shows "fmt_date (date_of t) < fmt_date (date_of u) \<longleftrightarrow> lex3 (date_of t) (date_of u)"
proof -
  obtain y m d where c: "date_of t = (y, m, d)" by (cases "date_of t") auto
  obtain y' m' d' where c': "date_of u = (y', m', d')" by (cases "date_of u") auto
  note a = date_bounds[OF assms(1) c] and b = date_bounds[OF assms(2) c']
  have f: "fmt_year y = pad 4 y" "fmt_year y' = pad 4 y'"
    using a b by (simp_all add: fmt_year_def)
  show ?thesis
    unfolding c c' fmt_date_def prod.case f
    using a b by (intro fmt3_less) auto
qed

lemma length_stamp_parts:
  "year_ok t \<Longrightarrow> length (fmt_date (date_of t)) = 10" "length (fmt_clock (clock t)) = 8"
  by (auto simp: fmt_date_def fmt_clock_def fmt_year_def year_ok_def split: prod.splits)

lemma stamp_less:
  assumes "year_ok t" "year_ok u"
  shows "stamp t < stamp u \<longleftrightarrow> sec_of t < sec_of u"
proof -
  let ?D = "sec_of t div 86400" and ?E = "sec_of u div 86400"
  have dl: "fmt_date (date_of t) < fmt_date (date_of u) \<longleftrightarrow> ?D < ?E"
    unfolding fmt_date_less[OF assms] by (simp add: date_of_def civil_mono)
  have de: "fmt_date (date_of t) = fmt_date (date_of u) \<longleftrightarrow> ?D = ?E"
    using dl fmt_date_less[OF assms(2,1)] civil_mono[of ?E ?D]
    by (metis date_of_def less_irrefl linorder_neqE)
  have "stamp t < stamp u \<longleftrightarrow> ?D < ?E \<or> (?D = ?E \<and> lex3 (clock t) (clock u))"
    unfolding stamp_def
    using append_less_same_length[of "fmt_date (date_of t)" "fmt_date (date_of u)"]
    by (simp add: length_stamp_parts assms dl de fmt_clock_less)
  also have "\<dots> \<longleftrightarrow> sec_of t < sec_of u"
    using clock_mono[of t u] zdiv_mono1[of "sec_of t" "sec_of u" 86400]
      zdiv_mono1[of "sec_of u" "sec_of t" 86400] by linarith
  finally show ?thesis .
qed

lemma rfc_less:
  assumes "year_ok t" "year_ok u" "sec_of t \<noteq> sec_of u"
  shows "rfc t < rfc u \<longleftrightarrow> t < u"
proof -
  have len: "length (stamp t) = length (stamp u)"
    by (simp add: stamp_def length_stamp_parts assms)
  have ne: "stamp t \<noteq> stamp u"
    using stamp_less[OF assms(1,2)] stamp_less[OF assms(2,1)] assms(3)
    by (metis less_irrefl linorder_neqE)
  have "rfc t < rfc u \<longleftrightarrow> sec_of t < sec_of u"
    using ne by (simp add: rfc_stamp append_less_same_length[OF len] stamp_less assms)
  also have "\<dots> \<longleftrightarrow> t < u"
    using assms(3) zdiv_mono1[of t u 1000000000] zdiv_mono1[of u t 1000000000]
    unfolding sec_of_def by linarith
  finally show ?thesis .
qed

lemma rfc_le:
  assumes "year_ok t" "year_ok u" "sec_of t \<noteq> sec_of u"
  shows "rfc t \<le> rfc u \<longleftrightarrow> t \<le> u"
  using rfc_less[OF assms] rfc_inj[OF assms(1,2)] by (auto simp: le_less)

section \<open>Exponential delays\<close>

text \<open>The doubling loop that the retry policy of events and the backoff of jobs share.\<close>

fun double_loop :: "nat \<Rightarrow> duration \<Rightarrow> duration \<Rightarrow> duration" where
  \<comment> \<open>\<^verbatim>\<open>for range n { d *= 2; if d >= maximum { return maximum } }; return d\<close>\<close>
  "double_loop 0 d maximum = d"
| "double_loop (Suc n) d maximum =
     (let d' = i64 (d * 2) in if maximum \<le> d' then maximum else double_loop n d' maximum)"

text \<open>Doubling stays exact as long as the cap is below half the range of a duration.\<close>

lemma double_loop_eq:
  assumes "0 < d" "d \<le> maximum" "maximum < 2 ^ 62"
  shows "double_loop n d maximum = (if n = 0 then d else min maximum (d * 2 ^ n))"
  using assms
proof (induction n arbitrary: d)
  case 0
  then show ?case by simp
next
  case (Suc n)
  have e: "i64 (d * 2) = d * 2"
    using Suc.prems by (intro i64_id) (simp add: in_i64_def int64_min_def int64_max_def)
  show ?case
  proof (cases "maximum \<le> d * 2")
    case True
    have "d * 2 * 1 \<le> d * 2 * 2 ^ n" using Suc.prems by (intro mult_left_mono) simp_all
    then have "maximum \<le> d * 2 ^ Suc n" using True by simp
    then show ?thesis using True e by (simp add: min_def)
  next
    case False
    then have "double_loop n (d * 2) maximum = (if n = 0 then d * 2 else min maximum (d * 2 * 2 ^ n))"
      using Suc.prems by (intro Suc.IH) auto
    then show ?thesis using False e by (auto simp: Let_def min_def mult.assoc)
  qed
qed

section \<open>Properties\<close>

text \<open>
  C40. Stored times: a time with a four-digit year survives being written and read back, and
  two stored times in different seconds compare as text the way they compare in time, which is
  what every SQL condition on a stored time relies on.
\<close>

theorem stored_time_faithful:
  assumes "year_ok t" "year_ok u"
  shows "parse_time (rfc t) = Some t \<and> (rfc t = rfc u \<longleftrightarrow> t = u) \<and>
    (sec_of t \<noteq> sec_of u \<longrightarrow> (rfc t < rfc u \<longleftrightarrow> t < u) \<and> (rfc t \<le> rfc u \<longleftrightarrow> t \<le> u))"
  using parse_time_rfc[OF assms(1)] rfc_inj[OF assms] rfc_less[OF assms] rfc_le[OF assms] by blast

theorem stored_time_faithful_witness:
  "rfc 5 < rfc 2000000000 \<and> parse_time (rfc 5) = Some 5"
proof -
  have "year_ok 5" "year_ok 2000000000" "sec_of 5 \<noteq> sec_of 2000000000" by code_simp+
  then show ?thesis using stored_time_faithful[of 5 2000000000] by simp
qed

end
