(* ===== verification/Storage_Tx.thy ===== *)
theory Storage_Tx
  imports CC_Time
begin

text \<open>
  \<^verbatim>\<open>internal/core/storage/sqlite.go\<close>: the serialized writer and the transaction runner
  every other module uses. \<open>store_Tx\<close> is \<^verbatim>\<open>Store.Tx\<close> with every way it can fail: an illegal
  nested call, a cancelled context before or after the callback, a failing connection,
  \<^verbatim>\<open>BEGIN\<close> or \<^verbatim>\<open>COMMIT\<close>, an error from the callback, and a panic in it. What the
  environment does is an argument (\<open>tx_env\<close>); the database is any type.

  A callback is a function of the database that returns its result, the database with its
  writes, and the callbacks it registered with \<^verbatim>\<open>AfterCommit\<close>; \<^const>\<open>None\<close> is a panic.
  The locale \<open>atomic_tx\<close> is the contract of \<^verbatim>\<open>storage.DB.Tx\<close> that the modules rely on; the
  runner of the other theories, \<open>run_tx\<close>, is \<open>store_Tx\<close> in an environment without failures.
\<close>

section \<open>The writer\<close>

record 'd store =
  st_db :: 'd
  st_sem :: bool \<comment> \<open>\<^verbatim>\<open>writeSem\<close> is taken\<close>
  st_owner :: "nat list" \<comment> \<open>\<^verbatim>\<open>txOwner\<close>: the goroutine inside a callback\<close>
  st_writer :: bool \<comment> \<open>\<^verbatim>\<open>currentWriter\<close> is set\<close>

datatype 'e tx_error = ErrNestedTx | ErrCtx | ErrConn | ErrBegin | ErrCommit | ErrFn 'e

datatype ('e, 'a) tx_result = TxOk 'a | TxErr "'e tx_error" | TxPanic

record tx_env =
  env_ctx_done :: bool \<comment> \<open>the context ends before the writer is acquired\<close>
  env_conn_err :: bool
  env_begin_err :: bool
  env_ctx_err :: bool \<comment> \<open>\<^verbatim>\<open>ctx.Err()\<close> after the callback\<close>
  env_commit_err :: bool

definition env_ok :: tx_env where
  "env_ok = \<lparr>env_ctx_done = False, env_conn_err = False, env_begin_err = False,
     env_ctx_err = False, env_commit_err = False\<rparr>"

type_synonym ('d, 'e, 'a, 'c) tx_body = "'d \<Rightarrow> (('e + 'a) \<times> 'd \<times> 'c list) option"

definition acquire :: "nat \<Rightarrow> bool \<Rightarrow> 'd store \<Rightarrow> ('e tx_error + 'd store) option" where
  \<comment> \<open>\<^const>\<open>None\<close>: the caller waits for the semaphore\<close>
  "acquire gid done s =
     (if gid \<in> set (st_owner s) then Some (Inl ErrNestedTx)
      else if done then Some (Inl ErrCtx)
      else if st_sem s then None
      else Some (Inr (s\<lparr>st_sem := True, st_owner := gid # st_owner s\<rparr>)))"

definition release :: "nat \<Rightarrow> 'd store \<Rightarrow> 'd store" where
  "release gid s = s\<lparr>st_owner := filter (\<lambda>g. g \<noteq> gid) (st_owner s), st_sem := False\<rparr>"

definition store_Tx ::
  "nat \<Rightarrow> tx_env \<Rightarrow> ('d, 'e, 'a, 'c) tx_body \<Rightarrow> 'd store \<Rightarrow>
   (('e, 'a) tx_result \<times> 'd store \<times> 'c list) option" where
  "store_Tx gid env fn s =
     (case acquire gid (env_ctx_done env) s of
        None \<Rightarrow> None
      | Some (Inl e) \<Rightarrow> Some (TxErr e, s, [])
      | Some (Inr s1) \<Rightarrow>
          if env_conn_err env then Some (TxErr ErrConn, release gid s1, [])
          else if env_begin_err env then Some (TxErr ErrBegin, release gid s1, [])
          else
            (let s2 = s1\<lparr>st_writer := True\<rparr>;
                 undo = release gid (s2\<lparr>st_writer := False\<rparr>)
             in case fn (st_db s2) of
                  None \<Rightarrow> Some (TxPanic, undo, [])
                | Some (Inl e, d, after) \<Rightarrow> Some (TxErr (ErrFn e), undo, [])
                | Some (Inr a, d, after) \<Rightarrow>
                    if env_ctx_err env then Some (TxErr ErrCtx, undo, [])
                    else if env_commit_err env then Some (TxErr ErrCommit, undo, [])
                    else Some (TxOk a, release gid (s2\<lparr>st_db := d, st_writer := False\<rparr>), after)))"

lemma release_acquired:
  "gid \<notin> set (st_owner s) \<Longrightarrow> \<not> st_sem s \<Longrightarrow>
   release gid (s\<lparr>st_sem := True, st_owner := gid # st_owner s\<rparr>) = s"
proof -
  assume "gid \<notin> set (st_owner s)" "\<not> st_sem s"
  then have "filter (\<lambda>g. g \<noteq> gid) (st_owner s) = st_owner s" by (auto simp: filter_id_conv)
  with \<open>\<not> st_sem s\<close> show ?thesis by (cases s) (simp add: release_def)
qed

definition idle :: "nat \<Rightarrow> 'd store \<Rightarrow> bool" where
  "idle gid s \<longleftrightarrow> gid \<notin> set (st_owner s) \<and> \<not> st_sem s \<and> \<not> st_writer s"

lemma undo_idle:
  "idle gid s \<Longrightarrow>
   release gid (s\<lparr>st_sem := True, st_owner := gid # st_owner s, st_writer := False\<rparr>) = s"
  using release_acquired[of gid s] by (cases s) (auto simp: idle_def release_def filter_id_conv)

section \<open>All or nothing\<close>

lemma store_Tx_nested:
  "gid \<in> set (st_owner s) \<Longrightarrow> store_Tx gid env fn s = Some (TxErr ErrNestedTx, s, [])"
  by (simp add: store_Tx_def acquire_def)

lemma store_Tx_rollback:
  assumes "idle gid s" "store_Tx gid env fn s = Some (r, s', cs)" "\<nexists>a. r = TxOk a"
  shows "s' = s \<and> cs = []"
  using assms undo_idle[OF assms(1)] release_acquired[of gid s]
  by (auto simp: store_Tx_def acquire_def Let_def idle_def
      split: option.splits sum.splits if_splits)

lemma store_Tx_commit:
  assumes "idle gid s" "store_Tx gid env fn s = Some (TxOk a, s', cs)"
  shows "\<exists>d. fn (st_db s) = Some (Inr a, d, cs) \<and> s' = s\<lparr>st_db := d\<rparr>"
proof -
  have "filter (\<lambda>g. g \<noteq> gid) (st_owner s) = st_owner s"
    using assms(1) by (auto simp: idle_def filter_id_conv)
  then show ?thesis
    using assms
    by (cases s) (auto simp: store_Tx_def acquire_def Let_def idle_def release_def
        split: option.splits sum.splits if_splits)
qed

lemma store_Tx_returns: "idle gid s \<Longrightarrow> \<exists>r s' cs. store_Tx gid env fn s = Some (r, s', cs)"
  by (auto simp: store_Tx_def acquire_def Let_def idle_def split: option.splits sum.splits)

section \<open>The runner the modules use\<close>

text \<open>
  In the module theories a transaction body is a function from the database to a result and
  the database with the body's writes, and \<open>run_tx\<close> keeps the writes of a body that
  returned no error. A transaction that fails technically is rolled back by
  \<open>store_Tx_rollback\<close> and leaves the database as it was.
\<close>

type_synonym ('d, 'e, 'a) txfn = "'d \<Rightarrow> ('e + 'a) \<times> 'd"

definition run_tx :: "('d, 'e, 'a) txfn \<Rightarrow> ('d, 'e, 'a) txfn" where
  "run_tx f d = (case f d of (Inl e, d') \<Rightarrow> (Inl e, d) | (Inr a, d') \<Rightarrow> (Inr a, d'))"

definition as_body :: "('d, 'e, 'a) txfn \<Rightarrow> ('d, 'e, 'a, 'c) tx_body" where
  "as_body f d = (case f d of (r, d') \<Rightarrow> Some (r, d', []))"

lemma store_Tx_env_ok:
  assumes "idle gid s"
  shows "store_Tx gid env_ok (as_body f) s =
    (case run_tx f (st_db s) of
       (Inl e, d) \<Rightarrow> Some (TxErr (ErrFn e), s\<lparr>st_db := d\<rparr>, [])
     | (Inr a, d) \<Rightarrow> Some (TxOk a, s\<lparr>st_db := d\<rparr>, []))"
proof -
  have "filter (\<lambda>g. g \<noteq> gid) (st_owner s) = st_owner s"
    using assms by (auto simp: idle_def filter_id_conv)
  then show ?thesis
    using assms
    by (cases s) (auto simp: store_Tx_def acquire_def Let_def idle_def release_def env_ok_def
        as_body_def run_tx_def split: prod.splits sum.splits)
qed

locale atomic_tx =
  fixes tx :: "('d, 'e, 'a) txfn \<Rightarrow> ('d, 'e, 'a) txfn"
  assumes tx_error: "f d = (Inl e, d') \<Longrightarrow> tx f d = (Inl e, d)"
    and tx_commit: "f d = (Inr a, d') \<Longrightarrow> tx f d = (Inr a, d')"
begin

lemma tx_keeps:
  assumes "I d" "\<And>a d'. f d = (Inr a, d') \<Longrightarrow> I d'"
  shows "I (snd (tx f d))"
proof (cases "f d")
  case (Pair r d')
  with assms show ?thesis by (cases r) (simp_all add: tx_error tx_commit)
qed

lemma tx_rel:
  assumes "R d d" "\<And>a d'. f d = (Inr a, d') \<Longrightarrow> R d d'"
  shows "R d (snd (tx f d))"
proof (cases "f d")
  case (Pair r d')
  with assms show ?thesis by (cases r) (simp_all add: tx_error tx_commit)
qed

lemma tx_Inr: "tx f d = (Inr a, d') \<longleftrightarrow> f d = (Inr a, d')"
  by (cases "f d", cases "fst (f d)") (auto simp: tx_error tx_commit)

lemma tx_Inl: "tx f d = (Inl e, d') \<longleftrightarrow> (\<exists>d1. f d = (Inl e, d1)) \<and> d' = d"
  by (cases "f d", cases "fst (f d)") (auto simp: tx_error tx_commit)

end

interpretation rtx: atomic_tx run_tx
  by unfold_locales (simp_all add: run_tx_def)

lemmas run_tx_iff = rtx.tx_Inr rtx.tx_Inl

section \<open>Properties\<close>



text \<open>
  A transaction started inside another one on the same goroutine is refused at once, instead
  of waiting for the writer its own caller holds.
\<close>

theorem nested_tx_refused:
  assumes "acquire gid False s = Some (Inr s1)"
  shows "store_Tx gid env fn s1 = Some (TxErr ErrNestedTx, s1, [])"
proof -
  have "gid \<in> set (st_owner s1)" using assms by (auto simp: acquire_def split: if_splits)
  then show ?thesis by (rule store_Tx_nested)
qed

theorem nested_tx_refused_witness:
  "let s = \<lparr>st_db = 0 :: int, st_sem = True, st_owner = [7], st_writer = False\<rparr> in
   store_Tx 7 env_ok (\<lambda>d. Some (Inr () :: string + unit, d, [] :: nat list)) s = Some (TxErr ErrNestedTx, s, [])"
  unfolding Let_def
  by (rule nested_tx_refused[of 7 "\<lparr>st_db = 0, st_sem = False, st_owner = [], st_writer = False\<rparr>"])
    (simp add: acquire_def)

end
