(* ===== verification/Events_Pattern.thy ===== *)
theory Events_Pattern
  imports CC_Prelude
begin

text \<open>
  \<^verbatim>\<open>internal/core/events/pattern.go\<close> and the name grammar of \<^verbatim>\<open>durable.go\<close>: event types,
  sources, subscription patterns and their matcher. The matcher, a loop that recurses where
  \<^verbatim>\<open>**\<close> makes the split ambiguous, is proved equal to a declarative meaning of patterns
  (\<open>seg_match\<close>), and the SQL prefix of a pattern is proved to be a necessary condition.
\<close>

section \<open>Validation\<close>

datatype events_error =
    ErrInvalidType string | ErrInvalidSource string | ErrInvalidPattern string
  | ErrPayloadTooBig | ErrMarshal | ErrPatternChanged | ErrUnknownName | ErrNotPaused
  | ErrBadName | ErrBadRetry | ErrBadStart | ErrAlreadyRunning | ErrHandler string | ErrEventsSQL

definition seg_char :: "char \<Rightarrow> bool" where
  "seg_char c \<longleftrightarrow> is_lower c \<or> is_digit c \<or> c = CHR ''_''"

definition validSegment :: "string \<Rightarrow> bool" where
  "validSegment s = (case s of [] \<Rightarrow> False | c # cs \<Rightarrow> is_lower c \<and> list_all seg_char cs)"

definition validateType :: "string \<Rightarrow> events_error + unit" where
  "validateType t =
     (let segs = split_on CHR ''.'' t in
      if length segs < 2 then Inl (ErrInvalidType t)
      else if \<not> list_all validSegment segs then Inl (ErrInvalidType t)
      else Inr ())"

definition before_dot :: "string \<Rightarrow> string" where
  \<comment> \<open>\<^verbatim>\<open>first, _, _ := strings.Cut(eventType, ".")\<close>\<close>
  "before_dot t = (case cut CHR ''.'' t of None \<Rightarrow> t | Some (a, b) \<Rightarrow> a)"

definition validateSource :: "string \<Rightarrow> string \<Rightarrow> events_error + unit" where
  "validateSource source eventType =
     (if source = [] then Inl (ErrInvalidSource source)
      else
        (let segs = split_on CHR ''.'' source in
         if \<not> list_all validSegment segs then Inl (ErrInvalidSource source)
         else if hd segs = ''core'' \<and> length segs \<noteq> 2 then Inl (ErrInvalidSource source)
         else if hd segs \<noteq> ''core'' \<and> length segs \<noteq> 1 then Inl (ErrInvalidSource source)
         else
           (let namespace = (if hd segs = ''core'' then ''core'' else hd segs) in
            if before_dot eventType \<noteq> namespace then Inl (ErrInvalidSource source) else Inr ())))"

definition isDottedName :: "string \<Rightarrow> bool" where
  "isDottedName name \<longleftrightarrow> list_all validSegment (split_on CHR ''.'' name)"

definition validDurableName :: "string \<Rightarrow> bool" where
  "validDurableName name =
     (if validSegment name \<or> isDottedName name then True
      else if \<not> has_prefix name ''plugin:'' then False
      else case cut CHR '':'' (trim_prefix name ''plugin:'') of
             None \<Rightarrow> False
           | Some (ident, local) \<Rightarrow>
               validSegment ident \<and> validSegment local \<and> \<not> contains_sub local '':'')"

section \<open>Patterns\<close>

record pattern =
  raw :: string
  segs :: "string list"

definition CompilePattern :: "string \<Rightarrow> events_error + pattern" where
  "CompilePattern p =
     (if p = [] then Inl (ErrInvalidPattern p)
      else
        (let ss = split_on CHR ''.'' p in
         if list_all (\<lambda>s. s = ''*'' \<or> s = ''**'' \<or> validSegment s) ss
         then Inr \<lparr>raw = p, segs = ss\<rparr> else Inl (ErrInvalidPattern p)))"

fun matchSegments :: "string list \<Rightarrow> string list \<Rightarrow> bool"
  and tryFrom :: "string list \<Rightarrow> string list \<Rightarrow> bool" where
  "matchSegments [] typ = (typ = [])"
| "matchSegments (p # rest) typ =
     (if p = ''**'' then (if rest = [] then True else tryFrom rest typ)
      else if p = ''*'' then
        (case typ of [] \<Rightarrow> False | t # ts \<Rightarrow> matchSegments rest ts)
      else
        (case typ of [] \<Rightarrow> False | t # ts \<Rightarrow> if t \<noteq> p then False else matchSegments rest ts))"
| "tryFrom rest typ =
     (if matchSegments rest typ then True
      else case typ of [] \<Rightarrow> False | t # ts \<Rightarrow> tryFrom rest ts)"

definition Matches :: "pattern \<Rightarrow> string \<Rightarrow> bool" where
  "Matches p eventType = matchSegments (segs p) (split_on CHR ''.'' eventType)"

definition literal_segs :: "string list \<Rightarrow> string list" where
  "literal_segs ss = takeWhile (\<lambda>s. s \<noteq> ''*'' \<and> s \<noteq> ''**'') ss"

definition sqlPrefix :: "pattern \<Rightarrow> string" where
  "sqlPrefix p = join_with ''.'' (literal_segs (segs p))"

section \<open>The meaning of a pattern\<close>

text \<open>
  \<open>seg_match\<close> says which segment lists a pattern denotes: a literal stands for itself,
  \<^verbatim>\<open>*\<close> for any one segment, \<^verbatim>\<open>**\<close> for any list of segments.
\<close>

inductive seg_match :: "string list \<Rightarrow> string list \<Rightarrow> bool" where
  sm_nil: "seg_match [] []"
| sm_lit: "p \<noteq> ''*'' \<Longrightarrow> p \<noteq> ''**'' \<Longrightarrow> seg_match ps ts \<Longrightarrow> seg_match (p # ps) (p # ts)"
| sm_one: "seg_match ps ts \<Longrightarrow> seg_match (''*'' # ps) (t # ts)"
| sm_many: "seg_match ps ts \<Longrightarrow> seg_match (''**'' # ps) (us @ ts)"

inductive_cases seg_match_Nil: "seg_match [] ts"
inductive_cases seg_match_Cons: "seg_match (p # ps) ts"

lemma tryFrom_iff: "tryFrom rest xs \<longleftrightarrow> (\<exists>us ts. xs = us @ ts \<and> matchSegments rest ts)"
proof (induction xs)
  case Nil
  then show ?case by simp
next
  case (Cons t ts)
  have "tryFrom rest (t # ts) \<longleftrightarrow> matchSegments rest (t # ts) \<or> tryFrom rest ts" by simp
  also have "\<dots> \<longleftrightarrow> (\<exists>us vs. t # ts = us @ vs \<and> matchSegments rest vs)"
    unfolding Cons.IH by (metis append_Cons append_Nil append_eq_Cons_conv)
  finally show ?case .
qed

declare tryFrom.simps [simp del]

lemma matchSegments_iff: "matchSegments ps ts \<longleftrightarrow> seg_match ps ts"
proof (induction ps arbitrary: ts)
  case Nil
  then show ?case by (auto intro: sm_nil elim: seg_match_Nil)
next
  case (Cons p ps)
  consider (many) "p = ''**''" | (one) "p = ''*''" | (lit) "p \<noteq> ''*''" "p \<noteq> ''**''" by blast
  then show ?case
  proof cases
    case many
    have "matchSegments (p # ps) ts \<longleftrightarrow> (\<exists>us vs. ts = us @ vs \<and> matchSegments ps vs)"
    proof (cases "ps = []")
      case True
      with many show ?thesis by simp
    next
      case False
      with many show ?thesis by (simp add: tryFrom_iff)
    qed
    also have "\<dots> \<longleftrightarrow> seg_match (p # ps) ts"
      using many Cons.IH by (auto intro: sm_many elim!: seg_match_Cons)
    finally show ?thesis .
  next
    case one
    then show ?thesis
      using Cons.IH by (cases ts) (auto intro: sm_one elim!: seg_match_Cons)
  next
    case lit
    then show ?thesis
      using Cons.IH by (cases ts) (auto intro: sm_lit elim!: seg_match_Cons)
  qed
qed

lemma seg_match_literal_prefix:
  "seg_match ps ts \<Longrightarrow> \<exists>us. ts = literal_segs ps @ us"
proof (induction rule: seg_match.induct)
  case sm_nil
  then show ?case by (simp add: literal_segs_def)
next
  case (sm_lit p ps ts)
  then show ?case by (simp add: literal_segs_def)
qed (simp_all add: literal_segs_def)

text \<open>
  SQL \<^verbatim>\<open>type = prefix OR type LIKE prefix.%\<close>. The argument of \<^verbatim>\<open>LIKE\<close> is not escaped, so an
  underscore in the prefix stands for any one character; \<open>like_prefix\<close> is that comparison.
\<close>

definition like_char :: "char \<Rightarrow> char \<Rightarrow> bool" where
  "like_char c p \<longleftrightarrow> p = CHR ''_'' \<or> lower_char c = lower_char p"

definition like_prefix :: "string \<Rightarrow> string \<Rightarrow> bool" where
  \<comment> \<open>\<open>s LIKE p || '%'\<close> for a \<open>p\<close> without \<^verbatim>\<open>%\<close>\<close>
  "like_prefix s p \<longleftrightarrow> length p \<le> length s \<and> list_all2 like_char (take (length p) s) p"

definition sql_prefix_cond :: "string \<Rightarrow> string \<Rightarrow> bool" where
  "sql_prefix_cond prefix typ \<longleftrightarrow> typ = prefix \<or> like_prefix typ (prefix @ ''.'')"

lemma like_prefix_append: "like_prefix (p @ s) p"
  by (simp add: like_prefix_def list_all2_conv_all_nth like_char_def)

lemma join_append:
  "xs \<noteq> [] \<Longrightarrow> ys \<noteq> [] \<Longrightarrow> join_with d (xs @ ys) = join_with d xs @ d @ join_with d ys"
proof (induction xs rule: induct_list012)
  case (2 x)
  then show ?case by (cases ys) auto
qed auto

lemma sqlPrefix_necessary:
  assumes "Matches p t" "sqlPrefix p \<noteq> []"
  shows "sql_prefix_cond (sqlPrefix p) t"
proof -
  let ?ls = "literal_segs (segs p)"
  have "seg_match (segs p) (split_on CHR ''.'' t)"
    using assms(1) by (simp add: Matches_def matchSegments_iff)
  then obtain us where us: "split_on CHR ''.'' t = ?ls @ us"
    using seg_match_literal_prefix by blast
  have t: "t = join_with ''.'' (?ls @ us)"
    using join_split[of "CHR ''.''" t] us by simp
  have "?ls \<noteq> []" using assms(2) by (auto simp: sqlPrefix_def)
  show ?thesis
  proof (cases "us = []")
    case True
    then show ?thesis using t by (simp add: sql_prefix_cond_def sqlPrefix_def)
  next
    case False
    with \<open>?ls \<noteq> []\<close> t have "t = (sqlPrefix p @ ''.'') @ join_with ''.'' us"
      by (simp add: join_append sqlPrefix_def)
    then show ?thesis unfolding sql_prefix_cond_def by (metis like_prefix_append)
  qed
qed

section \<open>The grammar of event types\<close>

text \<open>\<^verbatim>\<open>^[a-z][a-z0-9_]*(\.[a-z][a-z0-9_]*)+$\<close>, as the comment of \<^verbatim>\<open>validateType\<close> states it.\<close>

inductive type_grammar :: "string \<Rightarrow> bool" where
  tg_two: "validSegment a \<Longrightarrow> validSegment b \<Longrightarrow> type_grammar (a @ ''.'' @ b)"
| tg_more: "validSegment a \<Longrightarrow> type_grammar t \<Longrightarrow> type_grammar (a @ ''.'' @ t)"

lemma validSegment_no_dot: "validSegment s \<Longrightarrow> CHR ''.'' \<notin> set s"
  by (auto simp: validSegment_def list_all_iff seg_char_def is_lower_def is_digit_def
      less_eq_char_def split: list.splits)

lemma type_grammar_split:
  "type_grammar t \<Longrightarrow>
   2 \<le> length (split_on CHR ''.'' t) \<and> list_all validSegment (split_on CHR ''.'' t)"
  by (induction rule: type_grammar.induct)
    (auto simp: split_on_append split_on_single validSegment_no_dot)

lemma split_type_grammar:
  "2 \<le> length ss \<Longrightarrow> list_all validSegment ss \<Longrightarrow> type_grammar (join_with ''.'' ss)"
proof (induction ss rule: induct_list012)
  case (3 a b ss)
  show ?case
  proof (cases ss)
    case Nil
    with 3 show ?thesis using tg_two[of a b] by simp
  next
    case (Cons c cs)
    with 3 have "type_grammar (join_with ''.'' (b # ss))" by simp
    with 3 show ?thesis using tg_more[of a "join_with ''.'' (b # ss)"] by simp
  qed
qed auto

lemma validateType_iff: "validateType t = Inr () \<longleftrightarrow> type_grammar t"
proof
  assume "validateType t = Inr ()"
  then have "type_grammar (join_with ''.'' (split_on CHR ''.'' t))"
    by (intro split_type_grammar) (auto simp: validateType_def Let_def split: if_splits)
  then show "type_grammar t" by simp
next
  assume "type_grammar t"
  then show "validateType t = Inr ()"
    using type_grammar_split[of t] by (simp add: validateType_def Let_def)
qed

section \<open>Properties\<close>

text \<open>
  \<^verbatim>\<open>validateType\<close> accepts exactly the event types of the documented grammar: at least two
  segments, each a lower-case letter followed by lower-case letters, digits and underscores.
\<close>

theorem validateType_grammar: "validateType t = Inr () \<longleftrightarrow> type_grammar t"
  by (rule validateType_iff)

text \<open>
  C30. Pattern matching: the recursive matcher agrees with the declarative meaning of a pattern
  (a literal segment matches itself, a star one segment, two stars any number of segments), and the
  prefix that \<^verbatim>\<open>sqlPrefix\<close> hands to SQL keeps every type the pattern matches.
\<close>

theorem pattern_meaning:
  "(Matches p t \<longleftrightarrow> seg_match (segs p) (split_on CHR ''.'' t)) \<and>
   (Matches p t \<and> sqlPrefix p \<noteq> [] \<longrightarrow> sql_prefix_cond (sqlPrefix p) t)"
  using sqlPrefix_necessary by (simp add: Matches_def matchSegments_iff)

theorem pattern_meaning_witness:
  "Matches \<lparr>raw = ''a.*'', segs = [''a'', ''*'']\<rparr> ''a.b'' \<and> sql_prefix_cond ''a'' ''a.b''"
proof -
  let ?p = "\<lparr>raw = ''a.*'', segs = [''a'', ''*'']\<rparr>"
  have "Matches ?p ''a.b''" "sqlPrefix ?p = ''a''" by code_simp+
  then show ?thesis using pattern_meaning[of ?p "''a.b''"] by simp
qed

end
