(* ===== verification/Events_Log.thy ===== *)
theory Events_Log
  imports Storage_Tx Events_Pattern
begin

text \<open>
  \<^verbatim>\<open>internal/core/events/log.go\<close> and \<^verbatim>\<open>retention.go\<close>: the persisted event log. The record
  \<open>event_db\<close> holds the tables of the events module; the modules above extend it, so that one
  transaction can write their rows and publish, as it does in the one SQLite database.

  The locale \<open>event_bus\<close> is the contract of \<^verbatim>\<open>Bus.PublishTx\<close> that policy, jobs and
  notifications rely on; it is interpreted on \<open>PublishTx\<close> below.
\<close>

section \<open>Payloads\<close>

datatype json =
    JNull | JBool bool | JNum int | JStr string
  | JArr "json list" | JObj "(string \<times> json) list"

definition hex_digit :: "nat \<Rightarrow> char" where
  "hex_digit n = (if n < 10 then char_of (48 + n) else char_of (87 + n))"

definition json_esc :: "char \<Rightarrow> string" where
  \<comment> \<open>\<^verbatim>\<open>encoding/json\<close> string escaping, with HTML characters escaped as \<^verbatim>\<open>Marshal\<close> does\<close>
  "json_esc c =
     (if c = CHR 0x22 then [CHR 0x5C, CHR 0x22]
      else if c = CHR 0x5C then [CHR 0x5C, CHR 0x5C]
      else if c = CHR 0x0A then [CHR 0x5C, CHR ''n'']
      else if c = CHR 0x0D then [CHR 0x5C, CHR ''r'']
      else if c = CHR 0x09 then [CHR 0x5C, CHR ''t'']
      else if c = CHR 0x08 then [CHR 0x5C, CHR ''b'']
      else if c = CHR 0x0C then [CHR 0x5C, CHR ''f'']
      else if of_char c < (32 :: nat) \<or> c \<in> {CHR ''<'', CHR ''>'', CHR ''&''}
        then [CHR 0x5C, CHR ''u'', CHR ''0'', CHR ''0'',
              hex_digit (of_char c div 16), hex_digit (of_char c mod 16)]
      else [c])"

definition json_quote :: "string \<Rightarrow> string" where
  "json_quote s = CHR 0x22 # concat (map json_esc s) @ [CHR 0x22]"

fun json_marshal :: "json \<Rightarrow> string" where
  "json_marshal JNull = ''null''"
| "json_marshal (JBool b) = (if b then ''true'' else ''false'')"
| "json_marshal (JNum n) = show_int n"
| "json_marshal (JStr s) = json_quote s"
| "json_marshal (JArr xs) = ''['' @ join_with '','' (map json_marshal xs) @ '']''"
| "json_marshal (JObj kvs) =
     ''{'' @ join_with '',''
        (map (\<lambda>(k, v). json_quote k @ '':'' @ v)
           (sort_key fst (map (\<lambda>(k, v). (k, json_marshal v)) kvs))) @ ''}''"

section \<open>The tables\<close>

record event =
  ev_id :: int
  ev_type :: string
  ev_source :: string
  ev_subject :: string
  ev_payload :: string
  ev_created :: string

datatype cursor_state = CursorActive | CursorPaused

record cursor_row =
  cu_subscriber :: string
  cu_pattern :: string
  cu_last :: int
  cu_state :: cursor_state
  cu_failed :: int
  cu_attempts :: int
  cu_retry_at :: "string option"
  cu_last_error :: string
  cu_lease_owner :: string
  cu_lease_until :: "string option"
  cu_updated :: string

record event_db =
  ev_rows :: "event list"
  ev_seq :: int \<comment> \<open>the \<^verbatim>\<open>AUTOINCREMENT\<close> counter of \<^verbatim>\<open>core_events\<close>\<close>
  ev_cursors :: "cursor_row list"
  ev_oldest :: int \<comment> \<open>\<^verbatim>\<open>core_event_retention.oldest_retained_id\<close>\<close>
  ev_last_run :: "string option"

definition empty_event_db :: event_db where
  "empty_event_db = \<lparr>ev_rows = [], ev_seq = 0, ev_cursors = [], ev_oldest = 1, ev_last_run = None\<rparr>"

section \<open>Publishing\<close>

datatype payload = NoPayload | Payload json | Unmarshalable

record input =
  in_type :: string
  in_source :: string
  in_subject :: string
  in_payload :: payload

definition MaxPayloadBytes :: int where "MaxPayloadBytes = 262144"

definition prepare :: "input \<Rightarrow> events_error + string" where
  "prepare i =
     (case validateType (in_type i) of
        Inl e \<Rightarrow> Inl e
      | Inr _ \<Rightarrow>
          (case validateSource (in_source i) (in_type i) of
             Inl e \<Rightarrow> Inl e
           | Inr _ \<Rightarrow>
               (case in_payload i of
                  Unmarshalable \<Rightarrow> Inl ErrMarshal
                | NoPayload \<Rightarrow> Inr ''null''
                | Payload j \<Rightarrow>
                    (let b = json_marshal j in
                     if MaxPayloadBytes < int (length b) then Inl ErrPayloadTooBig else Inr b))))"

definition PublishTx ::
  "time \<Rightarrow> input \<Rightarrow> 'a event_db_scheme \<Rightarrow> (events_error + int) \<times> 'a event_db_scheme" where
  "PublishTx now i d =
     (case prepare i of
        Inl e \<Rightarrow> (Inl e, d)
      | Inr b \<Rightarrow>
          (let n = ev_seq d + 1 in
           (Inr n, d\<lparr>ev_seq := n,
                     ev_rows := ev_rows d @ [\<lparr>ev_id = n, ev_type = in_type i, ev_source = in_source i,
                       ev_subject = in_subject i, ev_payload = b, ev_created = rfc now\<rparr>]\<rparr>)))"

definition Publish ::
  "time \<Rightarrow> input \<Rightarrow> 'a event_db_scheme \<Rightarrow> (events_error + int) \<times> 'a event_db_scheme" where
  "Publish now i = run_tx (PublishTx now i)"

section \<open>Reading\<close>

record query =
  q_pattern :: string
  q_after :: int
  q_limit :: int

fun query_loop :: "pattern \<Rightarrow> nat \<Rightarrow> event list \<Rightarrow> event list \<Rightarrow> event list" where
  \<comment> \<open>\<^verbatim>\<open>for rows.Next() && len(out) < q.Limit\<close>\<close>
  "query_loop p limit out [] = out"
| "query_loop p limit out (e # rows) =
     (if length out < limit
      then query_loop p limit (if Matches p (ev_type e) then out @ [e] else out) rows
      else out)"

definition norm_limit :: "int \<Rightarrow> int" where
  "norm_limit n = (if n \<le> 0 \<or> 1000 < n then 100 else n)"

definition query_candidates :: "pattern \<Rightarrow> int \<Rightarrow> 'a event_db_scheme \<Rightarrow> event list" where
  \<comment> \<open>the rows the SQL statement selects, before its \<^verbatim>\<open>LIMIT\<close>\<close>
  "query_candidates p after d =
     sort_key ev_id (filter (\<lambda>e. after < ev_id e \<and>
       (sqlPrefix p \<noteq> [] \<longrightarrow> sql_prefix_cond (sqlPrefix p) (ev_type e))) (ev_rows d))"

definition Query :: "query \<Rightarrow> 'a event_db_scheme \<Rightarrow> events_error + event list" where
  "Query q d =
     (let limit = norm_limit (q_limit q);
          pat = (if q_pattern q = [] then ''**'' else q_pattern q)
      in case CompilePattern pat of
           Inl e \<Rightarrow> Inl e
         | Inr p \<Rightarrow> Inr (query_loop p (nat limit) []
                     (take (nat (limit * 4)) (query_candidates p (q_after q) d))))"

definition Tail :: "'a event_db_scheme \<Rightarrow> int" where
  \<comment> \<open>\<^verbatim>\<open>SELECT coalesce(max(id), 0)\<close>; \<^verbatim>\<open>TailTx\<close> is the same read in a transaction\<close>
  "Tail d = (if ev_rows d = [] then 0 else Max (ev_id ` set (ev_rows d)))"

definition readAfter :: "int \<Rightarrow> nat \<Rightarrow> 'a event_db_scheme \<Rightarrow> event list" where
  "readAfter n limit d = take limit (sort_key ev_id (filter (\<lambda>e. n < ev_id e) (ev_rows d)))"

section \<open>Retention\<close>

record retention_report =
  rr_deleted :: nat
  rr_oldest :: int
  rr_pinned_by :: string
  rr_pinned_rows :: nat

fun pin_loop :: "int \<times> string \<Rightarrow> cursor_row list \<Rightarrow> int \<times> string" where
  "pin_loop acc [] = acc"
| "pin_loop (pin, by_name) (c # cs) =
     (if pin < 0 \<or> cu_last c < pin then pin_loop (cu_last c, cu_subscriber c) cs
      else pin_loop (pin, by_name) cs)"

definition retention_pin :: "cursor_row list \<Rightarrow> int \<times> string" where
  "retention_pin cs =
     (let (pin, by_name) = pin_loop (-1, []) cs in if pin < 0 then (2 ^ 62, []) else (pin, by_name))"

definition expired_rows :: "string \<Rightarrow> int \<Rightarrow> event \<Rightarrow> bool" where
  "expired_rows cutoff pin e \<longleftrightarrow> ev_created e < cutoff \<and> ev_id e \<le> pin"

definition max_id :: "event list \<Rightarrow> int" where
  "max_id es = (if es = [] then 0 else Max (ev_id ` set es))"

definition RunRetention ::
  "time \<Rightarrow> duration \<Rightarrow> 'a event_db_scheme \<Rightarrow> retention_report \<times> 'a event_db_scheme" where
  "RunRetention now retention d =
     (let cutoff = rfc (now - retention);
          (pin, pinnedBy) = retention_pin (ev_cursors d);
          gone = filter (expired_rows cutoff pin) (ev_rows d);
          deletedThrough = max_id gone;
          rows = sql_delete (expired_rows cutoff pin) (ev_rows d);
          pinned = (if pinnedBy = [] then 0
                    else sql_count (\<lambda>e. ev_created e < cutoff \<and> pin < ev_id e) rows);
          boundary = max (ev_oldest d) (deletedThrough + 1)
      in (\<lparr>rr_deleted = length gone, rr_oldest = boundary,
           rr_pinned_by = (if 0 < pinned then pinnedBy else []), rr_pinned_rows = pinned\<rparr>,
          d\<lparr>ev_rows := rows, ev_oldest := boundary, ev_last_run := Some (rfc now)\<rparr>))"

section \<open>The log invariant\<close>

definition log_ok :: "'a event_db_scheme \<Rightarrow> bool" where
  "log_ok d \<longleftrightarrow> sorted_wrt (<) (map ev_id (ev_rows d)) \<and>
     (\<forall>e \<in> set (ev_rows d). 0 < ev_id e \<and> ev_id e \<le> ev_seq d) \<and> 0 \<le> ev_seq d"

lemma log_ok_empty: "log_ok empty_event_db"
  by (simp add: log_ok_def empty_event_db_def)

lemma PublishTx_log_ok: "log_ok d \<Longrightarrow> log_ok (snd (PublishTx now i d))"
  by (force simp: log_ok_def PublishTx_def Let_def sorted_wrt_append split: sum.splits)

lemma sorted_ids_filter:
  "sorted_wrt (<) (map ev_id es) \<Longrightarrow> sorted_wrt (<) (map ev_id (filter P es))"
  by (induction es) auto

lemma sort_sorted_ids: "sorted_wrt (<) (map ev_id es) \<Longrightarrow> sort_key ev_id es = es"
  by (simp add: sort_key_id_if_sorted strict_sorted_imp_sorted)

lemma RunRetention_log_ok: "log_ok d \<Longrightarrow> log_ok (snd (RunRetention now r d))"
  by (auto simp: log_ok_def RunRetention_def Let_def sql_delete_def sorted_ids_filter
      split: prod.splits)

section \<open>The bus contract\<close>

locale event_bus =
  fixes publish :: "time \<Rightarrow> input \<Rightarrow> 'd \<Rightarrow> (events_error + int) \<times> 'd"
    and log_of :: "'d \<Rightarrow> event list"
    and sane :: "'d \<Rightarrow> bool"
  assumes publish_error: "publish now i d = (Inl e, d') \<Longrightarrow> d' = d"
    and publish_appends: "publish now i d = (Inr n, d') \<Longrightarrow>
      \<exists>e. log_of d' = log_of d @ [e] \<and> ev_id e = n \<and> ev_type e = in_type i \<and>
          ev_source e = in_source i \<and> ev_subject e = in_subject i \<and> ev_created e = rfc now"
    and publish_sane: "sane d \<Longrightarrow> sane (snd (publish now i d))"
    and sane_ids: "sane d \<Longrightarrow> distinct (map ev_id (log_of d))"
begin

lemma publish_extends: "\<exists>es. log_of (snd (publish now i d)) = log_of d @ es"
proof (cases "publish now i d")
  case (Pair r d')
  then show ?thesis
  proof (cases r)
    case (Inl e)
    with Pair publish_error[of now i d e d'] show ?thesis by simp
  next
    case (Inr n)
    with Pair publish_appends[of now i d n d'] show ?thesis by auto
  qed
qed

lemma publish_fresh:
  assumes "sane d" "publish now i d = (Inr n, d')"
  shows "n \<notin> ev_id ` set (log_of d)"
proof -
  obtain e where e: "log_of d' = log_of d @ [e]" "ev_id e = n"
    using publish_appends[OF assms(2)] by blast
  have "sane d'" using publish_sane[OF assms(1), of now i] assms(2) by simp
  then have "distinct (map ev_id (log_of d @ [e]))" using sane_ids e by fastforce
  with e(2) show ?thesis by auto
qed

lemma publish_keeps_rows: "set (log_of d) \<subseteq> set (log_of (snd (publish now i d)))"
  using publish_extends[of now i d] by auto

end

lemma strict_sorted_ids: "sorted_wrt (<) (map ev_id es) \<Longrightarrow> distinct (map ev_id es)"
  using strict_sorted_iff[of "map ev_id es"] by simp

interpretation bus: event_bus PublishTx ev_rows log_ok
proof
  fix now i e n
  fix d d' :: "'a event_db_scheme"
  show "PublishTx now i d = (Inl e, d') \<Longrightarrow> d' = d"
    by (auto simp: PublishTx_def Let_def split: sum.splits)
  show "PublishTx now i d = (Inr n, d') \<Longrightarrow>
      \<exists>e. ev_rows d' = ev_rows d @ [e] \<and> ev_id e = n \<and> ev_type e = in_type i \<and>
          ev_source e = in_source i \<and> ev_subject e = in_subject i \<and> ev_created e = rfc now"
    by (auto simp: PublishTx_def Let_def split: sum.splits)
  show "log_ok d \<Longrightarrow> log_ok (snd (PublishTx now i d))" by (rule PublishTx_log_ok)
  show "log_ok d \<Longrightarrow> distinct (map ev_id (ev_rows d))"
    by (simp add: log_ok_def strict_sorted_ids)
qed

text \<open>Publishing changes the log and its counter only.\<close>

lemma PublishTx_frame [simp]:
  "ev_cursors (snd (PublishTx now i d)) = ev_cursors d"
  "ev_oldest (snd (PublishTx now i d)) = ev_oldest d"
  "event_db.more (snd (PublishTx now i d)) = event_db.more d"
  by (simp_all add: PublishTx_def Let_def split: sum.splits)

section \<open>What a query returns\<close>

lemma query_loop_eq:
  "query_loop p limit out rows =
     out @ take (limit - length out) (filter (\<lambda>e. Matches p (ev_type e)) rows)"
  by (induction rows arbitrary: out) (auto simp: Suc_diff_Suc take_Cons')

lemma query_candidates_sorted:
  "log_ok d \<Longrightarrow> query_candidates p after d =
     filter (\<lambda>e. after < ev_id e \<and>
       (sqlPrefix p \<noteq> [] \<longrightarrow> sql_prefix_cond (sqlPrefix p) (ev_type e))) (ev_rows d)"
  by (simp add: query_candidates_def log_ok_def sort_sorted_ids sorted_ids_filter)

lemma candidates_matching:
  "log_ok d \<Longrightarrow> filter (\<lambda>e. Matches p (ev_type e)) (query_candidates p after d) =
     filter (\<lambda>e. after < ev_id e \<and> Matches p (ev_type e)) (ev_rows d)"
  by (auto simp: query_candidates_sorted intro!: filter_cong dest: sqlPrefix_necessary)

lemma Query_unfold:
  assumes "log_ok d" "CompilePattern (if q_pattern q = [] then ''**'' else q_pattern q) = Inr p"
  shows "Query q d = Inr (take (nat (norm_limit (q_limit q)))
    (filter (\<lambda>e. Matches p (ev_type e))
      (take (nat (norm_limit (q_limit q) * 4)) (query_candidates p (q_after q) d))))"
  using assms by (simp add: Query_def query_loop_eq Let_def)

lemma norm_limit_bounds: "1 \<le> norm_limit n" "norm_limit n \<le> 1000"
  by (auto simp: norm_limit_def)

lemma sorted_ids_take: "sorted_wrt (<) (map ev_id es) \<Longrightarrow> sorted_wrt (<) (map ev_id (take n es))"
  by (metis append_take_drop_id map_append sorted_wrt_append)

lemma Query_result_sound:
  assumes "log_ok d" "Query q d = Inr es"
  shows "sorted_wrt (<) (map ev_id es)" "length es \<le> nat (norm_limit (q_limit q))"
    "\<forall>e \<in> set es. e \<in> set (ev_rows d) \<and> q_after q < ev_id e"
proof -
  obtain p where p: "CompilePattern (if q_pattern q = [] then ''**'' else q_pattern q) = Inr p"
    using assms(2) by (auto simp: Query_def Let_def split: sum.splits)
  let ?c = "query_candidates p (q_after q) d"
  let ?n = "nat (norm_limit (q_limit q))" and ?m = "nat (norm_limit (q_limit q) * 4)"
  have es: "es = take ?n (filter (\<lambda>e. Matches p (ev_type e)) (take ?m ?c))"
    using Query_unfold[OF assms(1) p] assms(2) by simp
  have "sorted_wrt (<) (map ev_id ?c)"
    using assms(1) by (simp add: query_candidates_sorted log_ok_def sorted_ids_filter)
  then show "sorted_wrt (<) (map ev_id es)"
    unfolding es by (intro sorted_ids_take sorted_ids_filter)
  show "length es \<le> ?n" by (simp add: es)
  have "set es \<subseteq> set ?c"
    unfolding es by (meson filter_is_subset set_take_subset subset_trans)
  then show "\<forall>e \<in> set es. e \<in> set (ev_rows d) \<and> q_after q < ev_id e"
    using assms(1) by (auto simp: query_candidates_sorted)
qed

lemma Query_complete_in_window:
  assumes "log_ok d" "CompilePattern (if q_pattern q = [] then ''**'' else q_pattern q) = Inr p"
    and "length (query_candidates p (q_after q) d) \<le> nat (norm_limit (q_limit q) * 4)"
  shows "Query q d = Inr (take (nat (norm_limit (q_limit q)))
    (filter (\<lambda>e. q_after q < ev_id e \<and> Matches p (ev_type e)) (ev_rows d)))"
  using assms by (simp add: Query_unfold candidates_matching)

lemma Matches_all: "Matches \<lparr>raw = ''**'', segs = [''**'']\<rparr> t"
  by (simp add: Matches_def)

lemma compile_all: "CompilePattern ''**'' = Inr \<lparr>raw = ''**'', segs = [''**'']\<rparr>"
  by (simp add: CompilePattern_def Let_def)

lemma Query_all:
  assumes "log_ok d" "q_pattern q = ''**''"
  shows "Query q d = Inr (take (nat (norm_limit (q_limit q)))
    (filter (\<lambda>e. q_after q < ev_id e) (ev_rows d)))"
proof -
  let ?p = "\<lparr>raw = ''**'', segs = [''**'']\<rparr>"
  have c: "query_candidates ?p (q_after q) d = filter (\<lambda>e. q_after q < ev_id e) (ev_rows d)"
    by (simp add: query_candidates_sorted assms(1) sqlPrefix_def literal_segs_def)
  have "nat (norm_limit (q_limit q)) \<le> nat (norm_limit (q_limit q) * 4)"
    using norm_limit_bounds(1)[of "q_limit q"] by simp
  then show ?thesis
    using assms compile_all by (simp add: Query_unfold c Matches_all min.absorb1)
qed

section \<open>What retention may delete\<close>

lemma pin_loop_min:
  "0 \<le> pin \<Longrightarrow> \<forall>c \<in> set cs. 0 \<le> cu_last c \<Longrightarrow>
   0 \<le> fst (pin_loop (pin, b) cs) \<and> fst (pin_loop (pin, b) cs) \<le> pin \<and>
   (\<forall>c \<in> set cs. fst (pin_loop (pin, b) cs) \<le> cu_last c)"
proof (induction cs arbitrary: pin b)
  case Nil
  then show ?case by simp
next
  case (Cons c cs)
  have nn: "0 \<le> cu_last c" "\<forall>c \<in> set cs. 0 \<le> cu_last c" using Cons.prems by simp_all
  show ?case
    using Cons.IH[OF nn(1) nn(2), of "cu_subscriber c"] Cons.IH[OF Cons.prems(1) nn(2), of b]
      Cons.prems(1) by auto
qed

lemma retention_pin_le:
  assumes "\<forall>c \<in> set cs. 0 \<le> cu_last c" "c \<in> set cs"
  shows "fst (retention_pin cs) \<le> cu_last c"
proof -
  obtain c0 cs' where cs: "cs = c0 # cs'" using assms(2) by (cases cs) auto
  have "0 \<le> cu_last c0" using assms(1) cs by simp
  then have "0 \<le> fst (pin_loop (cu_last c0, cu_subscriber c0) cs') \<and>
      fst (pin_loop (cu_last c0, cu_subscriber c0) cs') \<le> cu_last c"
    using pin_loop_min[of "cu_last c0" cs' "cu_subscriber c0"] assms cs by auto
  then show ?thesis
    by (auto simp: retention_pin_def cs split: prod.splits)
qed

lemma RunRetention_rows:
  "ev_rows (snd (RunRetention now r d)) =
   filter (\<lambda>e. \<not> (ev_created e < rfc (now - r) \<and> ev_id e \<le> fst (retention_pin (ev_cursors d))))
     (ev_rows d)"
  by (simp add: RunRetention_def Let_def sql_delete_def expired_rows_def split: prod.splits)

lemma RunRetention_frame [simp]:
  "ev_cursors (snd (RunRetention now r d)) = ev_cursors d"
  "ev_seq (snd (RunRetention now r d)) = ev_seq d"
  by (simp_all add: RunRetention_def Let_def split: prod.splits)

lemma RunRetention_boundary:
  assumes "e \<in> set (ev_rows d)" "e \<notin> set (ev_rows (snd (RunRetention now r d)))"
  shows "ev_id e < ev_oldest (snd (RunRetention now r d))"
proof -
  let ?g = "filter (expired_rows (rfc (now - r)) (fst (retention_pin (ev_cursors d)))) (ev_rows d)"
  have "e \<in> set ?g" using assms by (auto simp: RunRetention_rows expired_rows_def)
  then have "ev_id e \<le> max_id ?g" by (auto simp: max_id_def filter_empty_conv)
  moreover have "max_id ?g + 1 \<le> ev_oldest (snd (RunRetention now r d))"
    by (simp add: RunRetention_def Let_def split: prod.splits)
  ultimately show ?thesis by linarith
qed

lemma RunRetention_oldest_mono: "ev_oldest d \<le> ev_oldest (snd (RunRetention now r d))"
  by (simp add: RunRetention_def Let_def split: prod.splits)

section \<open>Properties\<close>

text \<open>
  C29. What \<^verbatim>\<open>Query\<close> returns: rows of the log after the cursor, in order, without
  repetition, at most the limit; and when the rows the SQL statement selects fit in its window of
  four times the limit, exactly the first matching ones.
\<close>

theorem query_correct:
  assumes "log_ok d" "CompilePattern (if q_pattern q = [] then ''**'' else q_pattern q) = Inr p"
  shows "\<exists>es. Query q d = Inr es \<and> sorted_wrt (<) (map ev_id es) \<and>
    length es \<le> nat (norm_limit (q_limit q)) \<and>
    (\<forall>e \<in> set es. e \<in> set (ev_rows d) \<and> q_after q < ev_id e \<and> Matches p (ev_type e)) \<and>
    (length (query_candidates p (q_after q) d) \<le> nat (norm_limit (q_limit q) * 4) \<longrightarrow>
      es = take (nat (norm_limit (q_limit q)))
        (filter (\<lambda>e. q_after q < ev_id e \<and> Matches p (ev_type e)) (ev_rows d)))"
proof -
  obtain es where es: "Query q d = Inr es" using Query_unfold[OF assms] by blast
  have "es = take (nat (norm_limit (q_limit q))) (filter (\<lambda>e. Matches p (ev_type e))
      (take (nat (norm_limit (q_limit q) * 4)) (query_candidates p (q_after q) d)))"
    using Query_unfold[OF assms] es by simp
  then have m: "\<forall>e \<in> set es. Matches p (ev_type e)" by (auto dest: in_set_takeD)
  note s = Query_result_sound[OF assms(1) es]
  show ?thesis
  proof (intro exI[of _ es] conjI impI)
    assume "length (query_candidates p (q_after q) d) \<le> nat (norm_limit (q_limit q) * 4)"
    from Query_complete_in_window[OF assms this] es
    show "es = take (nat (norm_limit (q_limit q)))
        (filter (\<lambda>e. q_after q < ev_id e \<and> Matches p (ev_type e)) (ev_rows d))" by simp
  qed (use es s m in blast)+
qed

theorem query_correct_witness:
  "\<exists>es. Query \<lparr>q_pattern = ''**'', q_after = 0, q_limit = 5\<rparr>
      (snd (PublishTx 0 \<lparr>in_type = ''core.a'', in_source = ''core.x'', in_subject = [], in_payload = NoPayload\<rparr>
        empty_event_db)) = Inr es \<and> sorted_wrt (<) (map ev_id es) \<and> length es = 1"
  (is "\<exists>es. Query ?q ?d = _ \<and> _")
proof -
  have "length (ev_rows ?d) = 1" "log_ok ?d" by code_simp+
  moreover have "length (case Query ?q ?d of Inr es \<Rightarrow> es | Inl _ \<Rightarrow> []) = 1" by code_simp
  moreover obtain es where "Query ?q ?d = Inr es" "sorted_wrt (<) (map ev_id es)"
    using query_correct[of ?d ?q "\<lparr>raw = ''**'', segs = [''**'']\<rparr>"] compile_all calculation(2) by auto
  ultimately show ?thesis by simp
qed

definition noise :: "nat \<Rightarrow> event list" where
  "noise n = map (\<lambda>i. \<lparr>ev_id = int i + 1, ev_type = ''core.a'', ev_source = ''core'', ev_subject = [],
     ev_payload = ''null'', ev_created = []\<rparr>) [0..<n]"

text \<open>
  The window can hide matches: with a star before a literal segment the SQL
  statement cannot filter, and a page can come back empty although a matching event follows.
\<close>

lemma query_window_hides:
  "\<exists>d :: event_db. log_ok d \<and> Query \<lparr>q_pattern = ''*.b'', q_after = 0, q_limit = 1\<rparr> d = Inr [] \<and>
     (\<exists>e \<in> set (ev_rows d). Matches \<lparr>raw = ''*.b'', segs = [''*'', ''b'']\<rparr> (ev_type e))"
proof -
  let ?d = "empty_event_db\<lparr>ev_seq := 5, ev_rows := noise 4 @ [\<lparr>ev_id = 5, ev_type = ''core.b'', ev_source = ''core'',
     ev_subject = [], ev_payload = ''null'', ev_created = []\<rparr>]\<rparr>"
  have "log_ok ?d" "Query \<lparr>q_pattern = ''*.b'', q_after = 0, q_limit = 1\<rparr> ?d = Inr []"
    "\<exists>e \<in> set (ev_rows ?d). Matches \<lparr>raw = ''*.b'', segs = [''*'', ''b'']\<rparr> (ev_type e)"
    by code_simp+
  then show ?thesis by blast
qed

text \<open>
  C28. Retention never deletes an event that some durable subscriber has not passed, only deletes
  rows older than the cut-off, keeps the cursors, and moves the published boundary above
  everything it deleted and never back.
\<close>

theorem retention_safe:
  assumes "\<forall>c \<in> set (ev_cursors d). 0 \<le> cu_last c" "RunRetention now keep d = (rep, d')"
  shows "(\<forall>c \<in> set (ev_cursors d). \<forall>e \<in> set (ev_rows d). cu_last c < ev_id e \<longrightarrow> e \<in> set (ev_rows d')) \<and>
    (\<forall>e \<in> set (ev_rows d). e \<notin> set (ev_rows d') \<longrightarrow>
       ev_created e < rfc (now - keep) \<and> ev_id e < ev_oldest d') \<and>
    ev_cursors d' = ev_cursors d \<and> ev_oldest d \<le> ev_oldest d' \<and> (log_ok d \<longrightarrow> log_ok d')"
proof -
  have d': "d' = snd (RunRetention now keep d)" using assms(2) by simp
  have "e \<in> set (ev_rows d')" if "c \<in> set (ev_cursors d)" "e \<in> set (ev_rows d)" "cu_last c < ev_id e" for c e
    using retention_pin_le[OF assms(1) that(1)] that by (simp add: d' RunRetention_rows)
  moreover have "ev_created e < rfc (now - keep) \<and> ev_id e < ev_oldest d'"
    if "e \<in> set (ev_rows d)" "e \<notin> set (ev_rows d')" for e
    using that RunRetention_boundary[of e d now keep] by (auto simp: d' RunRetention_rows)
  ultimately show ?thesis
    using RunRetention_oldest_mono[of d now keep] RunRetention_log_ok[of d now keep] by (auto simp: d')
qed

theorem retention_safe_witness:
  "set (noise 3) \<subseteq> set (ev_rows (snd (RunRetention 0 0
      (empty_event_db\<lparr>ev_seq := 3, ev_rows := noise 3, ev_cursors :=
        [\<lparr>cu_subscriber = ''s'', cu_pattern = ''**'', cu_last = 0, cu_state = CursorActive, cu_failed = 0,
          cu_attempts = 0, cu_retry_at = None, cu_last_error = [], cu_lease_owner = [],
          cu_lease_until = None, cu_updated = []\<rparr>]\<rparr>))))" (is "_ \<subseteq> set (ev_rows (snd (RunRetention 0 0 ?d)))")
  using retention_safe[of ?d 0 0 "fst (RunRetention 0 0 ?d)" "snd (RunRetention 0 0 ?d)"]
  by (auto simp: noise_def)

end
