(* ===== verification/Events_Durable.thy ===== *)
theory Events_Durable
  imports Events_Log
begin

text \<open>
  \<^verbatim>\<open>internal/core/events/durable.go\<close> and the retry policy of \<^verbatim>\<open>events.go\<close>: durable
  subscribers. A subscriber has a persisted cursor; one \<^verbatim>\<open>step\<close> of its loop takes the
  dispatch lease, skips non-matching rows or hands the next matching row to the handler,
  and advances the cursor only when the handler succeeded.

  \<open>sub_step\<close> is \<^verbatim>\<open>durableSub.step\<close> with its calls inlined as in the code; besides the new
  database it returns whether the loop should wait and which event was handed to the handler
  and with what result, which is what an observer of the handler sees.
\<close>

section \<open>Retry policy\<close>

record retry_policy =
  rp_max_attempts :: int
  rp_initial :: duration
  rp_maximum :: duration

definition DefaultRetry :: retry_policy where
  "DefaultRetry = \<lparr>rp_max_attempts = 10, rp_initial = seconds 1, rp_maximum = seconds 300\<rparr>"

definition zero_retry :: retry_policy where
  "zero_retry = \<lparr>rp_max_attempts = 0, rp_initial = 0, rp_maximum = 0\<rparr>"

definition retry_validate :: "retry_policy \<Rightarrow> bool" where
  "retry_validate p =
     (if rp_max_attempts p \<le> 0 then False
      else if rp_initial p \<le> 0 \<or> rp_maximum p \<le> 0 then False
      else if rp_maximum p < rp_initial p then False
      else True)"

definition retry_delay :: "retry_policy \<Rightarrow> int \<Rightarrow> duration" where
  "retry_delay p attempt = double_loop (nat (attempt - 1)) (rp_initial p) (rp_maximum p)"

section \<open>Subscribing\<close>

datatype start_mode = StartUnset | FromNow | FromBeginning | AfterEvent | StartOther string

record durable_config =
  dc_name :: string
  dc_pattern :: string
  dc_mode :: start_mode
  dc_event_id :: int
  dc_retry :: retry_policy

definition by_name :: "string \<Rightarrow> cursor_row \<Rightarrow> bool" where
  "by_name n c \<longleftrightarrow> cu_subscriber c = n"

definition ensureCursor ::
  "time \<Rightarrow> durable_config \<Rightarrow> pattern \<Rightarrow> 'a event_db_scheme \<Rightarrow>
   (events_error + unit) \<times> 'a event_db_scheme" where
  "ensureCursor now cfg p = run_tx (\<lambda>d.
     case sql_find (by_name (dc_name cfg)) (ev_cursors d) of
       Some c \<Rightarrow> if cu_pattern c \<noteq> raw p then (Inl ErrPatternChanged, d) else (Inr (), d)
     | None \<Rightarrow>
         (let start =
                (case dc_mode cfg of
                   FromBeginning \<Rightarrow> Inr 0
                 | StartUnset \<Rightarrow> Inr 0
                 | FromNow \<Rightarrow> Inr (Tail d)
                 | AfterEvent \<Rightarrow> if dc_event_id cfg < 0 then Inl ErrBadStart else Inr (dc_event_id cfg)
                 | StartOther _ \<Rightarrow> Inl ErrBadStart)
          in case start of
               Inl e \<Rightarrow> (Inl e, d)
             | Inr n \<Rightarrow>
                 (Inr (), d\<lparr>ev_cursors := ev_cursors d @
                   [\<lparr>cu_subscriber = dc_name cfg, cu_pattern = raw p, cu_last = n,
                     cu_state = CursorActive, cu_failed = 0, cu_attempts = 0, cu_retry_at = None,
                     cu_last_error = [], cu_lease_owner = [], cu_lease_until = None,
                     cu_updated = rfc now\<rparr>]\<rparr>)))"

record durable_sub =
  ds_name :: string
  ds_pattern :: pattern
  ds_retry :: retry_policy

definition subscribeDurable ::
  "time \<Rightarrow> string list \<Rightarrow> durable_config \<Rightarrow> 'a event_db_scheme \<Rightarrow>
   (events_error + durable_sub) \<times> 'a event_db_scheme" where
  \<comment> \<open>the list names the subscribers already running in this process\<close>
  "subscribeDurable now running cfg d =
     (if dc_name cfg = [] then (Inl ErrBadName, d)
      else if \<not> validDurableName (dc_name cfg) then (Inl ErrBadName, d)
      else case CompilePattern (dc_pattern cfg) of
             Inl e \<Rightarrow> (Inl e, d)
           | Inr p \<Rightarrow>
               (let cfg' = (if dc_retry cfg = zero_retry then cfg\<lparr>dc_retry := DefaultRetry\<rparr> else cfg)
                in if \<not> retry_validate (dc_retry cfg') then (Inl ErrBadRetry, d)
                   else case ensureCursor now cfg' p d of
                          (Inl e, d') \<Rightarrow> (Inl e, d')
                        | (Inr _, d') \<Rightarrow>
                            if dc_name cfg' \<in> set running then (Inl ErrAlreadyRunning, d')
                            else (Inr \<lparr>ds_name = dc_name cfg', ds_pattern = p,
                                       ds_retry = dc_retry cfg'\<rparr>, d')))"

section \<open>Leases and the cursor\<close>

definition lease_free :: "string \<Rightarrow> string \<Rightarrow> string \<Rightarrow> cursor_row \<Rightarrow> bool" where
  "lease_free name owner nowStr c \<longleftrightarrow> cu_subscriber c = name \<and>
     (cu_lease_owner c = [] \<or> cu_lease_owner c = owner \<or>
      (case cu_lease_until c of None \<Rightarrow> True | Some u \<Rightarrow> u < nowStr))"

definition acquireLease ::
  "string \<Rightarrow> duration \<Rightarrow> time \<Rightarrow> string \<Rightarrow> 'a event_db_scheme \<Rightarrow> bool \<times> 'a event_db_scheme" where
  "acquireLease owner ttl now name d =
     (let P = lease_free name owner (rfc now) in
      (0 < sql_count P (ev_cursors d),
       d\<lparr>ev_cursors := sql_update P
           (\<lambda>c. c\<lparr>cu_lease_owner := owner, cu_lease_until := Some (rfc (now + ttl)),
                  cu_updated := rfc now\<rparr>) (ev_cursors d)\<rparr>))"

definition releaseLease ::
  "string \<Rightarrow> time \<Rightarrow> string \<Rightarrow> 'a event_db_scheme \<Rightarrow> 'a event_db_scheme" where
  "releaseLease owner now name d =
     d\<lparr>ev_cursors := sql_update (\<lambda>c. cu_subscriber c = name \<and> cu_lease_owner c = owner)
         (\<lambda>c. c\<lparr>cu_lease_owner := [], cu_lease_until := None, cu_updated := rfc now\<rparr>) (ev_cursors d)\<rparr>"

definition advanceTx ::
  "time \<Rightarrow> string \<Rightarrow> int \<Rightarrow> 'a event_db_scheme \<Rightarrow> 'a event_db_scheme" where
  "advanceTx now name n d =
     d\<lparr>ev_cursors := sql_update (by_name name)
         (\<lambda>c. c\<lparr>cu_last := n, cu_attempts := 0, cu_retry_at := None, cu_last_error := [],
                cu_updated := rfc now\<rparr>) (ev_cursors d)\<rparr>"

definition truncate :: "nat \<Rightarrow> string \<Rightarrow> string" where
  "truncate n s = (if length s \<le> n then s else take n s)"

definition paused_event :: "string \<Rightarrow> int \<Rightarrow> int \<Rightarrow> string \<Rightarrow> input" where
  "paused_event name event_id attempts msg =
     \<lparr>in_type = ''core.event.subscription_paused'', in_source = ''core.events'', in_subject = name,
      in_payload = Payload (JObj [(''subscriber'', JStr name), (''eventId'', JNum event_id),
        (''attempts'', JNum attempts), (''lastError'', JStr msg)])\<rparr>"

definition recordFailure ::
  "time \<Rightarrow> durable_sub \<Rightarrow> event \<Rightarrow> string \<Rightarrow> 'a event_db_scheme \<Rightarrow>
   (events_error + unit) \<times> 'a event_db_scheme" where
  "recordFailure now sub e cause = run_tx (\<lambda>d.
     case sql_find (by_name (ds_name sub)) (ev_cursors d) of
       None \<Rightarrow> (Inl ErrEventsSQL, d)
     | Some c \<Rightarrow>
         (let attempts = cu_attempts c + 1; msg = truncate 500 cause in
          if rp_max_attempts (ds_retry sub) \<le> attempts then
            (case PublishTx now (paused_event (ds_name sub) (ev_id e) attempts msg)
                    (d\<lparr>ev_cursors := sql_update (by_name (ds_name sub))
                        (\<lambda>c. c\<lparr>cu_state := CursorPaused, cu_failed := ev_id e, cu_attempts := attempts,
                               cu_retry_at := None, cu_last_error := msg, cu_updated := rfc now\<rparr>)
                        (ev_cursors d)\<rparr>) of
               (Inl err, d') \<Rightarrow> (Inl err, d')
             | (Inr _, d') \<Rightarrow> (Inr (), d'))
          else
            (Inr (), d\<lparr>ev_cursors := sql_update (by_name (ds_name sub))
                (\<lambda>c. c\<lparr>cu_attempts := attempts,
                       cu_retry_at := Some (rfc (now + retry_delay (ds_retry sub) attempts)),
                       cu_last_error := msg, cu_updated := rfc now\<rparr>)
                (ev_cursors d)\<rparr>)))"

section \<open>Dispatch\<close>

datatype 'd handler =
    Plain "event \<Rightarrow> string + unit" \<comment> \<open>\<^verbatim>\<open>SubscribeDurable\<close>\<close>
  | InTx "event \<Rightarrow> 'd \<Rightarrow> (string + unit) \<times> 'd" \<comment> \<open>\<^verbatim>\<open>SubscribeDurableTx\<close>\<close>

definition dispatch ::
  "time \<Rightarrow> durable_sub \<Rightarrow> 'a event_db_scheme handler \<Rightarrow> event \<Rightarrow> 'a event_db_scheme \<Rightarrow>
   bool \<times> 'a event_db_scheme" where
  \<comment> \<open>the flag reports whether the handler succeeded and the cursor advanced\<close>
  "dispatch now sub h e d =
     (let (r, d1) =
        (case h of
           InTx f \<Rightarrow> run_tx (\<lambda>d. case f e d of
               (Inl err, d') \<Rightarrow> (Inl err, d')
             | (Inr _, d') \<Rightarrow> (Inr (), advanceTx now (ds_name sub) (ev_id e) d')) d
         | Plain f \<Rightarrow>
             (case f e of Inl err \<Rightarrow> (Inl err, d)
              | Inr _ \<Rightarrow> (Inr (), advanceTx now (ds_name sub) (ev_id e) d)))
      in case r of
           Inr _ \<Rightarrow> (True, d1)
         | Inl err \<Rightarrow> (False, snd (recordFailure now sub e err d1)))"

fun skip_loop :: "pattern \<Rightarrow> int \<Rightarrow> event list \<Rightarrow> int" where
  "skip_loop p skipTo [] = skipTo"
| "skip_loop p skipTo (e # es) =
     (if Matches p (ev_type e) then skipTo else skip_loop p (ev_id e) es)"

definition retry_pending :: "time \<Rightarrow> cursor_row \<Rightarrow> bool" where
  \<comment> \<open>\<^verbatim>\<open>c.retryAt != nil && now.Before(*c.retryAt)\<close>; an unparseable time counts as nil\<close>
  "retry_pending now c =
     (case cu_retry_at c of None \<Rightarrow> False
      | Some s \<Rightarrow> (case parse_time s of None \<Rightarrow> False | Some t \<Rightarrow> now < t))"

definition sub_step ::
  "string \<Rightarrow> duration \<Rightarrow> time \<Rightarrow> durable_sub \<Rightarrow> 'a event_db_scheme handler \<Rightarrow>
   'a event_db_scheme \<Rightarrow> bool \<times> (event \<times> bool) option \<times> 'a event_db_scheme" where
  "sub_step owner ttl now sub h d =
     (let (held, d1) = acquireLease owner ttl now (ds_name sub) d in
      if \<not> held then (True, None, d1)
      else case sql_find (by_name (ds_name sub)) (ev_cursors d1) of
             None \<Rightarrow> (True, None, d1)
           | Some c \<Rightarrow>
               if cu_state c = CursorPaused then (True, None, d1)
               else if retry_pending now c then (True, None, d1)
               else
                 (let batch = readAfter (cu_last c) 100 d1 in
                  if batch = [] then (True, None, d1)
                  else
                    (let skipTo = skip_loop (ds_pattern sub) 0 batch in
                     if 0 < skipTo then (False, None, advanceTx now (ds_name sub) skipTo d1)
                     else
                       (let (ok, d2) = dispatch now sub h (hd batch) d1
                        in (False, Some (hd batch, ok), d2)))))"

section \<open>Administration\<close>

definition mutatePaused ::
  "string \<Rightarrow> (cursor_row \<Rightarrow> cursor_row) \<Rightarrow> 'a event_db_scheme \<Rightarrow>
   (events_error + unit) \<times> 'a event_db_scheme" where
  "mutatePaused name f = run_tx (\<lambda>d.
     case sql_find (by_name name) (ev_cursors d) of
       None \<Rightarrow> (Inl ErrUnknownName, d)
     | Some c \<Rightarrow>
         if cu_state c \<noteq> CursorPaused then (Inl ErrNotPaused, d)
         else (Inr (), d\<lparr>ev_cursors := sql_update (by_name name) f (ev_cursors d)\<rparr>))"

definition RetryPaused ::
  "time \<Rightarrow> string \<Rightarrow> 'a event_db_scheme \<Rightarrow> (events_error + unit) \<times> 'a event_db_scheme" where
  "RetryPaused now name = mutatePaused name
     (\<lambda>c. c\<lparr>cu_state := CursorActive, cu_attempts := 0, cu_retry_at := None, cu_updated := rfc now\<rparr>)"

definition SkipPaused ::
  "time \<Rightarrow> string \<Rightarrow> 'a event_db_scheme \<Rightarrow> (events_error + unit) \<times> 'a event_db_scheme" where
  "SkipPaused now name = mutatePaused name
     (\<lambda>c. c\<lparr>cu_state := CursorActive, cu_last := cu_failed c, cu_failed := 0, cu_attempts := 0,
            cu_retry_at := None, cu_last_error := [], cu_updated := rfc now\<rparr>)"

definition ResetCursor ::
  "time \<Rightarrow> string \<Rightarrow> start_mode \<Rightarrow> int \<Rightarrow> 'a event_db_scheme \<Rightarrow>
   (events_error + unit) \<times> 'a event_db_scheme" where
  "ResetCursor now name mode event_id = run_tx (\<lambda>d.
     case sql_find (by_name name) (ev_cursors d) of
       None \<Rightarrow> (Inl ErrUnknownName, d)
     | Some _ \<Rightarrow>
         (let to = (case mode of
                      FromBeginning \<Rightarrow> Inr 0 | StartUnset \<Rightarrow> Inr 0
                    | FromNow \<Rightarrow> Inr (Tail d) | AfterEvent \<Rightarrow> Inr event_id
                    | StartOther _ \<Rightarrow> Inl ErrBadStart)
          in case to of
               Inl e \<Rightarrow> (Inl e, d)
             | Inr n \<Rightarrow>
                 (Inr (), d\<lparr>ev_cursors := sql_update (by_name name)
                   (\<lambda>c. c\<lparr>cu_last := n, cu_state := CursorActive, cu_failed := 0, cu_attempts := 0,
                          cu_retry_at := None, cu_last_error := [], cu_updated := rfc now\<rparr>)
                   (ev_cursors d)\<rparr>)))"

definition RemoveSubscriber :: "string \<Rightarrow> 'a event_db_scheme \<Rightarrow> 'a event_db_scheme" where
  "RemoveSubscriber name d = d\<lparr>ev_cursors := sql_delete (by_name name) (ev_cursors d)\<rparr>"

section \<open>What the operations do to a cursor\<close>

definition cview :: "string \<Rightarrow> 'a event_db_scheme \<Rightarrow> (int \<times> cursor_state \<times> int) option" where
  \<comment> \<open>position, state and poison event of a subscriber\<close>
  "cview n d = map_option (\<lambda>c. (cu_last c, cu_state c, cu_failed c)) (sql_find (by_name n) (ev_cursors d))"

definition cursors_nonneg :: "'a event_db_scheme \<Rightarrow> bool" where
  \<comment> \<open>subscriber is the primary key\<close>
  "cursors_nonneg d \<longleftrightarrow> distinct (map cu_subscriber (ev_cursors d)) \<and>
     (\<forall>c \<in> set (ev_cursors d). 0 \<le> cu_last c)"

lemma names_update:
  "(\<And>c. cu_subscriber (f c) = cu_subscriber c) \<Longrightarrow>
   map cu_subscriber (sql_update P f t) = map cu_subscriber t"
  by (simp add: sql_update_def)

lemma find_by_name_update:
  assumes "\<And>c. cu_subscriber (f c) = cu_subscriber c"
  shows "sql_find (by_name n) (sql_update Q f t) =
    map_option (\<lambda>c. if Q c then f c else c) (sql_find (by_name n) t)"
  using assms by (intro sql_find_update_key) (simp add: by_name_def)

lemma find_by_name: "sql_find (by_name n) t = Some c \<Longrightarrow> cu_subscriber c = n"
  using sql_find_Some[of "by_name n" t c] by (simp add: by_name_def)

lemma acquireLease_view [simp]:
  "cview n (snd (acquireLease owner ttl now name d)) = cview n d"
  "ev_rows (snd (acquireLease owner ttl now name d)) = ev_rows d"
  "ev_seq (snd (acquireLease owner ttl now name d)) = ev_seq d"
  "cursors_nonneg (snd (acquireLease owner ttl now name d)) = cursors_nonneg d"
  by (auto simp: acquireLease_def Let_def cview_def find_by_name_update option.map_comp comp_def
      cursors_nonneg_def names_update ball_sql_update intro!: option.map_cong0)

lemma advanceTx_view [simp]:
  "cview n (advanceTx now name k d) =
     map_option (\<lambda>(l, st, fl). (if n = name then k else l, st, fl)) (cview n d)"
  "ev_rows (advanceTx now name k d) = ev_rows d"
  "ev_seq (advanceTx now name k d) = ev_seq d"
proof -
  show "cview n (advanceTx now name k d) =
     map_option (\<lambda>(l, st, fl). (if n = name then k else l, st, fl)) (cview n d)"
    by (auto simp: advanceTx_def cview_def find_by_name_update option.map_comp comp_def by_name_def
        dest!: find_by_name intro!: option.map_cong)
  show "ev_rows (advanceTx now name k d) = ev_rows d" "ev_seq (advanceTx now name k d) = ev_seq d"
    by (simp_all add: advanceTx_def)
qed

lemma advanceTx_nonneg: "0 \<le> k \<Longrightarrow> cursors_nonneg d \<Longrightarrow> cursors_nonneg (advanceTx now name k d)"
  by (auto simp: advanceTx_def cursors_nonneg_def names_update set_sql_update)

lemma log_ok_cong:
  "ev_rows d' = ev_rows d \<Longrightarrow> ev_seq d' = ev_seq d \<Longrightarrow> log_ok d' = log_ok d"
  by (simp add: log_ok_def)

text \<open>How a database may grow: new rows get numbers above the counter.\<close>

definition log_grows :: "'a event_db_scheme \<Rightarrow> 'a event_db_scheme \<Rightarrow> bool" where
  "log_grows d d' \<longleftrightarrow> ev_seq d \<le> ev_seq d' \<and> (log_ok d \<longrightarrow> log_ok d') \<and>
     (\<exists>new. ev_rows d' = ev_rows d @ new \<and> (\<forall>e \<in> set new. ev_seq d < ev_id e))"

lemma log_grows_refl [simp]: "log_grows d d"
  by (simp add: log_grows_def)

lemma log_grows_same:
  "ev_rows d' = ev_rows d \<Longrightarrow> ev_seq d' = ev_seq d \<Longrightarrow> log_grows d d'"
  by (simp add: log_grows_def log_ok_def)

lemma log_grows_trans: "log_grows a b \<Longrightarrow> log_grows b c \<Longrightarrow> log_grows a c"
  by (fastforce simp: log_grows_def)

lemma PublishTx_grows: "log_grows d (snd (PublishTx now i d))"
  using PublishTx_log_ok[of d now i]
  by (auto simp: log_grows_def PublishTx_def Let_def split: sum.splits)

lemma PublishTx_view [simp]:
  "cview n (snd (PublishTx now i d)) = cview n d"
  "cursors_nonneg (snd (PublishTx now i d)) = cursors_nonneg d"
  by (simp_all add: cview_def cursors_nonneg_def)

text \<open>A failure leaves the position alone: it either schedules a retry or pauses.\<close>

lemma recordFailure_cases:
  assumes "cview n d = Some (l, st, fl)"
  shows "log_grows d (snd (recordFailure now sub e msg d)) \<and>
    (cursors_nonneg d \<longrightarrow> cursors_nonneg (snd (recordFailure now sub e msg d))) \<and>
    (cview n (snd (recordFailure now sub e msg d)) = Some (l, st, fl) \<or>
     (n = ds_name sub \<and> cview n (snd (recordFailure now sub e msg d)) = Some (l, CursorPaused, ev_id e)))"
proof -
  define D where "D a m = d\<lparr>ev_cursors := sql_update (by_name (ds_name sub))
      (\<lambda>c. c\<lparr>cu_state := CursorPaused, cu_failed := ev_id e, cu_attempts := a,
             cu_retry_at := None, cu_last_error := m, cu_updated := rfc now\<rparr>)
      (ev_cursors d)\<rparr>" for a m
  obtain c0 where c0: "sql_find (by_name n) (ev_cursors d) = Some c0"
      "l = cu_last c0" "st = cu_state c0" "fl = cu_failed c0" "cu_subscriber c0 = n"
    using assms find_by_name[of n "ev_cursors d"] by (auto simp: cview_def)
  have DD: "ev_rows (D a m) = ev_rows d" "ev_seq (D a m) = ev_seq d"
      "cursors_nonneg (D a m) = cursors_nonneg d"
      "cview n (D a m) = Some (l, if n = ds_name sub then CursorPaused else st,
          if n = ds_name sub then ev_id e else fl)" for a m
    by (simp_all add: D_def cursors_nonneg_def names_update ball_sql_update cview_def find_by_name_update
        by_name_def[of "ds_name sub"] c0)
  have g: "log_grows d (snd (PublishTx now i (D a m)))" for i a m
    by (rule log_grows_trans[OF log_grows_same PublishTx_grows]) (simp_all add: DD)
  define R where "R a t m = d\<lparr>ev_cursors := sql_update (by_name (ds_name sub))
      (\<lambda>c. c\<lparr>cu_attempts := a, cu_retry_at := Some t, cu_last_error := m, cu_updated := rfc now\<rparr>)
      (ev_cursors d)\<rparr>" for a t m
  have RR: "log_grows d (R a t m)" "cursors_nonneg (R a t m) = cursors_nonneg d"
      "cview n (R a t m) = Some (l, st, fl)" for a t m
    by (simp_all add: R_def cursors_nonneg_def names_update ball_sql_update cview_def
        find_by_name_update log_grows_same c0)
  show ?thesis (is "?P (snd (recordFailure now sub e msg d))")
  proof (cases "sql_find (by_name (ds_name sub)) (ev_cursors d)")
    case None
    then show ?thesis using assms by (simp add: recordFailure_def run_tx_def)
  next
    case (Some c)
    let ?a = "cu_attempts c + 1" and ?m = "truncate 500 msg"
    show ?thesis
    proof (cases "rp_max_attempts (ds_retry sub) \<le> ?a")
      case False
      with Some have "snd (recordFailure now sub e msg d) =
          R ?a (rfc (now + retry_delay (ds_retry sub) ?a)) ?m"
        by (simp add: recordFailure_def run_tx_def R_def Let_def)
      then show ?thesis by (simp add: RR)
    next
      case True
      let ?pub = "PublishTx now (paused_event (ds_name sub) (ev_id e) ?a ?m) (D ?a ?m)"
      have "snd (recordFailure now sub e msg d) = (case fst ?pub of Inl _ \<Rightarrow> d | Inr _ \<Rightarrow> snd ?pub)"
        using Some True
        by (simp add: recordFailure_def run_tx_def D_def Let_def split: prod.splits sum.splits)
      moreover have "?P (snd ?pub)" using g DD by simp
      ultimately show ?thesis using assms by (cases "fst ?pub") simp_all
    qed
  qed
qed

section \<open>Handlers\<close>

text \<open>
  What the dispatcher expects of a handler that runs in the cursor transaction: it may
  publish and write its own tables, but it does not touch the cursors. Plugins cannot: their
  SQL is confined to their own tables, and the core handlers never write them.
\<close>

locale tx_handler =
  fixes f :: "event \<Rightarrow> 'a event_db_scheme \<Rightarrow> (string + unit) \<times> 'a event_db_scheme"
  assumes handler_cursors: "ev_cursors (snd (f e d)) = ev_cursors d"
    and handler_grows: "log_grows d (snd (f e d))"
begin

lemma handler_view: "cview n (snd (f e d)) = cview n d"
  by (simp add: cview_def handler_cursors)

lemma handler_nonneg: "cursors_nonneg (snd (f e d)) = cursors_nonneg d"
  by (simp add: cursors_nonneg_def handler_cursors)

end

definition discard_handler :: "event \<Rightarrow> 'a event_db_scheme \<Rightarrow> (string + unit) \<times> 'a event_db_scheme" where
  \<comment> \<open>the handler pluginhost attaches while a plugin is disabled\<close>
  "discard_handler e d = (Inr (), d)"

interpretation discard: tx_handler discard_handler
  by unfold_locales (simp_all add: discard_handler_def)

definition handler_ok :: "'a event_db_scheme handler \<Rightarrow> bool" where
  "handler_ok h = (case h of Plain _ \<Rightarrow> True | InTx f \<Rightarrow> tx_handler f)"

lemma dispatch_ok:
  assumes "handler_ok h" "dispatch now sub h e d = (True, d')"
  shows "\<exists>d1. log_grows d d1 \<and> cview n d1 = cview n d \<and> cursors_nonneg d1 = cursors_nonneg d \<and>
    d' = advanceTx now (ds_name sub) (ev_id e) d1"
proof (cases h)
  case (Plain f)
  then have "d' = advanceTx now (ds_name sub) (ev_id e) d"
    using assms by (auto simp: dispatch_def split: sum.splits)
  then show ?thesis using log_grows_refl by blast
next
  case (InTx f)
  then have f: "tx_handler f" using assms by (simp add: handler_ok_def)
  obtain r d1 where r: "f e d = (r, d1)" by (cases "f e d")
  with assms(2) InTx have d1: "f e d = (Inr (), d1)" "d' = advanceTx now (ds_name sub) (ev_id e) d1"
    by (cases r; simp add: dispatch_def run_tx_def)+
  then have "snd (f e d) = d1" by simp
  then show ?thesis
    using d1 tx_handler.handler_grows[OF f, of d e] tx_handler.handler_view[OF f, of n e d]
      tx_handler.handler_nonneg[OF f, of e d] by blast
qed

lemma dispatch_fail:
  assumes "dispatch now sub h e d = (False, d')"
  shows "\<exists>msg. d' = snd (recordFailure now sub e msg d)"
proof (cases h)
  case (Plain f)
  with assms show ?thesis by (cases "f e") (simp_all add: dispatch_def, blast)
next
  case (InTx f)
  obtain r d1 where r: "f e d = (r, d1)" by (cases "f e d")
  with assms InTx show ?thesis
    by (cases r) (simp_all add: dispatch_def run_tx_def, blast)
qed

section \<open>No matching event is lost\<close>

text \<open>
  The system an observer sees: the database, the events the handler of one subscriber
  acknowledged, the poison events an operator skipped, and every event that was ever in the
  log. Its steps are the operations of the program that touch the log or the cursor, in any
  order and by any process: publishers, the dispatch loops of this and of other
  subscribers, the operator's retry and skip, and retention. Moving or removing the cursor
  (\<open>ResetCursor\<close>, \<open>RemoveSubscriber\<close>) is excluded: it gives up its position on purpose.
\<close>

record 'a dsys =
  sy_db :: "'a event_db_scheme"
  sy_done :: "int list"
  sy_skipped :: "int list"
  sy_seen :: "event set"

definition ack :: "(event \<times> bool) option \<Rightarrow> int list" where
  "ack r = (case r of Some (e, ok) \<Rightarrow> if ok then [ev_id e] else [] | None \<Rightarrow> [])"

inductive dur_step ::
  "durable_sub \<Rightarrow> 'a event_db_scheme handler \<Rightarrow> 'a dsys \<Rightarrow> 'a dsys \<Rightarrow> bool" for sub h where
  du_publish: "PublishTx now i (sy_db s) = (r, d') \<Longrightarrow>
     dur_step sub h s (s\<lparr>sy_db := d', sy_seen := sy_seen s \<union> set (ev_rows d')\<rparr>)"
| du_step: "sub_step owner ttl now sub h (sy_db s) = (w, r, d') \<Longrightarrow>
     dur_step sub h s (s\<lparr>sy_db := d', sy_done := sy_done s @ ack r,
       sy_seen := sy_seen s \<union> set (ev_rows d')\<rparr>)"
| du_other: "ds_name other \<noteq> ds_name sub \<Longrightarrow> handler_ok g \<Longrightarrow>
     sub_step owner ttl now other g (sy_db s) = (w, r, d') \<Longrightarrow>
     dur_step sub h s (s\<lparr>sy_db := d', sy_seen := sy_seen s \<union> set (ev_rows d')\<rparr>)"
| du_retry: "RetryPaused now (ds_name sub) (sy_db s) = (r, d') \<Longrightarrow>
     dur_step sub h s (s\<lparr>sy_db := d'\<rparr>)"
| du_skip: "SkipPaused now (ds_name sub) (sy_db s) = (Inr (), d') \<Longrightarrow>
     cview (ds_name sub) (sy_db s) = Some (l, st, fl) \<Longrightarrow>
     dur_step sub h s (s\<lparr>sy_db := d', sy_skipped := sy_skipped s @ [fl]\<rparr>)"
| du_retention: "RunRetention now keep (sy_db s) = (rep, d') \<Longrightarrow>
     dur_step sub h s (s\<lparr>sy_db := d'\<rparr>)"

text \<open>
  The invariant. Below the position every matching event was acknowledged or skipped; above
  it every event is still in the log; a paused cursor stands right before its poison event.
\<close>

definition dcore ::
  "pattern \<Rightarrow> int \<Rightarrow> int list \<Rightarrow> int list \<Rightarrow> event set \<Rightarrow> event list \<Rightarrow> int \<Rightarrow> cursor_state \<Rightarrow> int \<Rightarrow> bool" where
  "dcore p start dn sk seen rows l st fl \<longleftrightarrow> 0 \<le> start \<and> start \<le> l \<and>
     (\<forall>e \<in> seen. start < ev_id e \<and> ev_id e \<le> l \<and> Matches p (ev_type e) \<longrightarrow> ev_id e \<in> set dn \<union> set sk) \<and>
     (\<forall>e \<in> seen. l < ev_id e \<longrightarrow> e \<in> set rows) \<and>
     (st = CursorPaused \<longrightarrow> l < fl \<and> (\<forall>e \<in> seen. l < ev_id e \<longrightarrow> fl \<le> ev_id e)) \<and>
     sorted_wrt (<) dn \<and> (\<forall>i \<in> set dn. i \<le> l)"

definition dbase :: "event set \<Rightarrow> 'a event_db_scheme \<Rightarrow> bool" where
  "dbase seen d \<longleftrightarrow> log_ok d \<and> cursors_nonneg d \<and> set (ev_rows d) \<subseteq> seen \<and>
     (\<forall>e \<in> seen. ev_id e \<le> ev_seq d)"

definition dgood ::
  "durable_sub \<Rightarrow> int \<Rightarrow> int list \<Rightarrow> int list \<Rightarrow> event set \<Rightarrow> 'a event_db_scheme \<Rightarrow> bool" where
  "dgood sub start dn sk seen d \<longleftrightarrow> dbase seen d \<and>
     (\<exists>l st fl. cview (ds_name sub) d = Some (l, st, fl) \<and> l \<le> ev_seq d \<and>
        (st = CursorPaused \<longrightarrow> fl \<le> ev_seq d) \<and>
        dcore (ds_pattern sub) start dn sk seen (ev_rows d) l st fl)"

definition dinv :: "durable_sub \<Rightarrow> int \<Rightarrow> 'a dsys \<Rightarrow> bool" where
  "dinv sub start s \<longleftrightarrow> dgood sub start (sy_done s) (sy_skipped s) (sy_seen s) (sy_db s)"

lemma dbase_grows:
  assumes "dbase seen d" "log_grows d d'" "cursors_nonneg d'"
  shows "dbase (seen \<union> set (ev_rows d')) d'"
  using assms by (fastforce simp: dbase_def log_grows_def log_ok_def)

lemma dcore_grows:
  assumes "dcore p start dn sk seen (ev_rows d) l st fl" "dbase seen d" "log_grows d d'"
    "l \<le> ev_seq d" "st = CursorPaused \<Longrightarrow> fl \<le> ev_seq d"
  shows "dcore p start dn sk (seen \<union> set (ev_rows d')) (ev_rows d') l st fl"
proof -
  obtain new where new: "ev_rows d' = ev_rows d @ new" "\<forall>e \<in> set new. ev_seq d < ev_id e"
    using assms(3) by (auto simp: log_grows_def)
  have sub: "set (ev_rows d) \<subseteq> seen" using assms(2) by (simp add: dbase_def)
  have old: "ev_id e \<le> l \<Longrightarrow> e \<in> seen" if "e \<in> seen \<union> set (ev_rows d')" for e
    using that new assms(4) sub by force
  show ?thesis
    unfolding dcore_def
  proof (intro conjI)
    show "\<forall>e \<in> seen \<union> set (ev_rows d'). start < ev_id e \<and> ev_id e \<le> l \<and> Matches p (ev_type e) \<longrightarrow>
        ev_id e \<in> set dn \<union> set sk"
    proof (intro ballI impI)
      fix e assume e: "e \<in> seen \<union> set (ev_rows d')"
        "start < ev_id e \<and> ev_id e \<le> l \<and> Matches p (ev_type e)"
      then have "e \<in> seen" using old by blast
      then show "ev_id e \<in> set dn \<union> set sk" using assms(1) e(2) unfolding dcore_def by blast
    qed
    show "\<forall>e \<in> seen \<union> set (ev_rows d'). l < ev_id e \<longrightarrow> e \<in> set (ev_rows d')"
      using assms(1) new by (auto simp: dcore_def)
    show "st = CursorPaused \<longrightarrow>
        l < fl \<and> (\<forall>e \<in> seen \<union> set (ev_rows d'). l < ev_id e \<longrightarrow> fl \<le> ev_id e)"
    proof
      assume st: "st = CursorPaused"
      then have p: "l < fl" "\<forall>e \<in> seen. l < ev_id e \<longrightarrow> fl \<le> ev_id e"
        using assms(1) by (simp_all add: dcore_def)
      moreover have "fl \<le> ev_id e" if "e \<in> set new" for e
        using assms(5)[OF st] new(2) that by force
      ultimately show "l < fl \<and> (\<forall>e \<in> seen \<union> set (ev_rows d'). l < ev_id e \<longrightarrow> fl \<le> ev_id e)"
        using new(1) sub by auto
    qed
  qed (use assms(1) in \<open>simp_all add: dcore_def\<close>)
qed

lemma readAfter_ok: "log_ok d \<Longrightarrow> readAfter l n d = take n (filter (\<lambda>e. l < ev_id e) (ev_rows d))"
  by (simp add: readAfter_def log_ok_def sort_sorted_ids sorted_ids_filter)

lemma skip_loop_eq:
  "skip_loop p s es = (let k = takeWhile (\<lambda>e. \<not> Matches p (ev_type e)) es in
     if k = [] then s else ev_id (last k))"
  by (induction es arbitrary: s) (auto simp: Let_def)

text \<open>Rows up to the end of the skipped run are all in it, so none of them matches.\<close>

lemma skipped_run:
  assumes "sorted_wrt (<) (map ev_id es)" "k = takeWhile P (take n es)" "k \<noteq> []"
    "e \<in> set es" "ev_id e \<le> ev_id (last k)"
  shows "e \<in> set k"
proof -
  obtain rest where es: "es = k @ rest"
    using assms(2) by (metis append_assoc append_take_drop_id takeWhile_dropWhile_id)
  show ?thesis
  proof (rule ccontr)
    assume "e \<notin> set k"
    then have "e \<in> set rest" using assms(4) es by auto
    moreover have "last k \<in> set k" using assms(3) by simp
    ultimately have "ev_id (last k) < ev_id e"
      using assms(1) es by (auto simp: sorted_wrt_append)
    then show False using assms(5) by simp
  qed
qed


lemma sub_step_cases:
  assumes "sub_step owner ttl now sub h d = (w, r, d')"
  defines "d1 \<equiv> snd (acquireLease owner ttl now (ds_name sub) d)"
  obtains (idle) "r = None" "d' = d1"
  | (skip) c k where "r = None" "sql_find (by_name (ds_name sub)) (ev_cursors d1) = Some c"
      "cu_state c \<noteq> CursorPaused" "k = skip_loop (ds_pattern sub) 0 (readAfter (cu_last c) 100 d1)"
      "0 < k" "d' = advanceTx now (ds_name sub) k d1"
  | (run) c e es ok where "r = Some (e, ok)" "sql_find (by_name (ds_name sub)) (ev_cursors d1) = Some c"
      "cu_state c \<noteq> CursorPaused" "readAfter (cu_last c) 100 d1 = e # es"
      "\<not> 0 < skip_loop (ds_pattern sub) 0 (e # es)" "dispatch now sub h e d1 = (ok, d')"
proof -
  obtain held where held: "acquireLease owner ttl now (ds_name sub) d = (held, d1)"
    unfolding d1_def by (cases "acquireLease owner ttl now (ds_name sub) d") simp
  note st = assms(1)[unfolded sub_step_def held Let_def, simplified]
  show thesis
  proof (cases "sql_find (by_name (ds_name sub)) (ev_cursors d1)")
    case None
    then show thesis using st idle by (cases held) auto
  next
    case (Some c)
    let ?b = "readAfter (cu_last c) 100 d1"
    show thesis
    proof (cases "\<not> held \<or> cu_state c = CursorPaused \<or> retry_pending now c \<or> ?b = []")
      case True
      then show thesis using st Some idle by (auto split: if_splits)
    next
      case False
      show thesis
      proof (cases "0 < skip_loop (ds_pattern sub) 0 ?b")
        case True
        then show thesis using st Some False by (intro skip[OF _ Some]) auto
      next
        case nk: False
        obtain e es where b: "?b = e # es" using False by (cases ?b) auto
        obtain ok d2 where "dispatch now sub h e d1 = (ok, d2)" by (cases "dispatch now sub h e d1")
        then show thesis
          using st Some False nk b by (intro run[OF _ Some _ b]) auto
      qed
    qed
  qed
qed


lemma dgood_grows:
  assumes "dgood sub start dn sk seen d" "log_grows d d'" "cursors_nonneg d'"
    "cview (ds_name sub) d' = cview (ds_name sub) d"
  shows "dgood sub start dn sk (seen \<union> set (ev_rows d')) d'"
proof -
  obtain l st fl where g: "dbase seen d" "cview (ds_name sub) d = Some (l, st, fl)" "l \<le> ev_seq d"
      "st = CursorPaused \<longrightarrow> fl \<le> ev_seq d"
      "dcore (ds_pattern sub) start dn sk seen (ev_rows d) l st fl"
    using assms(1) by (auto simp: dgood_def)
  have "ev_seq d \<le> ev_seq d'" using assms(2) by (simp add: log_grows_def)
  moreover have "dcore (ds_pattern sub) start dn sk (seen \<union> set (ev_rows d')) (ev_rows d') l st fl"
    using dcore_grows[OF g(5,1) assms(2) g(3)] g(4) by blast
  ultimately show ?thesis
    using dbase_grows[OF g(1) assms(2,3)] g assms(4) unfolding dgood_def by (auto intro: order_trans)
qed

lemma dgood_same:
  fixes d d' :: "'a event_db_scheme"
  assumes "dgood sub start dn sk seen d" "ev_rows d' = ev_rows d" "ev_seq d' = ev_seq d"
    "cursors_nonneg d'" "cview (ds_name sub) d' = cview (ds_name sub) d"
  shows "dgood sub start dn sk seen d'"
proof -
  have "seen \<union> set (ev_rows d') = seen" using assms(1,2) by (auto simp: dgood_def dbase_def)
  then show ?thesis using dgood_grows[OF assms(1) log_grows_same[OF assms(2,3)] assms(4,5)] by simp
qed

lemma dbase_advance: "dbase seen d \<Longrightarrow> 0 \<le> k \<Longrightarrow> dbase seen (advanceTx now name k d)"
  by (simp add: dbase_def advanceTx_nonneg log_ok_def)

lemma dgood_advance:
  assumes "dgood sub start dn sk seen d" "cview (ds_name sub) d = Some (l, st, fl)"
    "st \<noteq> CursorPaused" "l < k" "k \<le> ev_seq d" "set extra \<subseteq> {k}" "length extra \<le> 1"
    "\<forall>e \<in> seen. l < ev_id e \<and> ev_id e \<le> k \<and> Matches (ds_pattern sub) (ev_type e) \<longrightarrow> ev_id e \<in> set extra"
  shows "dgood sub start (dn @ extra) sk seen (advanceTx now (ds_name sub) k d)"
proof -
  have g: "dbase seen d" "dcore (ds_pattern sub) start dn sk seen (ev_rows d) l st fl"
    using assms(1,2) by (auto simp: dgood_def)
  have "sorted_wrt (<) (dn @ extra)"
    using g(2) assms(4,6,7) by (cases extra) (force simp: dcore_def sorted_wrt_append)+
  moreover have "ev_id e \<in> set (dn @ extra) \<union> set sk"
    if "e \<in> seen" "start < ev_id e" "ev_id e \<le> k" "Matches (ds_pattern sub) (ev_type e)" for e
    using that g(2) assms(8) by (cases "ev_id e \<le> l") (auto simp: dcore_def)
  ultimately have "dcore (ds_pattern sub) start (dn @ extra) sk seen (ev_rows d) k st fl"
    using g(2) assms(3,4,6) unfolding dcore_def by auto
  moreover have "0 \<le> k" using g(2) assms(4) by (simp add: dcore_def)
  ultimately show ?thesis
    using dbase_advance[OF g(1)] assms(2,3,5) unfolding dgood_def by simp
qed

text \<open>The next row after the position.\<close>

definition next_row :: "int \<Rightarrow> event \<Rightarrow> 'a event_db_scheme \<Rightarrow> bool" where
  "next_row l e d \<longleftrightarrow> e \<in> set (ev_rows d) \<and> l < ev_id e \<and>
     (\<forall>e' \<in> set (ev_rows d). l < ev_id e' \<longrightarrow> ev_id e \<le> ev_id e')"

lemma readAfter_next:
  assumes "log_ok d" "readAfter l n d = e # es"
  shows "next_row l e d"
proof -
  let ?f = "filter (\<lambda>e. l < ev_id e) (ev_rows d)"
  obtain rest where f: "?f = e # rest"
    using assms by (cases ?f) (auto simp: readAfter_ok take_Cons' split: if_splits)
  have "sorted_wrt (<) (map ev_id ?f)" using assms(1) by (simp add: log_ok_def sorted_ids_filter)
  then have lt: "\<forall>x \<in> set rest. ev_id e < ev_id x" by (simp add: f)
  have mem: "x \<in> set (ev_rows d) \<and> l < ev_id x \<longleftrightarrow> x = e \<or> x \<in> set rest" for x
    using arg_cong[OF f, of "\<lambda>xs. x \<in> set xs"] by simp
  show ?thesis
    unfolding next_row_def using lt mem by (metis order_le_less)
qed

lemma next_row_grows:
  "next_row l e d \<Longrightarrow> log_grows d d' \<Longrightarrow> log_ok d \<Longrightarrow> next_row l e d'"
  by (force simp: next_row_def log_grows_def log_ok_def)

lemma next_row_seen:
  assumes "dgood sub start dn sk seen d" "cview (ds_name sub) d = Some (l, st, fl)" "next_row l e d"
    "e' \<in> seen" "l < ev_id e'"
  shows "ev_id e \<le> ev_id e'"
  using assms by (auto simp: dgood_def dcore_def next_row_def)


lemma dgood_skip:
  assumes "dgood sub start dn sk seen d" "cview (ds_name sub) d = Some (l, st, fl)"
    "st \<noteq> CursorPaused" "k = skip_loop (ds_pattern sub) 0 (readAfter l n d)" "0 < k"
  shows "dgood sub start dn sk seen (advanceTx now (ds_name sub) k d)"
proof -
  let ?f = "filter (\<lambda>e. l < ev_id e) (ev_rows d)"
  let ?K = "takeWhile (\<lambda>e. \<not> Matches (ds_pattern sub) (ev_type e)) (take n ?f)"
  have g: "dbase seen d" "log_ok d" "dcore (ds_pattern sub) start dn sk seen (ev_rows d) l st fl"
    using assms(1,2) by (auto simp: dgood_def dbase_def)
  have k: "?K \<noteq> []" "k = ev_id (last ?K)"
    using assms(4,5) by (auto simp: skip_loop_eq readAfter_ok[OF g(2)] Let_def split: if_splits)
  have "last ?K \<in> set ?K" using k(1) by (rule last_in_set)
  then have "last ?K \<in> set ?f" using in_set_takeD set_takeWhileD by metis
  then have lk: "l < k" "k \<le> ev_seq d" using k(2) g(2) by (auto simp: log_ok_def)
  have "\<not> Matches (ds_pattern sub) (ev_type e)" if "e \<in> seen" "l < ev_id e" "ev_id e \<le> k" for e
  proof -
    have "e \<in> set ?f" using that g(3) by (auto simp: dcore_def)
    moreover have "sorted_wrt (<) (map ev_id ?f)" using g(2) by (simp add: log_ok_def sorted_ids_filter)
    ultimately have "e \<in> set ?K" using that(3) k(2) skipped_run[OF _ refl k(1)] by metis
    then show ?thesis by (rule set_takeWhileD[THEN conjunct2])
  qed
  then show ?thesis
    using dgood_advance[OF assms(1-3) lk, of "[]"] by auto
qed

lemma dgood_ack:
  assumes "dgood sub start dn sk seen d" "cview (ds_name sub) d = Some (l, st, fl)"
    "st \<noteq> CursorPaused" "next_row l e d"
  shows "dgood sub start (dn @ [ev_id e]) sk seen (advanceTx now (ds_name sub) (ev_id e) d)"
proof -
  have "l < ev_id e" "ev_id e \<le> ev_seq d"
    using assms(1,4) by (auto simp: next_row_def dgood_def dbase_def log_ok_def)
  moreover have "ev_id e' = ev_id e" if "e' \<in> seen" "l < ev_id e'" "ev_id e' \<le> ev_id e" for e'
    using next_row_seen[OF assms(1,2,4) that(1,2)] that(3) by simp
  ultimately show ?thesis by (intro dgood_advance[OF assms(1-3)]) auto
qed

lemma dgood_fail:
  assumes "dgood sub start dn sk seen d" "cview (ds_name sub) d = Some (l, st, fl)"
    "st \<noteq> CursorPaused" "next_row l e d" "d' = snd (recordFailure now sub e msg d)"
  shows "dgood sub start dn sk (seen \<union> set (ev_rows d')) d'"
proof -
  have nn: "cursors_nonneg d" "log_ok d" using assms(1) by (auto simp: dgood_def dbase_def)
  have r: "log_grows d d'" "cursors_nonneg d'"
      "cview (ds_name sub) d' = Some (l, st, fl) \<or>
       cview (ds_name sub) d' = Some (l, CursorPaused, ev_id e)"
    using recordFailure_cases[OF assms(2), of now sub e msg] nn assms(5) by auto
  show ?thesis
  proof (cases "cview (ds_name sub) d' = Some (l, st, fl)")
    case True
    then show ?thesis using dgood_grows[OF assms(1) r(1,2)] assms(2) by simp
  next
    case False
    have g: "dbase seen d" "dcore (ds_pattern sub) start dn sk seen (ev_rows d) l st fl" "l \<le> ev_seq d"
      using assms(1,2) by (auto simp: dgood_def)
    have e: "l < ev_id e" "ev_id e \<le> ev_seq d" "ev_seq d \<le> ev_seq d'"
      using assms(4) nn r(1) by (auto simp: next_row_def log_ok_def log_grows_def)
    have "dcore (ds_pattern sub) start dn sk (seen \<union> set (ev_rows d')) (ev_rows d') l st fl"
      using dcore_grows[OF g(2,1) r(1) g(3)] assms(3) by blast
    moreover have "ev_id e \<le> ev_id e'" if "e' \<in> seen \<union> set (ev_rows d')" "l < ev_id e'" for e'
      using that next_row_seen[OF assms(1,2,4)] next_row_grows[OF assms(4) r(1) nn(2)]
      by (auto simp: next_row_def)
    ultimately have "dcore (ds_pattern sub) start dn sk (seen \<union> set (ev_rows d')) (ev_rows d') l
        CursorPaused (ev_id e)"
      using e(1) by (simp add: dcore_def)
    then show ?thesis
      using dbase_grows[OF g(1) r(1,2)] r(3) False e g(3) unfolding dgood_def by auto
  qed
qed


text \<open>The operator's two ways out of a pause, and retention.\<close>

lemma mutatePaused_cases:
  assumes "mutatePaused n f d = (r, d')" "\<forall>c. cu_subscriber (f c) = cu_subscriber c"
  obtains (err) e where "r = Inl e" "d' = d"
  | (fine) c where "r = Inr ()" "sql_find (by_name n) (ev_cursors d) = Some c"
      "cu_state c = CursorPaused" "cview n d' = Some (cu_last (f c), cu_state (f c), cu_failed (f c))"
      "ev_cursors d' = sql_update (by_name n) f (ev_cursors d)"
      "ev_rows d' = ev_rows d" "ev_seq d' = ev_seq d"
proof (cases "sql_find (by_name n) (ev_cursors d)")
  case None
  then show ?thesis using assms(1) err by (auto simp: mutatePaused_def run_tx_def)
next
  case (Some c)
  moreover have "by_name n c" using Some by (simp add: sql_find_Some)
  ultimately show ?thesis
    using assms(1) err fine[OF _ Some]
    by (auto simp: mutatePaused_def run_tx_def cview_def find_by_name_update[OF assms(2)[THEN spec]] split: if_splits)
qed

lemma dgood_retry:
  assumes "dgood sub start dn sk seen d" "RetryPaused now (ds_name sub) d = (r, d')"
  shows "dgood sub start dn sk seen d'"
proof (cases rule: mutatePaused_cases[OF assms(2)[unfolded RetryPaused_def], case_names keep err fine])
  case err
  then show ?thesis using assms(1) by simp
next
  case (fine c)
  then obtain l st fl where g: "dbase seen d" "cview (ds_name sub) d = Some (l, st, fl)" "l \<le> ev_seq d"
      "dcore (ds_pattern sub) start dn sk seen (ev_rows d) l st fl" "l = cu_last c" "fl = cu_failed c"
    using assms(1) by (auto simp: dgood_def cview_def)
  have "dbase seen d'"
    using g(1) fine by (simp add: dbase_def log_ok_def cursors_nonneg_def names_update ball_sql_update)
  then show ?thesis using g fine by (auto simp: dgood_def dcore_def)
qed simp

lemma dgood_skip_paused:
  assumes "dgood sub start dn sk seen d" "cview (ds_name sub) d = Some (l, st, fl)"
    "SkipPaused now (ds_name sub) d = (Inr (), d')"
  shows "dgood sub start dn (sk @ [fl]) seen d'"
proof (cases rule: mutatePaused_cases[OF assms(3)[unfolded SkipPaused_def], case_names keep err fine])
  case (fine c)
  then have c: "l = cu_last c" "st = CursorPaused" "fl = cu_failed c"
    using assms(2) by (auto simp: cview_def)
  have g: "dbase seen d" "fl \<le> ev_seq d" "dcore (ds_pattern sub) start dn sk seen (ev_rows d) l st fl"
    using assms(1,2) c(2) by (auto simp: dgood_def)
  have fl: "0 \<le> fl" "l < fl" "\<forall>e \<in> seen. l < ev_id e \<longrightarrow> fl \<le> ev_id e"
    using g(3) c(2) by (auto simp: dcore_def)
  have "c' = c" if "c' \<in> set (ev_cursors d)" "by_name (ds_name sub) c'" for c'
    using that g(1) sql_find_Some[OF fine(2)] unfolding dbase_def cursors_nonneg_def
    by (metis by_name_def distinct_map inj_onD)
  then have "cursors_nonneg d'"
    using g(1) fl(1) fine(5) c(3) unfolding cursors_nonneg_def dbase_def
    by (auto simp: set_sql_update names_update by_name_def split: if_splits)
  have "ev_id e = fl" if "e \<in> seen" "l < ev_id e" "ev_id e \<le> fl" for e
    using fl(3) that by force
  then have "dcore (ds_pattern sub) start dn (sk @ [fl]) seen (ev_rows d) fl CursorActive 0"
    using g(3) fl unfolding dcore_def by (auto simp: not_le) (metis linorder_le_less_linear)
  then show ?thesis using g fine c \<open>cursors_nonneg d'\<close> by (auto simp: dgood_def dbase_def log_ok_def)
qed simp_all

lemma dgood_retention:
  assumes "dgood sub start dn sk seen d" "RunRetention now keep d = (rep, d')"
  shows "dgood sub start dn sk seen d'"
proof -
  have d': "d' = snd (RunRetention now keep d)" using assms(2) by simp
  obtain l st fl where g: "dbase seen d" "cview (ds_name sub) d = Some (l, st, fl)" "l \<le> ev_seq d"
      "st = CursorPaused \<longrightarrow> fl \<le> ev_seq d"
      "dcore (ds_pattern sub) start dn sk seen (ev_rows d) l st fl"
    using assms(1) by (auto simp: dgood_def)
  obtain c where "c \<in> set (ev_cursors d)" "cu_last c = l"
    using g(2) by (auto simp: cview_def dest: sql_find_Some)
  then have "fst (retention_pin (ev_cursors d)) \<le> l"
    using retention_pin_le[of "ev_cursors d" c] g(1) by (auto simp: dbase_def cursors_nonneg_def)
  then have "dcore (ds_pattern sub) start dn sk seen (ev_rows d') l st fl"
    using g(5) unfolding dcore_def d' RunRetention_rows by auto
  moreover have "dbase seen d'"
    using g(1) RunRetention_log_ok[of d now keep]
    unfolding dbase_def d' by (auto simp: cursors_nonneg_def RunRetention_rows)
  ultimately show ?thesis using g d' by (auto simp: dgood_def cview_def)
qed


text \<open>One step of the dispatch loop, of this subscriber and of any other.\<close>

lemma dgood_acquire:
  "dgood sub start dn sk seen d \<Longrightarrow>
   dgood sub start dn sk seen (snd (acquireLease owner ttl now name d))"
  by (rule dgood_same) (auto simp: dgood_def dbase_def)

lemma dgood_rows: "dgood sub start dn sk seen d \<Longrightarrow> seen \<union> set (ev_rows d) = seen"
  by (auto simp: dgood_def dbase_def)

lemma dgood_dispatch:
  assumes g: "dgood sub start dn sk seen d" and h: "handler_ok h"
    and v: "cview (ds_name sub) d = Some (l, st, fl)" "st \<noteq> CursorPaused"
    and nx: "next_row l e d" and dis: "dispatch now sub h e d = (ok, d')"
  shows "dgood sub start (dn @ ack (Some (e, ok))) sk (seen \<union> set (ev_rows d')) d'"
proof (cases ok)
  case True
  obtain d2 where d2: "log_grows d d2" "cview (ds_name sub) d2 = cview (ds_name sub) d"
      "cursors_nonneg d2 = cursors_nonneg d" "d' = advanceTx now (ds_name sub) (ev_id e) d2"
    using dispatch_ok[OF h, of now sub e d d' "ds_name sub"] dis True by auto
  have b: "cursors_nonneg d" "log_ok d" using g by (auto simp: dgood_def dbase_def)
  have "dgood sub start dn sk (seen \<union> set (ev_rows d2)) d2"
    using dgood_grows[OF g d2(1) _ d2(2)] d2(3) b by simp
  from dgood_ack[OF this _ v(2) next_row_grows[OF nx d2(1) b(2)]]
  show ?thesis using d2 v True by (simp add: ack_def)
next
  case False
  then obtain msg where d': "d' = snd (recordFailure now sub e msg d)"
    using dispatch_fail[of now sub h e d d'] dis by auto
  show ?thesis using dgood_fail[OF g v nx d'] False by (simp add: ack_def)
qed

lemma dgood_step:
  assumes g: "dgood sub start dn sk seen d" and h: "handler_ok h"
    and st: "sub_step owner ttl now sub h d = (w, r, d')"
  shows "dgood sub start (dn @ ack r) sk (seen \<union> set (ev_rows d')) d'"
proof -
  let ?d1 = "snd (acquireLease owner ttl now (ds_name sub) d)"
  note g1 = dgood_acquire[OF g, of owner ttl now "ds_name sub"]
  have lo: "log_ok ?d1" using g1 by (simp add: dgood_def dbase_def)
  from st show ?thesis
  proof (cases rule: sub_step_cases)
    case idle
    then show ?thesis using g1 dgood_rows[OF g1] by (simp add: ack_def)
  next
    case (skip c k)
    then have "cview (ds_name sub) ?d1 = Some (cu_last c, cu_state c, cu_failed c)"
      by (simp add: cview_def)
    from dgood_skip[OF g1 this skip(3,4,5)] have "dgood sub start dn sk seen d'" using skip(6) by simp
    then show ?thesis using skip(1) dgood_rows by (fastforce simp: ack_def)
  next
    case (run c e es ok)
    then have "cview (ds_name sub) ?d1 = Some (cu_last c, cu_state c, cu_failed c)"
      by (simp add: cview_def)
    from dgood_dispatch[OF g1 h this run(3) readAfter_next[OF lo run(4)] run(6)]
    show ?thesis using run(1) by simp
  qed
qed

lemma dispatch_other:
  assumes "handler_ok g" "dispatch now other g e d = (ok, d')" "n \<noteq> ds_name other" "0 \<le> ev_id e"
    "cview n d = Some v" "cursors_nonneg d"
  shows "log_grows d d' \<and> cursors_nonneg d' \<and> cview n d' = Some v"
proof (cases ok)
  case True
  obtain d2 where d2: "log_grows d d2" "cview n d2 = cview n d"
      "cursors_nonneg d2 = cursors_nonneg d" "d' = advanceTx now (ds_name other) (ev_id e) d2"
    using dispatch_ok[OF assms(1), of now other e d d' n] assms(2) True by auto
  have "log_grows d2 d'" by (rule log_grows_same) (simp_all add: d2)
  then show ?thesis
    using d2 assms log_grows_trans[OF d2(1)] by (cases v) (simp add: advanceTx_nonneg)
next
  case False
  then obtain msg where d': "d' = snd (recordFailure now other e msg d)"
    using dispatch_fail[of now other g e d d'] assms(2) by auto
  obtain l st fl where v: "v = (l, st, fl)" by (cases v)
  show ?thesis
    using recordFailure_cases[OF assms(5)[unfolded v], of now other e msg] assms(3,6) d' v by auto
qed

lemma sub_step_other:
  assumes h: "handler_ok g" and st: "sub_step owner ttl now other g d = (w, r, d')"
    and n: "n \<noteq> ds_name other" and v: "cview n d = Some v" and b: "cursors_nonneg d" "log_ok d"
  shows "log_grows d d' \<and> cursors_nonneg d' \<and> cview n d' = Some v"
proof -
  let ?d1 = "snd (acquireLease owner ttl now (ds_name other) d)"
  have g1: "log_grows d ?d1" by (rule log_grows_same) simp_all
  have lo: "log_ok ?d1" using b(2) by (simp add: log_ok_def)
  from st show ?thesis
  proof (cases rule: sub_step_cases)
    case idle
    then show ?thesis using g1 v b by simp
  next
    case (skip c k)
    have "log_grows ?d1 d'" by (rule log_grows_same) (simp_all add: skip(6))
    then show ?thesis
      using skip(5,6) log_grows_trans[OF g1] v b n by (cases v) (simp add: advanceTx_nonneg)
  next
    case (run c e es ok)
    have "0 \<le> ev_id e"
      using readAfter_next[OF lo run(4)] b(2) by (force simp: next_row_def log_ok_def)
    from dispatch_other[OF h run(6) n this, of v] show ?thesis
      using v b log_grows_trans[OF g1] by simp
  qed
qed

lemma dgood_nonneg: "dgood sub start dn sk seen d \<Longrightarrow> cursors_nonneg d \<and> log_ok d"
  by (simp add: dgood_def dbase_def)

lemma dinv_step:
  assumes "dur_step sub h s s'" "handler_ok h" "dinv sub start s"
  shows "dinv sub start s'"
  using assms(1)
proof cases
  case (du_publish now i r d')
  then have d': "d' = snd (PublishTx now i (sy_db s))" by simp
  show ?thesis
    using dgood_grows[OF assms(3)[unfolded dinv_def], of d'] PublishTx_grows[of "sy_db s" now i]
      dgood_nonneg[OF assms(3)[unfolded dinv_def]] du_publish(1) d'
    by (simp add: dinv_def)
next
  case (du_step owner ttl now w r d')
  then show ?thesis using dgood_step[OF assms(3)[unfolded dinv_def] assms(2) du_step(2)] by (simp add: dinv_def)
next
  case (du_other other g owner ttl now w r d')
  obtain v where v: "cview (ds_name sub) (sy_db s) = Some v"
    using assms(3) by (auto simp: dinv_def dgood_def)
  show ?thesis
    using sub_step_other[OF du_other(3,4) du_other(2)[symmetric] v]
      dgood_nonneg[OF assms(3)[unfolded dinv_def]] dgood_grows[OF assms(3)[unfolded dinv_def], of d'] v du_other(1)
    by (simp add: dinv_def)
next
  case (du_retry now r d')
  then show ?thesis using dgood_retry[OF assms(3)[unfolded dinv_def] du_retry(2)] by (simp add: dinv_def)
next
  case (du_skip now d' l st fl)
  then show ?thesis using dgood_skip_paused[OF assms(3)[unfolded dinv_def] du_skip(3,2)] by (simp add: dinv_def)
next
  case (du_retention now keep rep d')
  then show ?thesis using dgood_retention[OF assms(3)[unfolded dinv_def] du_retention(2)] by (simp add: dinv_def)
qed


lemma dinv_run:
  "(dur_step sub h)\<^sup>*\<^sup>* s s' \<Longrightarrow> handler_ok h \<Longrightarrow> dinv sub start s \<Longrightarrow> dinv sub start s'"
  by (induction rule: rtranclp_induct) (auto intro: dinv_step)

lemma dinv_init:
  assumes "log_ok d" "cursors_nonneg d" "cview (ds_name sub) d = Some (start, CursorActive, fl)"
    "start \<le> ev_seq d"
  shows "dinv sub start \<lparr>sy_db = d, sy_done = [], sy_skipped = [], sy_seen = set (ev_rows d)\<rparr>"
proof -
  have "0 \<le> start" using assms(2,3) by (auto simp: cview_def cursors_nonneg_def dest: sql_find_Some)
  then show ?thesis using assms by (auto simp: dinv_def dgood_def dbase_def dcore_def log_ok_def)
qed

section \<open>Properties\<close>


definition w_cursor :: cursor_row where
  "w_cursor = \<lparr>cu_subscriber = ''core.x'', cu_pattern = ''core.**'', cu_last = 0, cu_state = CursorActive,
     cu_failed = 0, cu_attempts = 0, cu_retry_at = None, cu_last_error = [], cu_lease_owner = [],
     cu_lease_until = None, cu_updated = rfc 0\<rparr>"

definition w_sub :: durable_sub where
  "w_sub = \<lparr>ds_name = ''core.x'', ds_pattern = \<lparr>raw = ''core.**'', segs = [''core'', ''**'']\<rparr>,
     ds_retry = DefaultRetry\<rparr>"

definition w_input :: input where
  "w_input = \<lparr>in_type = ''core.job.done'', in_source = ''core.jobs'', in_subject = ''a'', in_payload = NoPayload\<rparr>"

definition w_db :: event_db where
  "w_db = snd (PublishTx 0 w_input (empty_event_db\<lparr>ev_cursors := [w_cursor]\<rparr>))"

lemma w_db_facts:
  "log_ok w_db" "cursors_nonneg w_db" "cview ''core.x'' w_db = Some (0, CursorActive, 0)"
  "ev_seq w_db = 1" "fst (snd (sub_step ''p'' 30 0 w_sub (Plain (\<lambda>_. Inr ())) w_db)) = Some (hd (ev_rows w_db), True)"
  "ev_id (hd (ev_rows w_db)) = 1"
  by code_simp+



text \<open>
  Dispatch leases exclude each other: once a process holds the lease of a subscriber, no
  other process gets it, or changes the cursor by asking, until the lease runs out, up to
  the second in which it does.
\<close>

theorem lease_exclusion:
  assumes "acquireLease a ttl now name d = (True, d1)" "a \<noteq> []" "b \<noteq> a" "cursors_nonneg d"
    "year_ok (now + ttl)" "year_ok now'" "sec_of now' < sec_of (now + ttl)"
  shows "acquireLease b ttl' now' name d1 = (False, d1)"
proof -
  let ?P = "lease_free name a (rfc now)"
  let ?f = "\<lambda>c. c\<lparr>cu_lease_owner := a, cu_lease_until := Some (rfc (now + ttl)), cu_updated := rfc now\<rparr>"
  have d1: "d1 = d\<lparr>ev_cursors := sql_update ?P ?f (ev_cursors d)\<rparr>"
    and "0 < sql_count ?P (ev_cursors d)" using assms(1) by (simp_all add: acquireLease_def Let_def)
  then obtain c0 where c0: "c0 \<in> set (ev_cursors d)" "?P c0"
    by (auto simp: sql_count_def filter_empty_conv)
  have "\<not> rfc (now + ttl) < rfc now'"
    using rfc_less[OF assms(5,6)] assms(7) by (auto simp: sec_of_def dest!: zdiv_mono1)
  then have taken: "\<not> lease_free name b (rfc now') (?f c)" for c
    using assms(2,3) by (simp add: lease_free_def)
  have "\<not> lease_free name b (rfc now') c" if m: "c \<in> set (ev_cursors d1)" for c
  proof
    assume f: "lease_free name b (rfc now') c"
    then obtain c1 where c1: "c1 \<in> set (ev_cursors d)" "c = (if ?P c1 then ?f c1 else c1)"
      using in_sql_update[of c ?P ?f "ev_cursors d"] m by (auto simp: d1)
    then have "cu_subscriber c1 = name" using f by (auto simp: lease_free_def split: if_splits)
    then have "c1 = c0" using c0 c1(1) assms(4) unfolding cursors_nonneg_def
      by (metis (no_types, lifting) distinct_map inj_onD lease_free_def)
    then show False using c0(2) c1(2) f taken by simp
  qed
  then show ?thesis by (simp add: acquireLease_def Let_def sql_count_def sql_update_def map_idI)
qed

theorem lease_exclusion_witness:
  "acquireLease ''q'' 30000000000 5000000000 ''core.x''
     (snd (acquireLease ''p'' 30000000000 0 ''core.x'' w_db)) =
   (False, snd (acquireLease ''p'' 30000000000 0 ''core.x'' w_db))"
proof (rule lease_exclusion[of "''p''" 30000000000 0 "''core.x''" w_db])
  show "acquireLease ''p'' 30000000000 0 ''core.x'' w_db =
      (True, snd (acquireLease ''p'' 30000000000 0 ''core.x'' w_db))" by code_simp
  show "cursors_nonneg w_db" by (rule w_db_facts)
  show "year_ok (0 + 30000000000)" "year_ok 5000000000" "sec_of 5000000000 < sec_of (0 + 30000000000)"
    by code_simp+
qed simp_all

text \<open>
  The retry schedule: for a policy that passed validation with a cap below half the range of
  a duration, the delay before attempt \<open>n\<close> is the initial delay doubled \<open>n - 1\<close> times, capped;
  so it is positive, never above the cap and never shrinks.
\<close>

theorem retry_delay_schedule:
  assumes "retry_validate p" "rp_maximum p < 2 ^ 62" "1 \<le> n"
  shows "retry_delay p n = min (rp_maximum p) (rp_initial p * 2 ^ nat (n - 1)) \<and>
    0 < retry_delay p n \<and> retry_delay p n \<le> retry_delay p (n + 1)"
proof -
  have v: "0 < rp_initial p" "rp_initial p \<le> rp_maximum p"
    using assms(1) by (auto simp: retry_validate_def split: if_splits)
  have e: "retry_delay p m = min (rp_maximum p) (rp_initial p * 2 ^ nat (m - 1))" for m
    using double_loop_eq[OF v assms(2)] v by (simp add: retry_delay_def)
  have "(2 :: int) ^ nat (n - 1) \<le> 2 ^ nat n" by (intro power_increasing) auto
  then have "rp_initial p * 2 ^ nat (n - 1) \<le> rp_initial p * 2 ^ nat n"
    using v by (intro mult_left_mono) auto
  moreover have "0 < rp_initial p * 2 ^ nat (n - 1)" using v by simp
  moreover have "0 < min M x \<and> min M x \<le> min M y" if "x \<le> y" "0 < x" "0 < M" for M x y :: int
    using that by auto
  ultimately show ?thesis using v e[of "n + 1"] by (simp only: e add_diff_cancel_right')
qed

theorem retry_delay_schedule_witness: "retry_delay DefaultRetry 4 = seconds 8"
  using retry_delay_schedule[of DefaultRetry 4] by (simp add: DefaultRetry_def retry_validate_def)

text \<open>
  Stored times are compared as text, and within one second that order is not the order of
  time: a lease that lasts until half past a second counts as expired on the second's start,
  so a second process can take it while the first still holds it.
\<close>

lemma lease_stolen_early:
  "\<exists>d :: event_db. fst (acquireLease ''p'' 30500000000 0 ''core.x'' d) \<and>
     fst (acquireLease ''q'' 30000000000 30000000000 ''core.x''
       (snd (acquireLease ''p'' 30500000000 0 ''core.x'' d)))"
proof -
  have "fst (acquireLease ''p'' 30500000000 0 ''core.x'' w_db)"
    "fst (acquireLease ''q'' 30000000000 30000000000 ''core.x''
       (snd (acquireLease ''p'' 30500000000 0 ''core.x'' w_db)))"
    by code_simp+
  then show ?thesis by blast
qed

end
