(* ===== verification/CC_Net.thy ===== *)
theory CC_Net
  imports CC_Prelude
begin

text \<open>
  The parts of Go's \<^verbatim>\<open>net\<close> and \<^verbatim>\<open>net/url\<close> that the gates of the browser and of search use:
  the host and port of a parsed URL, \<^verbatim>\<open>net.SplitHostPort\<close>, \<^verbatim>\<open>net.ParseIP\<close> and the predicates on addresses.
  An address is its list of bytes (\<^verbatim>\<open>net.IP\<close>); parsing always yields the 16-byte form.
\<close>

section \<open>Addresses\<close>

type_synonym ip = "int list"

definition v4_in_v6 :: ip where
  "v4_in_v6 = replicate 10 0 @ [255, 255]"

definition To4 :: "ip \<Rightarrow> ip option" where
  "To4 ip = (if length ip = 4 then Some ip
             else if length ip = 16 \<and> take 12 ip = v4_in_v6 then Some (drop 12 ip) else None)"

definition octet :: "string \<Rightarrow> int option" where
  \<comment> \<open>one to three digits, no leading zero, at most 255\<close>
  "octet s = (case parse_digits s of None \<Rightarrow> None
     | Some n \<Rightarrow> if 255 < n \<or> (1 < length s \<and> hd s = CHR ''0'') \<or> 3 < length s then None else Some n)"

definition parse_ipv4 :: "string \<Rightarrow> ip option" where
  "parse_ipv4 s =
     (let os = map octet (split_on (CHR ''.'') s) in
      if length os = 4 \<and> list_all (\<lambda>x. x \<noteq> None) os then Some (map the os) else None)"

definition hex_val :: "char \<Rightarrow> int option" where
  "hex_val c = (if is_digit c then Some (digit_val c)
     else if CHR ''a'' \<le> c \<and> c \<le> CHR ''f'' then Some (int (of_char c) - 87)
     else if CHR ''A'' \<le> c \<and> c \<le> CHR ''F'' then Some (int (of_char c) - 55) else None)"

fun hex_group :: "nat \<Rightarrow> int \<Rightarrow> string \<Rightarrow> (nat \<times> int \<times> string) option" where
  \<comment> \<open>digits read, their value, the rest; more than four digits fail\<close>
  "hex_group n acc [] = Some (n, acc, [])"
| "hex_group n acc (c # s) =
     (case hex_val c of None \<Rightarrow> Some (n, acc, c # s)
      | Some v \<Rightarrow> if 3 < n then None else hex_group (Suc n) (acc * 16 + v) s)"

function v6_loop :: "ip \<Rightarrow> nat option \<Rightarrow> string \<Rightarrow> (ip \<times> nat option) option" where
  \<comment> \<open>the main loop of \<^verbatim>\<open>netip.parseIPv6\<close>: bytes so far, position of the ellipsis, rest of the text\<close>
  "v6_loop ip el s =
     (if 16 \<le> length ip then (if s = [] then Some (ip, el) else None)
      else case hex_group 0 0 s of
        None \<Rightarrow> None
      | Some (n, acc, r) \<Rightarrow>
          if n = 0 then None
          else if r \<noteq> [] \<and> hd r = CHR ''.'' then
            (if (el = None \<and> length ip \<noteq> 12) \<or> 16 < length ip + 4 then None
             else case parse_ipv4 s of None \<Rightarrow> None | Some v \<Rightarrow> Some (ip @ v, el))
          else
            (let ip1 = ip @ [acc div 256, acc mod 256] in
             case r of
               [] \<Rightarrow> Some (ip1, el)
             | c # r1 \<Rightarrow>
                 if c \<noteq> CHR '':'' \<or> r1 = [] then None
                 else if hd r1 = CHR '':'' then
                   (if el \<noteq> None then None
                    else if tl r1 = [] then Some (ip1, Some (length ip1))
                    else v6_loop ip1 (Some (length ip1)) (tl r1))
                 else v6_loop ip1 el r1))"
  by pat_completeness auto
termination
  by (relation "measure (\<lambda>(ip, _, _). 16 - length ip)") auto

declare v6_loop.simps [simp del]

definition parse_ipv6 :: "string \<Rightarrow> ip option" where
  "parse_ipv6 s0 =
     (let (el, s) = (if has_prefix s0 ''::'' then (Some 0, drop 2 s0) else (None, s0)) in
      if el \<noteq> None \<and> s = [] then Some (replicate 16 0)
      else case v6_loop [] el s of
        None \<Rightarrow> None
      | Some (ip, el1) \<Rightarrow>
          if length ip < 16 then
            (case el1 of None \<Rightarrow> None
             | Some k \<Rightarrow> Some (take k ip @ replicate (16 - length ip) 0 @ drop k ip))
          else if el1 \<noteq> None then None else Some ip)"

definition ParseIP :: "string \<Rightarrow> ip option" where
  \<comment> \<open>the first of the three characters decides; an address with a zone is refused\<close>
  "ParseIP s =
     (case dropWhile (\<lambda>c. c \<notin> {CHR ''.'', CHR '':'', CHR ''%''}) s of
        [] \<Rightarrow> None
      | c # _ \<Rightarrow>
          if c = CHR ''.'' then map_option (\<lambda>v. v4_in_v6 @ v) (parse_ipv4 s)
          else if c = CHR '':'' then (if CHR ''%'' \<in> set s then None else parse_ipv6 s)
          else None)"

definition IsLoopback :: "ip \<Rightarrow> bool" where
  "IsLoopback ip = (case To4 ip of Some v \<Rightarrow> v ! 0 = 127 | None \<Rightarrow> ip = replicate 15 0 @ [1])"

definition IsPrivate :: "ip \<Rightarrow> bool" where
  "IsPrivate ip = (case To4 ip of
      Some v \<Rightarrow> v ! 0 = 10 \<or> (v ! 0 = 172 \<and> (v ! 1) div 16 = 1) \<or> (v ! 0 = 192 \<and> v ! 1 = 168)
    | None \<Rightarrow> length ip = 16 \<and> (ip ! 0) div 2 = 126)"

definition IsLinkLocalUnicast :: "ip \<Rightarrow> bool" where
  "IsLinkLocalUnicast ip = (case To4 ip of
      Some v \<Rightarrow> v ! 0 = 169 \<and> v ! 1 = 254
    | None \<Rightarrow> length ip = 16 \<and> ip ! 0 = 254 \<and> (ip ! 1) div 64 = 2)"

definition IsLinkLocalMulticast :: "ip \<Rightarrow> bool" where
  "IsLinkLocalMulticast ip = (case To4 ip of
      Some v \<Rightarrow> v ! 0 = 224 \<and> v ! 1 = 0 \<and> v ! 2 = 0
    | None \<Rightarrow> length ip = 16 \<and> ip ! 0 = 255 \<and> (ip ! 1) mod 16 = 2)"

definition IsUnspecified :: "ip \<Rightarrow> bool" where
  "IsUnspecified ip \<longleftrightarrow> To4 ip = Some [0, 0, 0, 0] \<or> ip = replicate 16 0"

section \<open>URLs\<close>

record url =
  u_scheme :: string
  u_host :: string
  u_user :: "string option" \<comment> \<open>the userinfo, if there is one\<close>
  u_rest :: string \<comment> \<open>path and query\<close>
  u_fragment :: string

definition split_url_host :: "string \<Rightarrow> string \<times> string" where
  \<comment> \<open>\<^verbatim>\<open>url.splitHostPort\<close>\<close>
  "split_url_host hp =
     (let (host, port) =
        (case cut_last (CHR '':'') hp of
           None \<Rightarrow> (hp, [])
         | Some (h, p) \<Rightarrow> if list_all is_digit p then (h, p) else (hp, []))
      in (if has_prefix host ''['' \<and> has_suffix host '']'' \<and> 1 < length host then butlast (tl host) else host, port))"

definition Hostname :: "url \<Rightarrow> string" where
  "Hostname u = fst (split_url_host (u_host u))"

definition Port :: "url \<Rightarrow> string" where
  "Port u = snd (split_url_host (u_host u))"

definition SplitHostPort :: "string \<Rightarrow> (string \<times> string) option" where
  "SplitHostPort hp =
     (case cut_last (CHR '':'') hp of
        None \<Rightarrow> None
      | Some (h, p) \<Rightarrow>
          if has_prefix hp ''['' then
            (case cut (CHR '']'') hp of
               None \<Rightarrow> None
             | Some (a, b) \<Rightarrow>
                 \<comment> \<open>the closing bracket has to be right before the last colon\<close>
                 if b = CHR '':'' # p \<and> CHR ''['' \<notin> set (tl a) \<and> CHR ''['' \<notin> set p \<and> CHR '']'' \<notin> set p then Some (tl a, p) else None)
          else if CHR '':'' \<in> set h \<or> CHR ''['' \<in> set hp \<or> CHR '']'' \<in> set hp then None
          else Some (h, p))"

lemma parse_ipv4_length: "parse_ipv4 s = Some v \<Longrightarrow> length v = 4"
  by (auto simp: parse_ipv4_def Let_def split: if_splits)

end
