(* ===== verification/Notify_Template.thy ===== *)
theory Notify_Template
  imports Complex_Main Events_Log CC_Net
begin

text \<open>
  \<^verbatim>\<open>internal/core/notifications/template.go\<close> and the validators of \<^verbatim>\<open>validate.go\<close>: the templates of
  a rule, their interpolation with an event, the application-relative URLs of notifications, identifiers and
  uniqueness keys. The loop of \<open>interpolate\<close> is proved equal to parsing the template into pieces and evaluating
  them; what an accepted URL can look like is stated exactly, with the two ways it can leave the intended form.
\<close>

section \<open>Rooted references of \<^verbatim>\<open>net/url\<close>\<close>

definition is_alnum :: "char \<Rightarrow> bool" where
  "is_alnum c \<longleftrightarrow> is_lower c \<or> is_upper c \<or> is_digit c"

definition path_plain :: "char \<Rightarrow> bool" where
  \<comment> \<open>\<^verbatim>\<open>!shouldEscape(c, encodePath)\<close>\<close>
  "path_plain c \<longleftrightarrow> is_alnum c \<or> c \<in> set ''-_.~$&+,/:;=@''"

definition upper_hex :: "nat \<Rightarrow> char" where
  "upper_hex n = (if n < 10 then char_of (48 + n) else char_of (55 + n))"

definition path_escape :: "string \<Rightarrow> string" where
  \<comment> \<open>\<^verbatim>\<open>escape(s, encodePath)\<close>\<close>
  "path_escape s = concat (map (\<lambda>c. if path_plain c then [c]
     else [CHR ''%'', upper_hex (of_char c div 16), upper_hex (of_char c mod 16)]) s)"

fun path_unescape :: "string \<Rightarrow> string option" where
  \<comment> \<open>\<^verbatim>\<open>unescape(s, mode)\<close> for a path or a fragment\<close>
  "path_unescape [] = Some []"
| "path_unescape (c # s) =
     (if c = CHR ''%'' then
        (case s of
           h # l # r \<Rightarrow>
             (case (hex_val h, hex_val l) of
                (Some a, Some b) \<Rightarrow> map_option (Cons (char_of (nat (16 * a + b)))) (path_unescape r)
              | _ \<Rightarrow> None)
         | _ \<Rightarrow> None)
      else map_option (Cons c) (path_unescape s))"

definition valid_encoded :: "string \<Rightarrow> bool" where
  \<comment> \<open>\<^verbatim>\<open>validEncoded(s, encodePath)\<close>\<close>
  "valid_encoded s = list_all (\<lambda>c. c \<in> set ''!$&()*+,;=:@[]%'' \<or> c = CHR 0x27 \<or> path_plain c) s"

record rel_url =
  ru_path :: string
  ru_raw :: string \<comment> \<open>\<^verbatim>\<open>RawPath\<close>\<close>
  ru_force :: bool \<comment> \<open>\<^verbatim>\<open>ForceQuery\<close>\<close>
  ru_query :: string

definition before :: "char \<Rightarrow> string \<Rightarrow> string \<times> string" where
  \<comment> \<open>\<^verbatim>\<open>a, b, _ := strings.Cut(s, sep)\<close>\<close>
  "before d s = (case cut d s of None \<Rightarrow> (s, []) | Some p \<Rightarrow> p)"

definition is_ctl :: "char \<Rightarrow> bool" where
  "is_ctl c \<longleftrightarrow> of_char c < (32 :: nat) \<or> of_char c = (127 :: nat)"

definition parse_rooted :: "string \<Rightarrow> rel_url option" where
  \<comment> \<open>\<^verbatim>\<open>url.Parse\<close> of a text that begins with one slash: no scheme, authority or opaque part\<close>
  "parse_rooted src =
     (let (u, frag) = before (CHR ''#'') src in
      if list_ex is_ctl u then None
      else
        (let force = (has_suffix u ''?'' \<and> length (filter (\<lambda>c. c = CHR ''?'') u) = 1);
             (p, q) = (if force then (butlast u, []) else before (CHR ''?'') u)
         in case path_unescape p of
              None \<Rightarrow> None
            | Some path \<Rightarrow>
                if frag \<noteq> [] \<and> path_unescape frag = None then None
                else Some \<lparr>ru_path = path, ru_raw = (if p = path_escape path then [] else p),
                       ru_force = force, ru_query = q\<rparr>))"

definition EscapedPath :: "rel_url \<Rightarrow> string" where
  "EscapedPath u =
     (if ru_raw u \<noteq> [] \<and> valid_encoded (ru_raw u) \<and> path_unescape (ru_raw u) = Some (ru_path u) then ru_raw u
      else if ru_path u = ''*'' then ''%2A'' else path_escape (ru_path u))"

definition RequestURI :: "rel_url \<Rightarrow> string" where
  "RequestURI u =
     (let p = EscapedPath u; r = (if p = [] then ''/'' else p) in
      if ru_force u \<or> ru_query u \<noteq> [] then r @ ''?'' @ ru_query u else r)"

section \<open>Events as templates see them\<close>

datatype any =
    AnyNil | AnyBool bool | AnyNum rat | AnyStr string
  | AnyArr "any list" | AnyMap "(string \<times> any) list"
  \<comment> \<open>what \<^verbatim>\<open>json.Unmarshal\<close> into \<^verbatim>\<open>any\<close> makes; a number is the exact value of its \<^verbatim>\<open>float64\<close>\<close>

record num_text =
  nt_fixed :: "rat \<Rightarrow> string" \<comment> \<open>\<^verbatim>\<open>strconv.FormatFloat(t, 'f', -1, 64)\<close>\<close>
  nt_value :: "rat \<Rightarrow> string" \<comment> \<open>\<^verbatim>\<open>fmt\<close>'s \<^verbatim>\<open>%v\<close> of a \<^verbatim>\<open>float64\<close>\<close>

datatype notify_error =
    ErrUnknownRule | ErrUnknownChannel | ErrUnknownNotif | ErrInvalidRule string | ErrInvalidChannel string
  | ErrNoActor | ErrDuplicateID | ErrInvalidURL | ErrInvalidTemplate string | ErrInvalidWhere
  | ErrNotifyEvent events_error | ErrInvalidPushSubscription

fun walk :: "any \<Rightarrow> string list \<Rightarrow> any" where
  "walk cur [] = cur"
| "walk cur (p # parts) =
     (if p = [] then AnyNil
      else case cur of
        AnyMap m \<Rightarrow> walk (case map_of m p of None \<Rightarrow> AnyNil | Some v \<Rightarrow> v) parts
      | _ \<Rightarrow> AnyNil)"

fun sprint :: "num_text \<Rightarrow> any \<Rightarrow> string" where
  \<comment> \<open>\<^verbatim>\<open>fmt.Sprint\<close>; a map is printed in the order of its keys\<close>
  "sprint nt AnyNil = ''<nil>''"
| "sprint nt (AnyBool b) = (if b then ''true'' else ''false'')"
| "sprint nt (AnyNum r) = nt_value nt r"
| "sprint nt (AnyStr s) = s"
| "sprint nt (AnyArr xs) = ''['' @ join_with '' '' (map (sprint nt) xs) @ '']''"
| "sprint nt (AnyMap kvs) =
     ''map['' @ join_with '' ''
        (map (\<lambda>(k, v). k @ '':'' @ v) (sort_key fst (map (\<lambda>(k, v). (k, sprint nt v)) kvs))) @ '']''"

definition stringify :: "num_text \<Rightarrow> any \<Rightarrow> string" where
  "stringify nt v =
     (case v of
        AnyNil \<Rightarrow> []
      | AnyStr s \<Rightarrow> s
      | AnyNum r \<Rightarrow> if r = of_int \<lfloor>r\<rfloor> \<and> in_i64 \<lfloor>r\<rfloor> then show_int \<lfloor>r\<rfloor> else nt_fixed nt r
      | AnyBool b \<Rightarrow> if b then ''true'' else ''false''
      | _ \<Rightarrow> sprint nt v)"

definition escapePlain :: "string \<Rightarrow> string" where
  "escapePlain = filter (\<lambda>c. \<not> (of_char c < (32 :: nat) \<and> c \<noteq> CHR 0x0A \<and> c \<noteq> CHR 0x09))"

definition lookupPath :: "num_text \<Rightarrow> event \<Rightarrow> any \<Rightarrow> int \<Rightarrow> string \<Rightarrow> notify_error + string" where
  "lookupPath nt e payload collapsed path =
     (if path = ''collapsed'' then Inr (show_int collapsed)
      else if path = ''event.id'' then Inr (show_int (ev_id e))
      else if path = ''event.type'' then Inr (ev_type e)
      else if path = ''event.source'' then Inr (ev_source e)
      else if path = ''event.subject'' then Inr (ev_subject e)
      else if has_prefix path ''event.payload.'' then
        Inr (stringify nt (walk payload (split_on CHR ''.'' (trim_prefix path ''event.payload.''))))
      else if path = ''event.payload'' then Inr (stringify nt payload)
      else Inl (ErrInvalidTemplate ''unknown path''))"

section \<open>Templates\<close>

function interpolate :: "(string \<Rightarrow> notify_error + string) \<Rightarrow> string \<Rightarrow> notify_error + string" where
  \<comment> \<open>the first argument is \<^verbatim>\<open>lookupPath\<close> at the event\<close>
  "interpolate look rest =
     (case cut CHR ''{'' rest of
        None \<Rightarrow> Inr rest
      | Some (a, r1) \<Rightarrow>
          (case cut CHR ''}'' r1 of
             None \<Rightarrow> Inl (ErrInvalidTemplate ''unmatched'')
           | Some (path, r2) \<Rightarrow>
               (case look path of
                  Inl err \<Rightarrow> Inl err
                | Inr val \<Rightarrow>
                    (case interpolate look r2 of
                       Inl err \<Rightarrow> Inl err
                     | Inr out \<Rightarrow> Inr (a @ escapePlain val @ out)))))"
  by pat_completeness auto
termination
  by (relation "measure (\<lambda>(_, s). length s)") (auto dest!: cut_length)

function validateTemplate :: "string \<Rightarrow> notify_error + unit" where
  "validateTemplate rest =
     (case cut CHR ''{'' rest of
        None \<Rightarrow> Inr ()
      | Some (_, r1) \<Rightarrow>
          (case cut CHR ''}'' r1 of
             None \<Rightarrow> Inl (ErrInvalidTemplate ''unmatched'')
           | Some (path, r2) \<Rightarrow>
               if path \<noteq> ''collapsed'' \<and> \<not> has_prefix path ''event.'' then Inl (ErrInvalidTemplate ''unknown path'')
               else if contains_any path [CHR '' '', CHR 0x09, CHR 0x0A] then Inl (ErrInvalidTemplate ''whitespace'')
               else validateTemplate r2))"
  by pat_completeness auto
termination
  by (relation "measure length") (auto dest!: cut_length)

function templateURLProbe :: "string \<Rightarrow> string" where
  "templateURLProbe src =
     (case cut CHR ''{'' src of
        None \<Rightarrow> src
      | Some (a, rest) \<Rightarrow>
          (case cut CHR ''}'' rest of
             None \<Rightarrow> a @ rest
           | Some (_, r2) \<Rightarrow> a @ ''x'' @ templateURLProbe r2))"
  by pat_completeness auto
termination
  by (relation "measure length") (auto dest!: cut_length)

declare interpolate.simps [simp del] validateTemplate.simps [simp del] templateURLProbe.simps [simp del]

definition validateStaticURL :: "string \<Rightarrow> notify_error + string" where
  "validateStaticURL src =
     (if CHR 0x5C \<in> set src \<or> contains_sub src ''://'' \<or> has_prefix src ''//'' then Inl ErrInvalidURL
      else if \<not> has_prefix src ''/'' then Inl ErrInvalidURL
      else case parse_rooted src of
        None \<Rightarrow> Inl ErrInvalidURL
      | Some u \<Rightarrow> if contains_sub (ru_path u) ''..'' then Inl ErrInvalidURL else Inr (RequestURI u))"

definition validateURL :: "string \<Rightarrow> notify_error + string" where
  "validateURL src =
     (if src = [] then Inr []
      else if contains_any src ''{}'' then
        (case validateTemplate src of
           Inl err \<Rightarrow> Inl err
         | Inr _ \<Rightarrow>
             (let probe = templateURLProbe src in
              if \<not> has_prefix probe ''/'' \<and> \<not> has_prefix src ''{'' then Inl ErrInvalidURL
              else case validateStaticURL (if has_prefix probe ''/'' then probe else ''/'' @ probe) of
                Inl err \<Rightarrow> Inl err
              | Inr _ \<Rightarrow> Inr src))
      else validateStaticURL src)"

definition renderURL :: "(string \<Rightarrow> notify_error + string) \<Rightarrow> string \<Rightarrow> notify_error + string" where
  "renderURL look tmpl =
     (if tmpl = [] then Inr []
      else case interpolate look tmpl of Inl err \<Rightarrow> Inl err | Inr rendered \<Rightarrow> validateURL rendered)"

section \<open>Pieces\<close>

text \<open>
  \<open>pieces\<close> parses a template into literal text and holes; \<open>piece_val\<close> is what a piece renders to. This is
  the meaning the two scanning loops are compared with.
\<close>

datatype piece = Lit string | Hole string

function pieces :: "string \<Rightarrow> piece list option" where
  "pieces s =
     (case cut CHR ''{'' s of
        None \<Rightarrow> Some [Lit s]
      | Some (a, r1) \<Rightarrow>
          (case cut CHR ''}'' r1 of
             None \<Rightarrow> None
           | Some (p, r2) \<Rightarrow> (case pieces r2 of None \<Rightarrow> None | Some ps \<Rightarrow> Some (Lit a # Hole p # ps))))"
  by pat_completeness auto
termination
  by (relation "measure length") (auto dest!: cut_length)

declare pieces.simps [simp del]

fun piece_text :: "piece \<Rightarrow> string" where
  "piece_text (Lit s) = s"
| "piece_text (Hole p) = ''{'' @ p @ ''}''"

fun piece_val :: "(string \<Rightarrow> notify_error + string) \<Rightarrow> piece \<Rightarrow> string" where
  "piece_val look (Lit s) = s"
| "piece_val look (Hole p) = (case look p of Inl _ \<Rightarrow> [] | Inr v \<Rightarrow> escapePlain v)"

definition holes :: "piece list \<Rightarrow> string set" where
  "holes ps = {p. Hole p \<in> set ps}"

lemma holes_simps [simp]:
  "holes [] = {}" "holes (Lit s # ps) = holes ps" "holes (Hole p # ps) = insert p (holes ps)"
  by (auto simp: holes_def)

lemma pieces_unparse: "pieces s = Some ps \<Longrightarrow> concat (map piece_text ps) = s"
proof (induction s arbitrary: ps rule: pieces.induct)
  case (1 s)
  show ?case
  proof (cases "cut CHR ''{'' s")
    case None
    with "1.prems" show ?thesis by (auto simp: pieces.simps[of s])
  next
    case (Some x)
    then obtain a r1 where x: "cut CHR ''{'' s = Some (a, r1)" by (cases x) simp
    with "1.prems" obtain p r2 qs where y: "cut CHR ''}'' r1 = Some (p, r2)" "pieces r2 = Some qs"
      "ps = Lit a # Hole p # qs"
      by (auto simp: pieces.simps[of s] split: option.splits prod.splits)
    have "concat (map piece_text qs) = r2"
      by (rule "1.IH"[OF x refl y(1) refl y(2)])
    moreover have "s = a @ CHR ''{'' # r1" "r1 = p @ CHR ''}'' # r2"
      using x y(1) by (simp_all add: cut_Some_iff)
    ultimately show ?thesis using y(3) by simp
  qed
qed

lemma interpolate_pieces:
  "interpolate look s = Inr out \<longleftrightarrow>
   (\<exists>ps. pieces s = Some ps \<and> (\<forall>p \<in> holes ps. \<exists>v. look p = Inr v) \<and> out = concat (map (piece_val look) ps))"
proof (induction look s arbitrary: out rule: interpolate.induct)
  case (1 look s)
  show ?case
  proof (cases "cut CHR ''{'' s")
    case None
    then show ?thesis by (auto simp: interpolate.simps[of look s] pieces.simps[of s])
  next
    case (Some x)
    then obtain a r1 where x: "cut CHR ''{'' s = Some (a, r1)" by (cases x) simp
    show ?thesis
    proof (cases "cut CHR ''}'' r1")
      case None
      then show ?thesis using x by (simp add: interpolate.simps[of look s] pieces.simps[of s])
    next
      case (Some y)
      then obtain p r2 where y: "cut CHR ''}'' r1 = Some (p, r2)" by (cases y) simp
      show ?thesis
      proof (cases "look p")
        case (Inl err)
        then show ?thesis using x y
          by (auto simp: interpolate.simps[of look s] pieces.simps[of s] split: option.splits)
      next
        case (Inr v)
        have ih: "interpolate look r2 = Inr q \<longleftrightarrow>
          (\<exists>ps. pieces r2 = Some ps \<and> (\<forall>p \<in> holes ps. \<exists>v. look p = Inr v) \<and> q = concat (map (piece_val look) ps))" for q
          by (rule "1.IH"[OF x refl y refl Inr])
        have "interpolate look s = Inr out \<longleftrightarrow> (\<exists>q. interpolate look r2 = Inr q \<and> out = a @ escapePlain v @ q)"
          using x y Inr by (auto simp: interpolate.simps[of look s] split: sum.splits)
        also have "\<dots> \<longleftrightarrow> (\<exists>ps. pieces s = Some ps \<and> (\<forall>p \<in> holes ps. \<exists>v. look p = Inr v) \<and>
            out = concat (map (piece_val look) ps))"
          unfolding ih using x y Inr by (auto simp: pieces.simps[of s] split: option.splits)
        finally show ?thesis .
      qed
    qed
  qed
qed

definition declared_path :: "string \<Rightarrow> bool" where
  \<comment> \<open>what \<^verbatim>\<open>validateTemplate\<close> accepts between braces\<close>
  "declared_path p \<longleftrightarrow> (p = ''collapsed'' \<or> has_prefix p ''event.'') \<and>
     \<not> contains_any p [CHR '' '', CHR 0x09, CHR 0x0A]"

definition known_path :: "string \<Rightarrow> bool" where
  \<comment> \<open>what \<^verbatim>\<open>lookupPath\<close> knows\<close>
  "known_path p \<longleftrightarrow>
     p \<in> {''collapsed'', ''event.id'', ''event.type'', ''event.source'', ''event.subject'', ''event.payload''} \<or>
     has_prefix p ''event.payload.''"

lemma lookupPath_known: "(\<exists>v. lookupPath nt e payload n p = Inr v) \<longleftrightarrow> known_path p"
  by (simp add: lookupPath_def known_path_def)

lemma validateTemplate_pieces:
  "validateTemplate s = Inr () \<longleftrightarrow> (\<exists>ps. pieces s = Some ps \<and> (\<forall>p \<in> holes ps. declared_path p))"
proof (induction s rule: validateTemplate.induct)
  case (1 s)
  show ?case
  proof (cases "cut CHR ''{'' s")
    case None
    then show ?thesis by (simp add: validateTemplate.simps[of s] pieces.simps[of s])
  next
    case (Some x)
    then obtain a r1 where x: "cut CHR ''{'' s = Some (a, r1)" by (cases x) simp
    show ?thesis
    proof (cases "cut CHR ''}'' r1")
      case None
      then show ?thesis using x by (simp add: validateTemplate.simps[of s] pieces.simps[of s])
    next
      case (Some y)
      then obtain p r2 where y: "cut CHR ''}'' r1 = Some (p, r2)" by (cases y) simp
      show ?thesis
      proof (cases "declared_path p")
        case False
        then show ?thesis using x y
          by (auto simp: validateTemplate.simps[of s] pieces.simps[of s] declared_path_def split: option.splits)
      next
        case True
        then have "\<not> (p \<noteq> ''collapsed'' \<and> \<not> has_prefix p ''event.'')"
          "\<not> contains_any p [CHR '' '', CHR 0x09, CHR 0x0A]" by (auto simp: declared_path_def)
        note ih = "1.IH"[OF x refl y refl this]
        show ?thesis using x y True ih
          by (auto simp: validateTemplate.simps[of s] pieces.simps[of s] declared_path_def split: option.splits)
      qed
    qed
  qed
qed

section \<open>Where a URL can point\<close>

lemma hex_upper: "n < 16 \<Longrightarrow> hex_val (upper_hex n) = Some (int n)"
  by (auto simp: hex_val_def upper_hex_def is_digit_def digit_val_def less_eq_char_def)

lemma upper_hex_plain: "n < 16 \<Longrightarrow> is_alnum (upper_hex n)"
  by (auto simp: upper_hex_def is_alnum_def is_digit_def is_upper_def less_eq_char_def)

lemma path_escape_simps [simp]:
  "path_escape [] = []"
  "path_escape (c # s) = (if path_plain c then c # path_escape s
     else CHR ''%'' # upper_hex (of_char c div 16) # upper_hex (of_char c mod 16) # path_escape s)"
  by (simp_all add: path_escape_def)

lemma percent_not_plain [simp]: "\<not> path_plain CHR ''%''"
  by (simp add: path_plain_def is_alnum_def is_lower_def is_upper_def is_digit_def)

lemma char_halves: "(of_char c :: nat) div 16 < 16" "(of_char c :: nat) mod 16 < 16"
proof -
  have "(of_char c :: nat) < 256" using mod_less_divisor[of 256 "of_char c :: nat"] by simp
  then show "(of_char c :: nat) div 16 < 16" by (simp add: less_mult_imp_div_less)
qed simp

lemma unescape_escape [simp]: "path_unescape (path_escape s) = Some s"
proof (induction s)
  case (Cons c s)
  have "char_of (nat (16 * int (of_char c div 16) + int (of_char c mod 16))) = c"
  proof -
    have "nat (16 * int (of_char c div 16) + int (of_char c mod 16)) = (of_char c :: nat)"
      using mult_div_mod_eq[of 16 "of_char c :: nat"] by linarith
    then show ?thesis by simp
  qed
  with Cons show ?case
    using hex_upper[OF char_halves(1), of c] hex_upper[OF char_halves(2), of c] by simp
qed simp

lemma alnum_plain: "is_alnum c \<Longrightarrow> path_plain c"
  by (simp add: path_plain_def)

lemma path_escape_chars: "x \<in> set (path_escape s) \<Longrightarrow> path_plain x \<or> x = CHR ''%''"
proof (induction s)
  case (Cons c s)
  then show ?case
    using alnum_plain[OF upper_hex_plain[OF char_halves(1)[of c]]] alnum_plain[OF upper_hex_plain[OF char_halves(2)[of c]]]
    by (auto split: if_splits)
qed simp

lemma slash_plain [simp]: "path_plain CHR ''/''"
  by (simp add: path_plain_def)

lemma not_plain [simp]: "\<not> path_plain CHR 0x5C" "\<not> path_plain CHR ''?''"
  by (simp_all add: path_plain_def is_alnum_def is_lower_def is_upper_def is_digit_def)

lemma path_escape_slashes: "has_prefix (path_escape s) ''//'' \<longleftrightarrow> has_prefix s ''//''"
proof (cases s)
  case (Cons a t)
  then show ?thesis by (cases t) auto
qed (simp add: has_prefix_def)

lemma has_prefix_cut: "has_prefix s p \<Longrightarrow> d \<notin> set p \<Longrightarrow> has_prefix (fst (before d s)) p"
proof -
  assume p: "has_prefix s p" "d \<notin> set p"
  then obtain r where r: "s = p @ r" by (auto simp: has_prefix_iff)
  show ?thesis
  proof (cases "cut d s")
    case None
    then have "fst (before d s) = s" by (simp add: before_def)
    with p show ?thesis by (simp only:)
  next
    case (Some x)
    then obtain a b where x: "cut d s = Some (a, b)" by (cases x) simp
    then have s: "s = a @ d # b" by (simp add: cut_Some_iff)
    have "length p \<le> length a"
    proof (rule ccontr)
      assume "\<not> length p \<le> length a"
      then have "p ! length a = d" using r s
        by (metis linorder_not_le nth_append nth_append_length)
      with \<open>\<not> length p \<le> length a\<close> p(2) show False by (metis linorder_not_le nth_mem)
    qed
    then have "take (length p) a = p" using r s
      by (metis append_eq_append_conv_if append_eq_conv_conj)
    then show ?thesis using x by (simp add: before_def has_prefix_def)
  qed
qed

lemma before_prefix: "\<exists>r. s = fst (before d s) @ r"
  by (cases "cut d s") (auto simp: before_def cut_Some_iff)

lemma before_free: "d \<notin> set (fst (before d s))"
proof (cases "cut d s")
  case None
  then show ?thesis by (simp add: before_def cut_None_iff[symmetric])
next
  case (Some x)
  then obtain a b where c: "cut d s = Some (a, b)" by (cases x) simp
  then have "before d s = (a, b)" by (simp add: before_def)
  moreover have "d \<notin> set a" using c by (simp add: cut_Some_iff)
  ultimately show ?thesis by simp
qed

definition path_part :: "string \<Rightarrow> string" where
  \<comment> \<open>the path of a rooted reference as written\<close>
  "path_part s = fst (before CHR ''?'' (fst (before CHR ''#'' s)))"

lemma parse_rooted_Some:
  assumes "before CHR ''#'' s = (u, frag)" "parse_rooted s = Some w"
  defines "force \<equiv> has_suffix u ''?'' \<and> length (filter (\<lambda>c. c = CHR ''?'') u) = 1"
  defines "pq \<equiv> (if force then (butlast u, []) else before CHR ''?'' u)"
  shows "\<exists>path. path_unescape (fst pq) = Some path \<and>
    w = \<lparr>ru_path = path, ru_raw = (if fst pq = path_escape path then [] else fst pq), ru_force = force, ru_query = snd pq\<rparr>"
proof -
  have "parse_rooted s = (if list_ex is_ctl u then None else
     case path_unescape (fst pq) of None \<Rightarrow> None
     | Some path \<Rightarrow> if frag \<noteq> [] \<and> path_unescape frag = None then None
         else Some \<lparr>ru_path = path, ru_raw = (if fst pq = path_escape path then [] else fst pq), ru_force = force, ru_query = snd pq\<rparr>)"
    unfolding parse_rooted_def assms(1) Let_def prod.case pq_def force_def
    by (simp only: case_prod_beta)
  then show ?thesis using assms(2) by (auto split: if_splits option.splits)
qed

lemma parse_rooted_parts:
  assumes "parse_rooted s = Some w"
  shows "path_unescape (path_part s) = Some (ru_path w)"
    "ru_raw w = (if path_part s = path_escape (ru_path w) then [] else path_part s)"
    "set (ru_query w) \<subseteq> set s"
proof -
  obtain u frag where u: "before CHR ''#'' s = (u, frag)" by fastforce
  let ?force = "has_suffix u ''?'' \<and> length (filter (\<lambda>c. c = CHR ''?'') u) = 1"
  have bu: "fst (before CHR ''?'' u) = butlast u \<and> butlast u @ ''?'' = u" if ?force
  proof -
    from that obtain r where r: "u = r @ ''?''" by (auto simp: has_suffix_iff)
    then have "CHR ''?'' \<notin> set r" using that by (auto simp: filter_empty_conv)
    then have "cut CHR ''?'' u = Some (r, [])" using r by (simp add: cut_Some_iff)
    with r show ?thesis by (simp add: before_def)
  qed
  define p where "p = fst (if ?force then (butlast u, []) else before CHR ''?'' u)"
  have p: "p = path_part s" using bu u by (auto simp: p_def path_part_def)
  have w: "path_unescape p = Some (ru_path w)" "ru_raw w = (if p = path_escape (ru_path w) then [] else p)"
    "ru_query w = snd (if ?force then (butlast u, []) else before CHR ''?'' u)"
    using parse_rooted_Some[OF u assms] unfolding p_def by fastforce+
  show "path_unescape (path_part s) = Some (ru_path w)"
    "ru_raw w = (if path_part s = path_escape (ru_path w) then [] else path_part s)"
    using w(1,2) p by simp_all
  have "set (ru_query w) \<subseteq> set u"
    using w(3) by (cases "cut CHR ''?'' u") (auto simp: before_def cut_Some_iff split: if_splits)
  moreover have "set u \<subseteq> set s"
    using u by (cases "cut CHR ''#'' s") (auto simp: before_def cut_Some_iff split: if_splits)
  ultimately show "set (ru_query w) \<subseteq> set s" by blast
qed

lemma path_part_root:
  assumes "has_prefix s ''/''"
  shows "has_prefix (path_part s) ''/''"
proof -
  have "has_prefix (fst (before CHR ''#'' s)) ''/''" using assms by (rule has_prefix_cut) simp
  then show ?thesis unfolding path_part_def by (rule has_prefix_cut) simp
qed

lemma path_part_prefix: "\<exists>r. s = path_part s @ r"
proof -
  obtain r where "s = fst (before CHR ''#'' s) @ r" using before_prefix by blast
  moreover obtain q where "fst (before CHR ''#'' s) = path_part s @ q"
    unfolding path_part_def using before_prefix by blast
  ultimately have "s = path_part s @ q @ r" by (metis append_assoc)
  then show ?thesis by blast
qed

lemma path_part_free: "CHR ''?'' \<notin> set (path_part s)"
  unfolding path_part_def by (rule before_free)

lemma unescape_root:
  "path_unescape (CHR ''/'' # t) = Some q \<Longrightarrow> \<exists>q'. q = CHR ''/'' # q' \<and> path_unescape t = Some q'"
  by auto

lemma RequestURI_split:
  assumes "EscapedPath w \<noteq> []" "CHR ''?'' \<notin> set (EscapedPath w)"
  shows "fst (before CHR ''?'' (RequestURI w)) = EscapedPath w"
    "\<exists>r. RequestURI w = EscapedPath w @ r \<and> set r \<subseteq> {CHR ''?''} \<union> set (ru_query w)"
proof -
  have "cut CHR ''?'' (EscapedPath w) = None" using assms(2) by (simp add: cut_None_iff)
  moreover have "cut CHR ''?'' (EscapedPath w @ ''?'' @ ru_query w) = Some (EscapedPath w, ru_query w)"
    using assms(2) by (simp add: cut_Some_iff)
  ultimately show "fst (before CHR ''?'' (RequestURI w)) = EscapedPath w"
    using assms(1) by (simp add: RequestURI_def Let_def before_def)
  show "\<exists>r. RequestURI w = EscapedPath w @ r \<and> set r \<subseteq> {CHR ''?''} \<union> set (ru_query w)"
    using assms(1) by (auto simp: RequestURI_def Let_def)
qed

definition slash_smuggled :: "string \<Rightarrow> bool" where
  \<comment> \<open>the path begins with an encoded second slash and holds a character that \<^verbatim>\<open>url.Parse\<close> lets pass unencoded\<close>
  "slash_smuggled s \<longleftrightarrow> has_prefix (path_part s) ''/%'' \<and> \<not> valid_encoded (path_part s)"

definition leaves_app :: "string \<Rightarrow> bool" where
  \<comment> \<open>a reference with an authority: a browser resolves it on another host\<close>
  "leaves_app u \<longleftrightarrow> has_prefix u ''//''"

lemma decoded_slashes:
  assumes "path_unescape p = Some path" "has_prefix p ''/''" "\<not> has_prefix p ''//''" "has_prefix path ''//''"
  shows "has_prefix p ''/%''"
proof -
  obtain t where t: "p = CHR ''/'' # t" using assms(2) by (cases p) auto
  then obtain q where q: "path = CHR ''/'' # q" "path_unescape t = Some q"
    using assms(1) unescape_root by blast
  then obtain q' where q': "q = CHR ''/'' # q'" using assms(4) by (cases q) auto
  show ?thesis
  proof (cases t)
    case (Cons c s)
    show ?thesis
    proof (rule ccontr)
      assume "\<not> ?thesis"
      then have "c \<noteq> CHR ''%''" using t Cons by simp
      then have "c = CHR ''/''" using q(2) Cons q' by auto
      then show False using assms(3) t Cons by simp
    qed
  qed (use q q' in simp)
qed

lemma static_url_form:
  assumes "validateStaticURL s = Inr u"
  shows "has_prefix u ''/''" "leaves_app u \<Longrightarrow> slash_smuggled s" "CHR 0x5C \<notin> set u"
    "\<exists>path. path_unescape (fst (before CHR ''?'' u)) = Some path \<and> \<not> contains_sub path ''..''"
proof -
  obtain w where w: "parse_rooted s = Some w" "u = RequestURI w" "\<not> contains_sub (ru_path w) ''..''"
    and s: "CHR 0x5C \<notin> set s" "\<not> has_prefix s ''//''" "has_prefix s ''/''"
    using assms by (auto simp: validateStaticURL_def split: if_splits option.splits)
  note parts = parse_rooted_parts[OF w(1)]
  have root: "has_prefix (path_part s) ''/''" using s(3) by (rule path_part_root)
  obtain r0 where r0: "s = path_part s @ r0" using path_part_prefix by blast
  have nod: "\<not> has_prefix (path_part s) ''//''"
  proof
    assume "has_prefix (path_part s) ''//''"
    then obtain z where "path_part s = ''//'' @ z" by (auto simp: has_prefix_iff)
    then have "has_prefix s ''//''" using r0 by (metis append_assoc has_prefix_append)
    with s(2) show False by simp
  qed
  have path: "has_prefix (ru_path w) ''/''"
  proof -
    obtain t where "path_part s = CHR ''/'' # t" using root by (cases "path_part s") auto
    then obtain q where "ru_path w = CHR ''/'' # q" using parts(1) unescape_root[of t "ru_path w"] by auto
    then show ?thesis by simp
  qed
  have nostar: "ru_path w \<noteq> ''*''" using path by auto
  define pl where "pl \<longleftrightarrow> path_part s = path_escape (ru_path w)"
  have ep: "EscapedPath w = (if pl \<or> valid_encoded (path_part s) then path_part s else path_escape (ru_path w))"
    using nostar parts(1,2) root by (auto simp: EscapedPath_def pl_def)
  have dec: "path_unescape (EscapedPath w) = Some (ru_path w)"
    using ep parts(1) by simp
  have free: "CHR ''?'' \<notin> set (EscapedPath w)"
    using ep path_part_free[of s] path_escape_chars[of "CHR ''?''" "ru_path w"] by auto
  have eroot: "has_prefix (EscapedPath w) ''/''"
    using ep root path by (cases "ru_path w") auto
  then have ne: "EscapedPath w \<noteq> []" by auto
  note split = RequestURI_split[OF ne free]
  obtain r where r: "u = EscapedPath w @ r" "set r \<subseteq> {CHR ''?''} \<union> set (ru_query w)"
    using split(2) w(2) by blast
  show "has_prefix u ''/''" using eroot r(1) by (auto simp: has_prefix_iff)
  show "\<exists>path. path_unescape (fst (before CHR ''?'' u)) = Some path \<and> \<not> contains_sub path ''..''"
    using split(1) dec w(2,3) by simp
  have "CHR 0x5C \<notin> set (path_part s)" using r0 s(1) by (metis Un_iff set_append)
  then show "CHR 0x5C \<notin> set u"
    using r ep s(1) parts(3) path_escape_chars[of "CHR 0x5C" "ru_path w"] by auto
  show "slash_smuggled s" if "leaves_app u"
  proof -
    have "r = [] \<or> hd r = CHR ''?''"
      using w(2) r(1) ne by (auto simp: RequestURI_def Let_def split: if_splits)
    then have two: "has_prefix (EscapedPath w) ''//''"
      using that r(1) eroot by (cases "EscapedPath w"; cases "tl (EscapedPath w)"; cases r)
        (auto simp: leaves_app_def)
    then have nv: "\<not> (pl \<or> valid_encoded (path_part s))" using ep nod by auto
    then have "has_prefix (ru_path w) ''//''" using two ep path_escape_slashes by auto
    then have "has_prefix (path_part s) ''/%''" using decoded_slashes[OF parts(1) root nod] by blast
    with nv show ?thesis by (simp add: slash_smuggled_def)
  qed
qed

lemma probe_prefix: "\<exists>r. templateURLProbe s = fst (before CHR ''{'' s) @ r"
  by (cases "cut CHR ''{'' s") (auto simp: templateURLProbe.simps[of s] before_def split: option.splits prod.splits)

lemma braces_url_form:
  assumes "validateURL s = Inr u" "contains_any s ''{}''"
  shows "u = s" "has_prefix s ''/'' \<or> has_prefix s ''{''" "\<not> leaves_app s"
proof -
  let ?probe = "templateURLProbe s" and ?a = "fst (before CHR ''{'' s)"
  have ne: "s \<noteq> []" using assms(2) by (auto simp: contains_any_def)
  show "u = s" using assms ne by (auto simp: validateURL_def Let_def split: if_splits sum.splits)
  have probe: "has_prefix ?probe ''/'' \<or> has_prefix s ''{''"
    "\<exists>v. validateStaticURL (if has_prefix ?probe ''/'' then ?probe else ''/'' @ ?probe) = Inr v"
    using assms ne by (auto simp: validateURL_def Let_def split: if_splits sum.splits)
  obtain r where r: "?probe = ?a @ r" using probe_prefix by blast
  obtain r' where r': "s = ?a @ r'" using before_prefix by blast
  have free: "CHR ''{'' \<notin> set ?a" by (rule before_free)
  show "has_prefix s ''/'' \<or> has_prefix s ''{''"
  proof (cases "has_prefix s ''{''")
    case False
    then have a: "?a \<noteq> []"
      using ne by (cases "cut CHR ''{'' s"; cases s) (auto simp: before_def cut_Some_iff split: if_splits option.splits)
    then obtain c a' where c: "?a = c # a'" by (cases ?a) auto
    have "has_prefix ?probe ''/''" using probe(1) False by blast
    then have "c = CHR ''/''" using r c by simp
    then have "s = CHR ''/'' # (a' @ r')" using r' c by simp
    then show ?thesis by simp
  qed simp
  show "\<not> leaves_app s"
  proof
    assume "leaves_app s"
    then have "has_prefix ?a ''//''" unfolding leaves_app_def by (rule has_prefix_cut) simp
    then obtain z where "?a = ''//'' @ z" by (auto simp: has_prefix_iff)
    then have "?probe = ''//'' @ (z @ r)" using r by simp
    then have "has_prefix ?probe ''//''" "has_prefix ?probe ''/''" by simp_all
    with probe(2) show False by (simp add: validateStaticURL_def split: if_splits)
  qed
qed

section \<open>Properties\<close>

lemma del_char: "of_char c = (127 :: nat) \<Longrightarrow> c = CHR 0x7F"
proof -
  assume "of_char c = (127 :: nat)"
  then have "char_of (of_char c :: nat) = char_of (127 :: nat)" by simp
  also have "char_of (127 :: nat) = CHR 0x7F" by code_simp
  finally show ?thesis by simp
qed

lemma show_digits: "show_int 7 = ''7''" "show_int 3 = ''3''"
  by code_simp+

text \<open>
  C24. Rendering a template: the scanning loop of \<^verbatim>\<open>interpolate\<close> succeeds exactly when the template parses
  into literal text and holes and every hole is a path \<^verbatim>\<open>lookupPath\<close> knows, whatever the event, and the
  text is then the concatenation of what the pieces stand for; \<^verbatim>\<open>validateTemplate\<close> accepts exactly the
  templates that parse and whose holes are declared paths without white space. Parsing loses nothing, and a control
  character of the result other than a tab, a line break or DEL stands in the template itself.
\<close>

theorem template_rendering:
  "(interpolate (lookupPath nt e payload n) t = Inr out \<longleftrightarrow>
     (\<exists>ps. pieces t = Some ps \<and> (\<forall>p \<in> holes ps. known_path p) \<and>
       out = concat (map (piece_val (lookupPath nt e payload n)) ps) \<and> concat (map piece_text ps) = t \<and>
       (\<forall>c \<in> set out. is_ctl c \<longrightarrow> c \<in> set t \<union> {CHR 0x09, CHR 0x0A, CHR 0x7F}))) \<and>
   (validateTemplate t = Inr () \<longleftrightarrow> (\<exists>ps. pieces t = Some ps \<and> (\<forall>p \<in> holes ps. declared_path p)))"
proof -
  let ?look = "lookupPath nt e payload n"
  let ?clean = "\<lambda>ps. \<forall>c \<in> set (concat (map (piece_val ?look) ps)). is_ctl c \<longrightarrow>
    c \<in> set (concat (map piece_text ps)) \<union> {CHR 0x09, CHR 0x0A, CHR 0x7F}"
  have clean: "?clean ps" for ps
  proof (induction ps)
    case (Cons p ps)
    have "c \<in> set (piece_val ?look p) \<Longrightarrow> is_ctl c \<Longrightarrow> c \<in> set (piece_text p) \<union> {CHR 0x09, CHR 0x0A, CHR 0x7F}" for c
      by (cases p) (auto simp: escapePlain_def is_ctl_def del_char split: sum.splits)
    with Cons.IH show ?case by (simp only: concat.simps list.map set_append) blast
  qed simp
  have "interpolate ?look t = Inr out \<longleftrightarrow>
     (\<exists>ps. pieces t = Some ps \<and> (\<forall>p \<in> holes ps. known_path p) \<and> out = concat (map (piece_val ?look) ps))"
    unfolding interpolate_pieces lookupPath_known ..
  also have "\<dots> \<longleftrightarrow> (\<exists>ps. pieces t = Some ps \<and> (\<forall>p \<in> holes ps. known_path p) \<and>
       out = concat (map (piece_val ?look) ps) \<and> concat (map piece_text ps) = t \<and>
       (\<forall>c \<in> set out. is_ctl c \<longrightarrow> c \<in> set t \<union> {CHR 0x09, CHR 0x0A, CHR 0x7F}))" (is "?L = ?R")
  proof
    assume ?L
    then obtain ps where ps: "pieces t = Some ps" "\<forall>p \<in> holes ps. known_path p" "out = concat (map (piece_val ?look) ps)"
      by blast
    have "concat (map piece_text ps) = t" using ps(1) by (rule pieces_unparse)
    with ps clean[of ps] show ?R by blast
  qed blast
  finally show ?thesis using validateTemplate_pieces by blast
qed

theorem template_rendering_witness:
  "interpolate (lookupPath \<lparr>nt_fixed = \<lambda>_. [], nt_value = \<lambda>_. []\<rparr>
      \<lparr>ev_id = 7, ev_type = ''a.b'', ev_source = ''a'', ev_subject = ''s'', ev_payload = [], ev_created = []\<rparr>
      (AnyMap [(''n'', AnyNum 3)]) 0) ''#{event.id}: {event.payload.n}'' = Inr ''#7: 3''"
  by (rule iffD2[OF conjunct1[OF template_rendering]], rule exI[of _ "[Lit ''#'', Hole ''event.id'', Lit '': '', Hole ''event.payload.n'', Lit []]"])
    (simp add: pieces.simps known_path_def lookupPath_def stringify_def escapePlain_def has_prefix_def trim_prefix_def
      in_i64_def int64_min_def int64_max_def show_digits is_ctl_def)

text \<open>
  C22. A notification's URL stays inside the application: what \<^verbatim>\<open>renderURL\<close> accepts is empty or begins with one
  slash, holds no backslash and has no dot-dot segment, even percent-encoded; a text with braces in it is returned as
  rendered, and then it begins with a slash or a brace. The only accepted texts that name another host are those that smuggle
  the second slash in: they begin with a percent-encoded one and hold a character that is not valid in a path, so that the
  URL is re-encoded from its decoded path.
\<close>

theorem notification_url_local:
  assumes "renderURL look tmpl = Inr u" "u \<noteq> []"
  shows "\<exists>s. interpolate look tmpl = Inr s \<and> (leaves_app u \<longrightarrow> slash_smuggled s) \<and>
    (if contains_any s ''{}'' then u = s \<and> (has_prefix u ''/'' \<or> has_prefix u ''{'')
     else has_prefix u ''/'' \<and> CHR 0x5C \<notin> set u \<and>
       (\<exists>path. path_unescape (fst (before CHR ''?'' u)) = Some path \<and> \<not> contains_sub path ''..''))"
proof -
  obtain s where s: "interpolate look tmpl = Inr s" "validateURL s = Inr u"
    using assms by (auto simp: renderURL_def split: if_splits sum.splits)
  show ?thesis
  proof (cases "contains_any s ''{}''")
    case True
    then show ?thesis using s(1) braces_url_form[OF s(2) True] by auto
  next
    case False
    then have "validateStaticURL s = Inr u"
      using s(2) assms(2) by (auto simp: validateURL_def split: if_splits)
    from static_url_form[OF this] False s(1) show ?thesis by auto
  qed
qed

theorem notification_url_local_witness:
  "renderURL (\<lambda>_. Inr ''7'') ''/items/{event.id}?tab=a'' = Inr ''/items/7?tab=a'' \<and>
   CHR 0x5C \<notin> set ''/items/7?tab=a'' \<and> has_prefix ''/items/7?tab=a'' ''/''"
proof -
  have r: "renderURL (\<lambda>_. Inr ''7'') ''/items/{event.id}?tab=a'' = Inr ''/items/7?tab=a''"
    by (simp add: renderURL_def interpolate.simps escapePlain_def validateURL_def contains_any_def validateStaticURL_def
        parse_rooted_def before_def is_ctl_def has_prefix_def has_suffix_def RequestURI_def EscapedPath_def Let_def
        path_plain_def is_alnum_def is_lower_def is_upper_def is_digit_def less_eq_char_def)
  from notification_url_local[OF r] r show ?thesis
    by (simp add: interpolate.simps escapePlain_def contains_any_def)
qed

text \<open>
  A payload can take a reader to another host: the value \<^verbatim>\<open>/%2Fevil.example/ x\<close> of an event passes every check
  and is stored as the protocol-relative URL \<^verbatim>\<open>//evil.example/%20x\<close>.
\<close>

lemma payload_leaves_app:
  "renderURL (\<lambda>_. Inr ''/%2Fevil.example/ x'') ''{event.payload.url}'' = Inr ''//evil.example/%20x''"
  "leaves_app ''//evil.example/%20x''"
  by code_simp+

text \<open>
  A rule whose template uses a path under \<^verbatim>\<open>event.\<close> that does not exist is accepted, and then no event can be rendered
  with it.
\<close>

lemma accepted_never_renders:
  "validateTemplate ''{event.name}'' = Inr ()"
  "interpolate (lookupPath nt e payload n) ''{event.name}'' = Inl (ErrInvalidTemplate ''unknown path'')"
  by (simp_all add: validateTemplate.simps interpolate.simps contains_any_def has_prefix_def lookupPath_def)

end
