(* ===== verification/Notify_Core.thy ===== *)
theory Notify_Core
  imports Events_Durable Notify_Template
begin

text \<open>
  \<^verbatim>\<open>internal/core/notifications\<close>: the tables, the identifiers of \<^verbatim>\<open>validate.go\<close> and the durable handler of
  \<^verbatim>\<open>handler.go\<close> and \<^verbatim>\<open>where.go\<close>, which turns a committed event into notifications and pending sends inside the transaction
  that advances the cursor. The record \<open>notify_db\<close> extends the tables of the events module.

  Columns that hold JSON hold the list or map itself. \<^verbatim>\<open>crypto/rand\<close> is a parameter indexed by the draw and the byte; the
  number of draws is part of the state. CEL and \<^verbatim>\<open>json.Unmarshal\<close> are parameters.
\<close>

section \<open>The tables\<close>

record rule_row =
  rl_id :: string
  rl_enabled :: bool
  rl_match :: string
  rl_where :: string
  rl_channels :: "string list"
  rl_title :: string
  rl_body :: string
  rl_url :: string
  rl_throttle_s :: int

record chan_row =
  ch_id :: string
  ch_kind :: string
  ch_settings :: "(string \<times> string) list"
  ch_credential :: string
  ch_enabled :: bool

record throttle_row =
  th_rule :: string
  th_source :: string
  th_value :: string
  th_started :: string
  th_ends :: string
  th_note :: string

record note_row =
  no_id :: string
  no_event :: int
  no_key :: string
  no_rule :: string
  no_source :: string
  no_value :: string
  no_title :: string
  no_body :: string
  no_url :: string
  no_collapsed :: int
  no_available :: string
  no_created :: string
  no_read :: "string option"
  no_inbox :: bool
  no_ready :: bool

datatype send_state = Pending | RetryWait | Sending | Sent | SendFailed

record send_row =
  sd_id :: string
  sd_note :: string
  sd_channel :: string
  sd_key :: string
  sd_state :: send_state
  sd_attempts :: int
  sd_next :: string
  sd_lease :: "string option"
  sd_error :: string
  sd_sent :: "string option"
  sd_last :: "string option"

record audit_row =
  au_id :: string
  au_actor :: string
  au_kind :: string
  au_object :: string
  au_action :: string
  au_created :: string

record notify_db = event_db +
  nb_rules :: "rule_row list"
  nb_channels :: "chan_row list"
  nb_throttles :: "throttle_row list"
  nb_notes :: "note_row list"
  nb_sources :: "(string \<times> int) list" \<comment> \<open>\<^verbatim>\<open>core_notification_sources\<close>\<close>
  nb_sends :: "send_row list"
  nb_audit :: "audit_row list"
  nb_drawn :: nat \<comment> \<open>how many identifiers were drawn\<close>

record 'p cel =
  cel_compile :: "string \<Rightarrow> 'p option" \<comment> \<open>\<^verbatim>\<open>env.Compile\<close>\<close>
  cel_is_bool :: "'p \<Rightarrow> bool" \<comment> \<open>\<^verbatim>\<open>ast.OutputType() == cel.BoolType\<close>\<close>
  cel_program :: "'p \<Rightarrow> bool" \<comment> \<open>\<^verbatim>\<open>env.Program\<close> accepts the tree\<close>
  cel_eval :: "'p \<Rightarrow> event \<Rightarrow> any \<Rightarrow> bool option option" \<comment> \<open>an error, a value that is no boolean, or a boolean\<close>

record 'p notify_env =
  ne_rand :: "nat \<Rightarrow> nat \<Rightarrow> nat"
  ne_json :: "string \<Rightarrow> any option"
  ne_num :: num_text
  ne_text :: "events_error \<Rightarrow> string" \<comment> \<open>\<^verbatim>\<open>err.Error()\<close>\<close>
  ne_cel :: "'p cel"

section \<open>Identifiers and keys\<close>

definition validIDSegment :: "string \<Rightarrow> bool" where
  "validIDSegment s =
     (case s of [] \<Rightarrow> False
      | c # cs \<Rightarrow> is_lower c \<and> list_all (\<lambda>c. is_lower c \<or> is_digit c \<or> c = CHR ''_'' \<or> c = CHR ''-'') cs)"

definition validID :: "string \<Rightarrow> bool" where
  "validID s = (if s = [] then False else list_all validIDSegment (split_on CHR ''.'' s))"

definition throttleSubject :: "event \<Rightarrow> string \<times> string" where
  "throttleSubject e = (if ev_subject e \<noteq> [] then (ev_source e, ev_subject e) else ([], ev_type e))"

definition eventUniq :: "string \<Rightarrow> int \<Rightarrow> string" where
  "eventUniq ruleID eventID =
     ''{'' @ json_quote ''k'' @ '':'' @ json_quote ''event'' @ '','' @ json_quote ''r'' @ '':'' @ json_quote ruleID @
     '','' @ json_quote ''e'' @ '':'' @ show_int eventID @ ''}''"

definition windowUniq :: "string \<Rightarrow> string \<Rightarrow> string \<Rightarrow> string \<Rightarrow> string" where
  "windowUniq ruleID subjSource subjValue windowStart =
     ''{'' @ json_quote ''k'' @ '':'' @ json_quote ''window'' @ '','' @ json_quote ''r'' @ '':'' @ json_quote ruleID @
     '','' @ json_quote ''s'' @ '':'' @ json_quote subjSource @ '','' @ json_quote ''v'' @ '':'' @ json_quote subjValue @
     '','' @ json_quote ''w'' @ '':'' @ json_quote windowStart @ ''}''"

definition sendUniq :: "string \<Rightarrow> string \<Rightarrow> string" where
  "sendUniq notifKey channelID =
     ''{'' @ json_quote ''k'' @ '':'' @ json_quote ''send'' @ '','' @ json_quote ''u'' @ '':'' @ json_quote notifKey @
     '','' @ json_quote ''c'' @ '':'' @ json_quote channelID @ ''}''"

definition hasInbox :: "string list \<Rightarrow> bool" where
  "hasInbox channels = list_ex (\<lambda>c. c = ''inbox'') channels"

definition skipNotificationEvent :: "string \<Rightarrow> bool" where
  "skipNotificationEvent eventType = has_prefix eventType ''core.notification.''"

definition notify_backoff :: "int \<Rightarrow> duration" where
  "notify_backoff attempt = double_loop (nat (attempt - 1)) (seconds 1) (seconds 300)"

definition newID :: "(nat \<Rightarrow> nat \<Rightarrow> nat) \<Rightarrow> nat \<Rightarrow> string" where
  "newID rnd k = concat (map (\<lambda>i. [hex_digit ((rnd k i mod 256) div 16), hex_digit ((rnd k i mod 256) mod 16)]) [0..<16])"

section \<open>Conditions of a rule\<close>

definition compileWhere :: "'p cel \<Rightarrow> string \<Rightarrow> notify_error + 'p option" where
  "compileWhere cel expr =
     (if expr = [] then Inr None
      else case cel_compile cel expr of
        None \<Rightarrow> Inl ErrInvalidWhere
      | Some p \<Rightarrow>
          if \<not> cel_is_bool cel p then Inl ErrInvalidWhere
          else if \<not> cel_program cel p then Inl ErrInvalidWhere
          else Inr (Some p))"

definition celMaxPayload :: int where "celMaxPayload = 65536"

definition evalWhere :: "'p cel \<Rightarrow> 'p option \<Rightarrow> event \<Rightarrow> any \<Rightarrow> bool option" where
  \<comment> \<open>\<^const>\<open>None\<close> is an error\<close>
  "evalWhere cel prg e payload =
     (case prg of
        None \<Rightarrow> Some True
      | Some p \<Rightarrow>
          if celMaxPayload < int (length (ev_payload e)) then None
          else case cel_eval cel p e payload of
            None \<Rightarrow> None
          | Some out \<Rightarrow> out)"

definition decodePayload :: "(string \<Rightarrow> any option) \<Rightarrow> string \<Rightarrow> any" where
  "decodePayload unmarshal txt =
     (if txt = [] then AnyNil else case unmarshal txt of None \<Rightarrow> AnyNil | Some v \<Rightarrow> v)"

section \<open>Statements\<close>

type_synonym ('a, 'x) ntx = "'a notify_db_scheme \<Rightarrow> (events_error + 'x) \<times> 'a notify_db_scheme"

definition draw :: "'p notify_env \<Rightarrow> 'a notify_db_scheme \<Rightarrow> string \<times> 'a notify_db_scheme" where
  "draw env d = (newID (ne_rand env) (nb_drawn d), d\<lparr>nb_drawn := Suc (nb_drawn d)\<rparr>)"

definition insert_note :: "note_row \<Rightarrow> 'a notify_db_scheme \<Rightarrow> bool \<times> 'a notify_db_scheme" where
  \<comment> \<open>\<^verbatim>\<open>INSERT OR IGNORE INTO core_notifications\<close>; the flag is \<^verbatim>\<open>RowsAffected() != 0\<close>\<close>
  "insert_note n d =
     (if \<exists>m \<in> set (nb_notes d). no_id m = no_id n \<or> no_key m = no_key n then (False, d)
      else (True, d\<lparr>nb_notes := nb_notes d @ [n]\<rparr>))"

definition insert_source :: "string \<Rightarrow> int \<Rightarrow> 'a notify_db_scheme \<Rightarrow> bool \<times> 'a notify_db_scheme" where
  "insert_source nid eid d =
     (if (nid, eid) \<in> set (nb_sources d) then (False, d)
      else (True, d\<lparr>nb_sources := nb_sources d @ [(nid, eid)]\<rparr>))"

definition insert_throttle :: "throttle_row \<Rightarrow> 'a notify_db_scheme \<Rightarrow> 'a notify_db_scheme" where
  "insert_throttle t d =
     (if \<exists>u \<in> set (nb_throttles d). th_rule u = th_rule t \<and> th_source u = th_source t \<and>
           th_value u = th_value t \<and> th_started u = th_started t then d
      else d\<lparr>nb_throttles := nb_throttles d @ [t]\<rparr>)"

definition insert_send :: "send_row \<Rightarrow> 'a notify_db_scheme \<Rightarrow> 'a notify_db_scheme" where
  "insert_send s d =
     (if \<exists>q \<in> set (nb_sends d). sd_id q = sd_id s \<or> sd_key q = sd_key s then d
      else d\<lparr>nb_sends := nb_sends d @ [s]\<rparr>)"

definition publish_ready :: "time \<Rightarrow> string \<Rightarrow> ('a, unit) ntx" where
  "publish_ready now nid d =
     (case PublishTx now \<lparr>in_type = ''core.notification.ready'', in_source = ''core.notifications'', in_subject = nid,
          in_payload = Payload (JObj [(''notificationId'', JStr nid), (''state'', JStr ''ready'')])\<rparr> d of
        (Inl err, d1) \<Rightarrow> (Inl err, d1)
      | (Inr _, d1) \<Rightarrow> (Inr (), d1))"

section \<open>The handler\<close>

definition render :: "(string \<Rightarrow> notify_error + string) \<Rightarrow> rule_row \<Rightarrow> notify_error + (string \<times> string \<times> string)" where
  "render look r =
     (case interpolate look (rl_title r) of Inl err \<Rightarrow> Inl err | Inr title \<Rightarrow>
      case interpolate look (rl_body r) of Inl err \<Rightarrow> Inl err | Inr body \<Rightarrow>
      case renderURL look (rl_url r) of Inl err \<Rightarrow> Inl err | Inr url \<Rightarrow> Inr (title, body, url))"

fun insertSends :: "'p notify_env \<Rightarrow> string \<Rightarrow> string \<Rightarrow> string \<Rightarrow> string list \<Rightarrow> 'a notify_db_scheme \<Rightarrow> 'a notify_db_scheme" where
  "insertSends env nid key nxt [] d = d"
| "insertSends env nid key nxt (ch # chs) d =
     (if ch = ''inbox'' then insertSends env nid key nxt chs d
      else case sql_find (\<lambda>c. ch_id c = ch) (nb_channels d) of
        None \<Rightarrow> insertSends env nid key nxt chs d
      | Some c \<Rightarrow>
          if \<not> ch_enabled c then insertSends env nid key nxt chs d
          else
            (let (sid, d1) = draw env d;
                 s = \<lparr>sd_id = sid, sd_note = nid, sd_channel = ch, sd_key = sendUniq key ch, sd_state = Pending,
                      sd_attempts = 0, sd_next = nxt, sd_lease = None, sd_error = [], sd_sent = None, sd_last = None\<rparr>
             in insertSends env nid key nxt chs (insert_send s d1)))"

definition look_of :: "'p notify_env \<Rightarrow> event \<Rightarrow> any \<Rightarrow> int \<Rightarrow> string \<Rightarrow> notify_error + string" where
  "look_of env e payload collapsed = lookupPath (ne_num env) e payload collapsed"

definition applyImmediate :: "'p notify_env \<Rightarrow> time \<Rightarrow> rule_row \<Rightarrow> event \<Rightarrow> any \<Rightarrow> ('a, unit) ntx" where
  "applyImmediate env now r e payload d =
     (case render (look_of env e payload 0) r of
        Inl _ \<Rightarrow> (Inr (), d)
      | Inr (title, body, url) \<Rightarrow>
          (let (subjS, subjV) = throttleSubject e;
               key = eventUniq (rl_id r) (ev_id e);
               (nid, d1) = draw env d;
               (n, d2) = insert_note \<lparr>no_id = nid, no_event = ev_id e, no_key = key, no_rule = rl_id r, no_source = subjS,
                  no_value = subjV, no_title = title, no_body = body, no_url = url, no_collapsed = 0,
                  no_available = rfc now, no_created = rfc now, no_read = None,
                  no_inbox = hasInbox (rl_channels r), no_ready = True\<rparr> d1
           in if \<not> n then (Inr (), d2)
              else publish_ready now nid
                (insertSends env nid key (rfc now) (rl_channels r) (snd (insert_source nid (ev_id e) d2)))))"

definition set_text :: "string \<Rightarrow> string \<Rightarrow> string \<Rightarrow> note_row \<Rightarrow> note_row" where
  "set_text title body url n = n\<lparr>no_title := title, no_body := body, no_url := url\<rparr>"

definition attachThrottle :: "'p notify_env \<Rightarrow> rule_row \<Rightarrow> event \<Rightarrow> any \<Rightarrow> string \<Rightarrow> ('a, unit) ntx" where
  "attachThrottle env r e payload notifID d =
     (let (n, d1) = insert_source notifID (ev_id e) d in
      if \<not> n then (Inr (), d1)
      else
        (let d2 = d1\<lparr>nb_notes := sql_update (\<lambda>n. no_id n = notifID) (\<lambda>n. n\<lparr>no_collapsed := no_collapsed n + 1\<rparr>) (nb_notes d1)\<rparr>
         in case sql_find (\<lambda>n. no_id n = notifID) (nb_notes d2) of
              None \<Rightarrow> (Inl ErrEventsSQL, d2)
            | Some n \<Rightarrow>
                (case render (look_of env e payload (no_collapsed n)) r of
                   Inl _ \<Rightarrow> (Inr (), d2)
                 | Inr (title, body, url) \<Rightarrow>
                     (Inr (), d2\<lparr>nb_notes := sql_update (\<lambda>n. no_id n = notifID) (set_text title body url) (nb_notes d2)\<rparr>))))"

definition open_window :: "string \<Rightarrow> string \<Rightarrow> string \<Rightarrow> string \<Rightarrow> 'a notify_db_scheme \<Rightarrow> throttle_row option" where
  "open_window ruleID subjS subjV now d =
     best_by (\<lambda>a b. th_started b < th_started a)
       (filter (\<lambda>t. th_rule t = ruleID \<and> th_source t = subjS \<and> th_value t = subjV \<and> now < th_ends t) (nb_throttles d))"

definition throttle_of :: "rule_row \<Rightarrow> duration" where
  \<comment> \<open>\<^verbatim>\<open>time.Duration(throttle) * time.Second\<close>\<close>
  "throttle_of r = i64 (seconds (rl_throttle_s r))"

definition applyThrottled :: "'p notify_env \<Rightarrow> time \<Rightarrow> rule_row \<Rightarrow> event \<Rightarrow> any \<Rightarrow> ('a, unit) ntx" where
  "applyThrottled env now r e payload d =
     (let (subjS, subjV) = throttleSubject e in
      case open_window (rl_id r) subjS subjV (rfc now) d of
        Some t \<Rightarrow> attachThrottle env r e payload (th_note t) d
      | None \<Rightarrow>
          (case render (look_of env e payload 0) r of
             Inl _ \<Rightarrow> (Inr (), d)
           | Inr (title, body, url) \<Rightarrow>
               (let stop = rfc (now + throttle_of r);
                    (nid, d1) = draw env d;
                    key = windowUniq (rl_id r) subjS subjV (rfc now);
                    (n, d2) = insert_note \<lparr>no_id = nid, no_event = ev_id e, no_key = key, no_rule = rl_id r, no_source = subjS,
                       no_value = subjV, no_title = title, no_body = body, no_url = url, no_collapsed = 0,
                       no_available = stop, no_created = rfc now, no_read = None,
                       no_inbox = hasInbox (rl_channels r), no_ready = False\<rparr> d1
                in if \<not> n then (Inr (), d2)
                   else (Inr (), insertSends env nid key stop (rl_channels r)
                     (snd (insert_source nid (ev_id e)
                       (insert_throttle \<lparr>th_rule = rl_id r, th_source = subjS, th_value = subjV, th_started = rfc now,
                          th_ends = stop, th_note = nid\<rparr> d2)))))))"

definition applyRule :: "'p notify_env \<Rightarrow> time \<Rightarrow> event \<Rightarrow> any \<Rightarrow> rule_row \<times> pattern \<Rightarrow> ('a, unit) ntx" where
  "applyRule env now e payload rp d =
     (case rp of (r, p) \<Rightarrow>
        if \<not> Matches p (ev_type e) then (Inr (), d)
        else case compileWhere (ne_cel env) (rl_where r) of
          Inl _ \<Rightarrow> (Inr (), d)
        | Inr prg \<Rightarrow>
            (case evalWhere (ne_cel env) prg e payload of
               None \<Rightarrow> (Inr (), d)
             | Some ok \<Rightarrow>
                 if \<not> ok then (Inr (), d)
                 else if 0 < throttle_of r then applyThrottled env now r e payload d
                 else applyImmediate env now r e payload d))"

fun loadEnabledRules :: "rule_row list \<Rightarrow> (rule_row \<times> pattern) list" where
  "loadEnabledRules [] = []"
| "loadEnabledRules (r # rs) =
     (if \<not> rl_enabled r then loadEnabledRules rs
      else case CompilePattern (rl_match r) of
        Inl _ \<Rightarrow> loadEnabledRules rs
      | Inr p \<Rightarrow> (r, p) # loadEnabledRules rs)"

fun apply_rules :: "'p notify_env \<Rightarrow> time \<Rightarrow> event \<Rightarrow> any \<Rightarrow> (rule_row \<times> pattern) list \<Rightarrow> ('a, unit) ntx" where
  "apply_rules env now e payload [] d = (Inr (), d)"
| "apply_rules env now e payload (rp # rps) d =
     (case applyRule env now e payload rp d of
        (Inl err, d1) \<Rightarrow> (Inl err, d1)
      | (Inr _, d1) \<Rightarrow> apply_rules env now e payload rps d1)"

definition handleEvent :: "'p notify_env \<Rightarrow> time \<Rightarrow> event \<Rightarrow> ('a, unit) ntx" where
  "handleEvent env now e d =
     (if skipNotificationEvent (ev_type e) then (Inr (), d)
      else apply_rules env now e (decodePayload (ne_json env) (ev_payload e)) (loadEnabledRules (nb_rules d)) d)"

definition notify_handler :: "'p notify_env \<Rightarrow> time \<Rightarrow> event \<Rightarrow> 'a notify_db_scheme \<Rightarrow> (string + unit) \<times> 'a notify_db_scheme" where
  \<comment> \<open>\<^verbatim>\<open>handleEvent\<close> as the durable subscription calls it\<close>
  "notify_handler env now e d =
     (case handleEvent env now e d of
        (Inl err, d1) \<Rightarrow> (Inl (ne_text env err), d1)
      | (Inr _, d1) \<Rightarrow> (Inr (), d1))"

end
