(* ===== verification/Notify_Send.thy ===== *)
theory Notify_Send
  imports Notify_Core
begin

text \<open>
  \<^verbatim>\<open>internal/core/notifications/deliver.go\<close> and \<^verbatim>\<open>admin.go\<close>: the release of throttle windows, the claim of one send with its
  lease, its completion or failure, the loops of the delivery worker, and the operations of the administrator and of
  the inbox. Sending is external: \<^verbatim>\<open>buildChannel\<close> and \<^verbatim>\<open>Channel.Send\<close> are parameters.
\<close>

section \<open>Releasing windows\<close>

datatype step_error = ErrSkip | ErrDb events_error

definition note_before :: "note_row \<Rightarrow> note_row \<Rightarrow> bool" where
  \<comment> \<open>\<^verbatim>\<open>ORDER BY available_at ASC, id ASC\<close>\<close>
  "note_before a b \<longleftrightarrow> no_available a < no_available b \<or> (no_available a = no_available b \<and> no_id a < no_id b)"

definition releasable :: "string \<Rightarrow> note_row \<Rightarrow> bool" where
  "releasable now n \<longleftrightarrow> \<not> no_ready n \<and> no_available n \<le> now"

definition release_tx :: "time \<Rightarrow> 'a notify_db_scheme \<Rightarrow> (step_error + unit) \<times> 'a notify_db_scheme" where
  "release_tx now d =
     (case best_by note_before (filter (releasable (rfc now)) (nb_notes d)) of
        None \<Rightarrow> (Inl ErrSkip, d)
      | Some n \<Rightarrow>
          (case publish_ready now (no_id n)
              (d\<lparr>nb_notes := sql_update (\<lambda>m. no_id m = no_id n) (\<lambda>m. m\<lparr>no_ready := True\<rparr>) (nb_notes d)\<rparr>) of
             (Inl err, d1) \<Rightarrow> (Inl (ErrDb err), d1)
           | (Inr _, d1) \<Rightarrow> (Inr (), d1)))"

definition releaseOneWindow :: "time \<Rightarrow> 'a notify_db_scheme \<Rightarrow> (events_error + bool) \<times> 'a notify_db_scheme" where
  "releaseOneWindow now d =
     (case run_tx (release_tx now) d of
        (Inl ErrSkip, d1) \<Rightarrow> (Inr False, d1)
      | (Inl (ErrDb err), d1) \<Rightarrow> (Inl err, d1)
      | (Inr _, d1) \<Rightarrow> (Inr True, d1))"

fun releaseWindows :: "time list \<Rightarrow> 'a notify_db_scheme \<Rightarrow> bool \<times> 'a notify_db_scheme" where
  \<comment> \<open>one reading of the clock per turn; the flag reports that the loop ended by itself\<close>
  "releaseWindows [] d = (False, d)"
| "releaseWindows (t # ts) d =
     (case releaseOneWindow t d of
        (Inl _, d1) \<Rightarrow> (True, d1)
      | (Inr released, d1) \<Rightarrow> if released then releaseWindows ts d1 else (True, d1))"

section \<open>Claiming and sending\<close>

definition claimable :: "string \<Rightarrow> note_row list \<Rightarrow> send_row \<Rightarrow> bool" where
  "claimable now notes s \<longleftrightarrow>
     (\<exists>n \<in> set notes. no_id n = sd_note s \<and> no_ready n \<and> no_available n \<le> now) \<and>
     ((sd_state s \<in> {Pending, RetryWait} \<and> sd_next s \<le> now) \<or>
      (sd_state s = Sending \<and> (case sd_lease s of None \<Rightarrow> False | Some l \<Rightarrow> l \<le> now)))"

definition send_before :: "send_row \<Rightarrow> send_row \<Rightarrow> bool" where
  "send_before a b \<longleftrightarrow> sd_next a < sd_next b \<or> (sd_next a = sd_next b \<and> sd_id a < sd_id b)"

definition claim_send_tx ::
  "time \<Rightarrow> duration \<Rightarrow> 'a notify_db_scheme \<Rightarrow> (step_error + send_row) \<times> 'a notify_db_scheme" where
  "claim_send_tx now ttl d =
     (case best_by send_before (filter (claimable (rfc now) (nb_notes d)) (nb_sends d)) of
        None \<Rightarrow> (Inl ErrSkip, d)
      | Some row \<Rightarrow>
          (let hit = (\<lambda>s. sd_id s = sd_id row \<and>
                 ((case sd_lease s of None \<Rightarrow> True | Some l \<Rightarrow> l \<le> rfc now) \<or> sd_state s \<noteq> Sending));
               d1 = d\<lparr>nb_sends := sql_update hit (\<lambda>s. s\<lparr>sd_state := Sending, sd_lease := Some (rfc (now + ttl)),
                  sd_last := Some (rfc now)\<rparr>) (nb_sends d)\<rparr>
           in if sql_count hit (nb_sends d) \<noteq> 1 then (Inl ErrSkip, d1) else (Inr row, d1)))"

definition completeSend :: "time \<Rightarrow> send_row \<Rightarrow> 'a notify_db_scheme \<Rightarrow> 'a notify_db_scheme" where
  "completeSend now row d =
     d\<lparr>nb_sends := sql_update (\<lambda>s. sd_id s = sd_id row)
        (\<lambda>s. s\<lparr>sd_state := Sent, sd_sent := Some (rfc now), sd_lease := None, sd_error := [],
               sd_attempts := sd_attempts s + 1, sd_last := Some (rfc now)\<rparr>) (nb_sends d)\<rparr>"

definition send_maxAttempts :: int where "send_maxAttempts = 8"

definition failSend :: "time \<Rightarrow> send_row \<Rightarrow> string \<Rightarrow> bool \<Rightarrow> 'a notify_db_scheme \<Rightarrow> 'a notify_db_scheme" where
  "failSend now row msg permanent d =
     (let nextAttempt = sd_attempts row + 1;
          failed = (permanent \<or> send_maxAttempts \<le> nextAttempt);
          nxt = (if failed then now else now + notify_backoff nextAttempt)
      in d\<lparr>nb_sends := sql_update (\<lambda>s. sd_id s = sd_id row)
           (\<lambda>s. s\<lparr>sd_state := if failed then SendFailed else RetryWait, sd_attempts := nextAttempt, sd_next := rfc nxt,
                  sd_lease := None, sd_error := take 1000 msg, sd_last := Some (rfc now)\<rparr>) (nb_sends d)\<rparr>)"

datatype send_error =
    ErrSend string bool \<comment> \<open>the text, and whether it was made by \<^verbatim>\<open>Permanent\<close>\<close>
  | ErrNoChannel

definition err_permanent :: "send_error \<Rightarrow> bool" where
  "err_permanent err = (case err of ErrSend _ p \<Rightarrow> p | ErrNoChannel \<Rightarrow> False)"

definition err_message :: "send_error \<Rightarrow> string" where
  "err_message err = (case err of ErrSend m _ \<Rightarrow> m | ErrNoChannel \<Rightarrow> ''notifications: unknown channel'')"

record delivery =
  dl_note :: note_row
  dl_key :: string

record send_env =
  se_build :: "chan_row \<Rightarrow> send_error + (delivery \<Rightarrow> send_error option)" \<comment> \<open>\<^verbatim>\<open>buildChannel\<close> and \<^verbatim>\<open>Send\<close>\<close>
  se_ttl :: duration
  se_now :: "nat \<Rightarrow> time" \<comment> \<open>the readings of the clock in one turn\<close>

definition channelFor :: "send_env \<Rightarrow> string \<Rightarrow> 'a notify_db_scheme \<Rightarrow>
    send_error + (chan_row \<times> (delivery \<Rightarrow> send_error option))" where
  "channelFor env cid d =
     (case sql_find (\<lambda>c. ch_id c = cid) (nb_channels d) of
        None \<Rightarrow> Inl ErrNoChannel
      | Some c \<Rightarrow>
          if \<not> ch_enabled c then Inl (ErrSend (''notifications: channel '' @ cid @ '' is disabled'') True)
          else case se_build env c of Inl err \<Rightarrow> Inl err | Inr f \<Rightarrow> Inr (c, f))"

definition publishDelivery :: "time \<Rightarrow> send_row \<Rightarrow> string \<Rightarrow> string \<Rightarrow> 'a notify_db_scheme \<Rightarrow> 'a notify_db_scheme" where
  \<comment> \<open>the worker ignores its error\<close>
  "publishDelivery now row kind st d =
     snd (Publish now \<lparr>in_type = ''core.notification.delivery_changed'', in_source = ''core.notifications'',
        in_subject = sd_note row,
        in_payload = Payload (JObj [(''notificationId'', JStr (sd_note row)), (''channel'', JStr (sd_channel row)),
          (''kind'', JStr kind), (''state'', JStr st)])\<rparr> d)"

definition notify_claimOne :: "send_env \<Rightarrow> 'a notify_db_scheme \<Rightarrow> bool \<times> 'a notify_db_scheme" where
  "notify_claimOne env d =
     (case run_tx (claim_send_tx (se_now env 0) (se_ttl env)) d of
        (Inl _, d1) \<Rightarrow> (False, d1)
      | (Inr row, d1) \<Rightarrow>
          (case sql_find (\<lambda>n. no_id n = sd_note row) (nb_notes d1) of
             None \<Rightarrow> (True, failSend (se_now env 1) row ''sql: no rows in result set'' False d1)
           | Some n \<Rightarrow>
               (case channelFor env (sd_channel row) d1 of
                  Inl err \<Rightarrow> (True, failSend (se_now env 1) row (err_message err) (err_permanent err \<or> err = ErrNoChannel) d1)
                | Inr (cfg, send) \<Rightarrow>
                    (case send \<lparr>dl_note = n, dl_key = sd_key row\<rparr> of
                       Some err \<Rightarrow>
                         (True, publishDelivery (se_now env 2) row (ch_kind cfg) ''failed''
                           (failSend (se_now env 1) row (err_message err)
                             (err_permanent err \<or> contains_sub (err_message err) ''permanent:'') d1))
                     | None \<Rightarrow>
                         (True, publishDelivery (se_now env 2) row (ch_kind cfg) ''sent'' (completeSend (se_now env 1) row d1))))))"

fun claim_loop :: "send_env list \<Rightarrow> 'a notify_db_scheme \<Rightarrow> bool \<times> 'a notify_db_scheme" where
  \<comment> \<open>\<^verbatim>\<open>claimUntilEmpty\<close>, one environment per turn; the flag reports that the loop ended by itself\<close>
  "claim_loop [] d = (False, d)"
| "claim_loop (env # envs) d =
     (case notify_claimOne env d of (claimed, d1) \<Rightarrow> if claimed then claim_loop envs d1 else (True, d1))"

end
