(* ===== verification/Notify_Admin.thy ===== *)
theory Notify_Admin
  imports Notify_Send
begin

text \<open>
  \<^verbatim>\<open>internal/core/notifications/admin.go\<close> and the defaults of \<^verbatim>\<open>service.go\<close>: rules and channels as the administrator edits them,
  the audit trail, the inbox. \<^verbatim>\<open>url.Parse\<close>, the construction of an e-mail channel and the credential store are
  parameters (\<open>admin_env\<close>).
\<close>

section \<open>Validation\<close>

record admin_env =
  ae_actor :: string \<comment> \<open>the principal of the context, empty when there is none\<close>
  ae_parse :: "string \<Rightarrow> url option"
  ae_email :: "chan_row \<Rightarrow> bool" \<comment> \<open>\<^verbatim>\<open>newEmailChannel\<close> succeeds\<close>
  ae_creds :: "(string \<Rightarrow> bool) option" \<comment> \<open>the credential runtime: does \<^verbatim>\<open>Attributes\<close> find the credential\<close>
  ae_refs :: "(string \<Rightarrow> string list \<Rightarrow> events_error option) option" \<comment> \<open>\<^verbatim>\<open>ReplaceTx\<close> of the reference store\<close>

definition admin_actor :: "admin_env \<Rightarrow> notify_error + string" where
  "admin_actor env = (if ae_actor env = [] then Inl ErrNoActor else Inr (ae_actor env))"

definition setting :: "chan_row \<Rightarrow> string \<Rightarrow> string" where
  \<comment> \<open>\<^verbatim>\<open>c.Settings[k]\<close>\<close>
  "setting c k = (case map_of (ch_settings c) k of None \<Rightarrow> [] | Some v \<Rightarrow> v)"

definition validatePushEndpoint :: "(string \<Rightarrow> url option) \<Rightarrow> string \<Rightarrow> bool" where
  "validatePushEndpoint parse txt =
     (if 4096 < length txt then False
      else case parse (trim_space txt) of
        None \<Rightarrow> False
      | Some u \<Rightarrow> \<not> (u_scheme u \<noteq> ''https'' \<or> u_host u = [] \<or> u_user u \<noteq> None \<or> u_fragment u \<noteq> []))"

definition parseCloudflareEndpoint :: "(string \<Rightarrow> url option) \<Rightarrow> string \<Rightarrow> bool" where
  "parseCloudflareEndpoint parse txt =
     (case parse (trim_space txt) of
        None \<Rightarrow> False
      | Some u \<Rightarrow>
          if u_host u = [] \<or> u_user u \<noteq> None \<or> (snd (before CHR ''?'' (u_rest u)) \<noteq> []) \<or> u_fragment u \<noteq> [] then False
          else if u_scheme u = ''https'' then True
          else if u_scheme u = ''http'' then Hostname u \<in> {''127.0.0.1'', ''localhost'', ''::1''}
          else False)"

definition looksSecret :: "string \<Rightarrow> string \<Rightarrow> bool" where
  "looksSecret k v =
     (let lk = to_lower k in
      if contains_sub lk ''secret'' \<or> contains_sub lk ''token'' \<or> contains_sub lk ''password'' \<or> contains_sub lk ''private''
      then True else contains_sub (to_lower v) ''secret'')"

definition validateChannel :: "admin_env \<Rightarrow> chan_row \<Rightarrow> notify_error + unit" where
  "validateChannel env c =
     (if \<not> validID (ch_id c) then Inl (ErrInvalidChannel ''id'')
      else if ch_kind c \<notin> {''inbox'', ''ntfy'', ''webpush'', ''cloudflare'', ''email''} then Inl (ErrInvalidChannel ''kind'')
      else if ch_kind c = ''inbox'' \<and> ch_id c \<noteq> ''inbox'' then Inl (ErrInvalidChannel ''inbox kind is reserved'')
      else if ch_kind c = ''ntfy'' \<and> trim_space (setting c ''topic'') = [] then Inl (ErrInvalidChannel ''ntfy requires topic'')
      else if ch_kind c = ''webpush'' \<and> trim_space (setting c ''endpoint'') = [] then
        Inl (ErrInvalidChannel ''webpush requires endpoint'')
      else if ch_kind c = ''webpush'' \<and> \<not> validatePushEndpoint (ae_parse env) (setting c ''endpoint'') then
        Inl (ErrInvalidChannel ''webpush endpoint is invalid'')
      else if ch_kind c = ''cloudflare'' \<and> trim_space (setting c ''endpoint'') = [] then
        Inl (ErrInvalidChannel ''cloudflare requires endpoint'')
      else if ch_kind c = ''cloudflare'' \<and> \<not> parseCloudflareEndpoint (ae_parse env) (setting c ''endpoint'') then
        Inl (ErrInvalidChannel ''cloudflare endpoint'')
      else if ch_kind c = ''cloudflare'' \<and> trim_space (ch_credential c) = [] then
        Inl (ErrInvalidChannel ''cloudflare requires a credential id'')
      else if ch_kind c = ''email'' \<and> \<not> ae_email env c then Inl (ErrInvalidChannel ''email'')
      else if list_ex (\<lambda>(k, v). looksSecret k v) (ch_settings c) then
        Inl (ErrInvalidChannel ''settings must not contain secrets'')
      else if ch_credential c \<noteq> [] then
        (case ae_creds env of
           None \<Rightarrow> Inl (ErrInvalidChannel ''credential runtime unavailable'')
         | Some known \<Rightarrow> if known (ch_credential c) then Inr () else Inl (ErrInvalidChannel ''credential''))
      else Inr ())"

fun dup_channel :: "string list \<Rightarrow> string list \<Rightarrow> notify_error + unit" where
  \<comment> \<open>the loop with the set \<^verbatim>\<open>seen\<close>\<close>
  "dup_channel seen [] = Inr ()"
| "dup_channel seen (ch # chs) =
     (if \<not> validID ch then Inl (ErrInvalidRule ''channel'')
      else if ch \<in> set seen then Inl (ErrInvalidRule ''duplicate channel'')
      else dup_channel (ch # seen) chs)"

record rule_in =
  ri_row :: rule_row \<comment> \<open>all fields but the throttle\<close>
  ri_throttle :: duration

definition normalizeRule :: "'p cel \<Rightarrow> rule_in \<Rightarrow> 'a notify_db_scheme \<Rightarrow> notify_error + rule_in" where
  "normalizeRule cel ri d =
     (let r = ri_row ri in
      if \<not> validID (rl_id r) then Inl (ErrInvalidRule ''id'')
      else case CompilePattern (rl_match r) of Inl _ \<Rightarrow> Inl (ErrInvalidRule ''match'') | Inr _ \<Rightarrow>
      case compileWhere cel (rl_where r) of Inl err \<Rightarrow> Inl err | Inr _ \<Rightarrow>
      case validateTemplate (rl_title r) of Inl err \<Rightarrow> Inl err | Inr _ \<Rightarrow>
      case validateTemplate (rl_body r) of Inl err \<Rightarrow> Inl err | Inr _ \<Rightarrow>
      case validateURL (rl_url r) of Inl err \<Rightarrow> Inl err | Inr nurl \<Rightarrow>
        if ri_throttle ri < 0 then Inl (ErrInvalidRule ''throttle'')
        else if rl_channels r = [] then Inl (ErrInvalidRule ''at least one channel'')
        else case dup_channel [] (rl_channels r) of Inl err \<Rightarrow> Inl err | Inr _ \<Rightarrow>
          if \<not> list_all (\<lambda>ch. ch \<in> set (map ch_id (nb_channels d))) (rl_channels r) then
            Inl (ErrInvalidRule ''unknown channel'')
          else Inr (ri\<lparr>ri_row := r\<lparr>rl_url := nurl\<rparr>\<rparr>))"

section \<open>The audit trail\<close>

definition auditConfig ::
  "'p notify_env \<Rightarrow> time \<Rightarrow> string \<Rightarrow> string \<Rightarrow> string \<Rightarrow> string \<Rightarrow> 'a notify_db_scheme \<Rightarrow> (notify_error + unit) \<times> 'a notify_db_scheme" where
  "auditConfig ne now actor kind obj action d =
     (let (aid, d1) = draw ne d;
          d2 = d1\<lparr>nb_audit := nb_audit d1 @ [\<lparr>au_id = aid, au_actor = actor, au_kind = kind, au_object = obj,
                 au_action = action, au_created = rfc now\<rparr>]\<rparr>
      in case PublishTx now \<lparr>in_type = ''core.notification.config_changed'', in_source = ''core.notifications'',
             in_subject = kind @ '':'' @ obj,
             in_payload = Payload (JObj [(''actor'', JStr actor), (''objectKind'', JStr kind), (''objectId'', JStr obj),
               (''action'', JStr action)])\<rparr> d2 of
           (Inl err, d3) \<Rightarrow> (Inl (ErrNotifyEvent err), d3)
         | (Inr _, d3) \<Rightarrow> (Inr (), d3))"

section \<open>Rules\<close>

definition ListRules :: "'a notify_db_scheme \<Rightarrow> rule_row list" where
  "ListRules d = sort_key rl_id (nb_rules d)"

definition stored_rule :: "rule_in \<Rightarrow> rule_row" where
  \<comment> \<open>\<^verbatim>\<open>int64(rule.Throttle / time.Second)\<close> of a duration that is not negative\<close>
  "stored_rule ri = (ri_row ri)\<lparr>rl_throttle_s := ri_throttle ri div seconds 1\<rparr>"

definition PutRule ::
  "'p notify_env \<Rightarrow> admin_env \<Rightarrow> time \<Rightarrow> rule_in \<Rightarrow> 'a notify_db_scheme \<Rightarrow> (notify_error + unit) \<times> 'a notify_db_scheme" where
  "PutRule ne env now ri d =
     (case admin_actor env of Inl err \<Rightarrow> (Inl err, d) | Inr actor \<Rightarrow>
      case normalizeRule (ne_cel ne) ri d of Inl err \<Rightarrow> (Inl err, d) | Inr ri1 \<Rightarrow>
      run_tx (\<lambda>d.
        let r = stored_rule ri1; n = sql_count (\<lambda>q. rl_id q = rl_id r) (nb_rules d) in
        if n = 0 then auditConfig ne now actor ''rule'' (rl_id r) ''create'' (d\<lparr>nb_rules := nb_rules d @ [r]\<rparr>)
        else auditConfig ne now actor ''rule'' (rl_id r) ''update''
          (d\<lparr>nb_rules := sql_update (\<lambda>q. rl_id q = rl_id r) (\<lambda>_. r) (nb_rules d)\<rparr>)) d)"

definition DeleteRule ::
  "'p notify_env \<Rightarrow> admin_env \<Rightarrow> time \<Rightarrow> string \<Rightarrow> 'a notify_db_scheme \<Rightarrow> (notify_error + unit) \<times> 'a notify_db_scheme" where
  "DeleteRule ne env now rid d =
     (case admin_actor env of Inl err \<Rightarrow> (Inl err, d) | Inr actor \<Rightarrow>
      run_tx (\<lambda>d.
        if sql_count (\<lambda>q. rl_id q = rid) (nb_rules d) = 0 then (Inl ErrUnknownRule, d)
        else auditConfig ne now actor ''rule'' rid ''delete''
          (d\<lparr>nb_rules := sql_delete (\<lambda>q. rl_id q = rid) (nb_rules d)\<rparr>)) d)"

section \<open>Channels\<close>

definition ListChannels :: "'a notify_db_scheme \<Rightarrow> chan_row list" where
  "ListChannels d = sort_key ch_id (nb_channels d)"

definition isExternalKind :: "string \<Rightarrow> bool" where
  "isExternalKind kind \<longleftrightarrow> kind = ''ntfy'' \<or> kind = ''webpush'' \<or> kind = ''cloudflare'' \<or> kind = ''email''"

definition attachToPluginAlert :: "string \<Rightarrow> 'a notify_db_scheme \<Rightarrow> 'a notify_db_scheme" where
  "attachToPluginAlert cid d =
     (case sql_find (\<lambda>r. rl_id r = ''plugin-alert'') (nb_rules d) of
        None \<Rightarrow> d
      | Some r \<Rightarrow>
          if cid \<in> set (rl_channels r) then d
          else d\<lparr>nb_rules := sql_update (\<lambda>q. rl_id q = ''plugin-alert'')
                 (\<lambda>q. q\<lparr>rl_channels := rl_channels r @ [cid]\<rparr>) (nb_rules d)\<rparr>)"

definition replace_refs :: "admin_env \<Rightarrow> string \<Rightarrow> string list \<Rightarrow> notify_error + unit" where
  "replace_refs env cid ids =
     (case ae_refs env of
        None \<Rightarrow> Inr ()
      | Some f \<Rightarrow> (case f (''notifications.channel:'' @ cid) ids of None \<Rightarrow> Inr () | Some err \<Rightarrow> Inl (ErrNotifyEvent err)))"

definition PutChannel ::
  "'p notify_env \<Rightarrow> admin_env \<Rightarrow> time \<Rightarrow> chan_row \<Rightarrow> 'a notify_db_scheme \<Rightarrow> (notify_error + unit) \<times> 'a notify_db_scheme" where
  "PutChannel ne env now c d =
     (case admin_actor env of Inl err \<Rightarrow> (Inl err, d) | Inr actor \<Rightarrow>
      case validateChannel env c of Inl err \<Rightarrow> (Inl err, d) | Inr _ \<Rightarrow>
      run_tx (\<lambda>d.
        let n = sql_count (\<lambda>q. ch_id q = ch_id c) (nb_channels d);
            action = (if n = 0 then ''create'' else ''update'');
            d1 = (if n = 0 then d\<lparr>nb_channels := nb_channels d @ [c]\<rparr>
                  else d\<lparr>nb_channels := sql_update (\<lambda>q. ch_id q = ch_id c) (\<lambda>_. c) (nb_channels d)\<rparr>)
        in case replace_refs env (ch_id c) (if ch_credential c \<noteq> [] then [ch_credential c] else []) of
             Inl err \<Rightarrow> (Inl err, d1)
           | Inr _ \<Rightarrow>
               auditConfig ne now actor ''channel'' (ch_id c) action
                 (if n = 0 \<and> ch_enabled c \<and> isExternalKind (ch_kind c) then attachToPluginAlert (ch_id c) d1 else d1)) d)"

definition detachChannelFromRules :: "string \<Rightarrow> 'a notify_db_scheme \<Rightarrow> 'a notify_db_scheme" where
  \<comment> \<open>the updates are collected first and name their rule by its primary key\<close>
  "detachChannelFromRules cid d =
     d\<lparr>nb_rules := sql_update (\<lambda>r. cid \<in> set (rl_channels r))
        (\<lambda>r. r\<lparr>rl_channels := filter (\<lambda>c. c \<noteq> cid) (rl_channels r)\<rparr>) (nb_rules d)\<rparr>"

definition DeleteChannel ::
  "'p notify_env \<Rightarrow> admin_env \<Rightarrow> time \<Rightarrow> string \<Rightarrow> 'a notify_db_scheme \<Rightarrow> (notify_error + unit) \<times> 'a notify_db_scheme" where
  "DeleteChannel ne env now cid d =
     (case admin_actor env of Inl err \<Rightarrow> (Inl err, d) | Inr actor \<Rightarrow>
      if cid = ''inbox'' then (Inl (ErrInvalidChannel ''inbox cannot be deleted''), d)
      else run_tx (\<lambda>d.
        let d1 = detachChannelFromRules cid d in
        if sql_count (\<lambda>q. ch_id q = cid) (nb_channels d1) = 0 then (Inl ErrUnknownChannel, d1)
        else
          (let d2 = d1\<lparr>nb_channels := sql_delete (\<lambda>q. ch_id q = cid) (nb_channels d1)\<rparr>
           in case replace_refs env cid [] of
                Inl err \<Rightarrow> (Inl err, d2)
              | Inr _ \<Rightarrow> auditConfig ne now actor ''channel'' cid ''delete'' d2)) d)"

section \<open>The inbox\<close>

record inbox_query =
  iq_unread :: bool
  iq_after :: string
  iq_limit :: int

definition inbox_limit :: "int \<Rightarrow> int" where
  "inbox_limit n = (let m = (if n \<le> 0 then 50 else n) in if 200 < m then 200 else m)"

definition newest_first :: "note_row list \<Rightarrow> note_row list" where
  \<comment> \<open>\<^verbatim>\<open>ORDER BY created_at DESC, id DESC\<close>\<close>
  "newest_first ns = rev (sort_key no_created (sort_key no_id ns))"

definition listed :: "string \<Rightarrow> inbox_query \<Rightarrow> note_row list \<Rightarrow> note_row \<Rightarrow> bool" where
  \<comment> \<open>the row comparison with the cursor is not true when the cursor names no notification\<close>
  "listed now q notes n \<longleftrightarrow> no_inbox n \<and> no_available n \<le> now \<and> no_ready n \<and>
     (iq_unread q \<longrightarrow> no_read n = None) \<and>
     (iq_after q \<noteq> [] \<longrightarrow>
       (case sql_find (\<lambda>m. no_id m = iq_after q) notes of
          None \<Rightarrow> False
        | Some m \<Rightarrow> no_created n < no_created m \<or> (no_created n = no_created m \<and> no_id n < iq_after q)))"

definition inbox_List :: "time \<Rightarrow> inbox_query \<Rightarrow> 'a notify_db_scheme \<Rightarrow> note_row list \<times> string" where
  "inbox_List now q d =
     (let lim = nat (inbox_limit (iq_limit q));
          items = take (lim + 1) (newest_first (filter (listed (rfc now) q (nb_notes d)) (nb_notes d)))
      in if lim < length items then (take lim items, no_id (last (take lim items))) else (items, []))"

definition inbox_Get :: "string \<Rightarrow> 'a notify_db_scheme \<Rightarrow> notify_error + note_row" where
  "inbox_Get nid d =
     (case sql_find (\<lambda>n. no_id n = nid \<and> no_inbox n) (nb_notes d) of None \<Rightarrow> Inl ErrUnknownNotif | Some n \<Rightarrow> Inr n)"

definition MarkRead :: "time \<Rightarrow> string \<Rightarrow> bool \<Rightarrow> 'a notify_db_scheme \<Rightarrow> (notify_error + unit) \<times> 'a notify_db_scheme" where
  "MarkRead now nid rd = run_tx (\<lambda>d.
     case sql_find (\<lambda>n. no_id n = nid \<and> no_inbox n \<and> no_ready n) (nb_notes d) of
       None \<Rightarrow> (Inl ErrUnknownNotif, d)
     | Some _ \<Rightarrow>
         (Inr (), d\<lparr>nb_notes := sql_update (\<lambda>n. no_id n = nid)
            (\<lambda>n. n\<lparr>no_read := if rd then Some (rfc now) else None\<rparr>) (nb_notes d)\<rparr>))"

section \<open>Health and defaults\<close>

definition send_when :: "send_row \<Rightarrow> string" where
  "send_when s = (case sd_last s of None \<Rightarrow> sd_next s | Some t \<Rightarrow> t)"

definition latest_send :: "string \<Rightarrow> send_row list \<Rightarrow> send_row option" where
  "latest_send cid sends =
     best_by (\<lambda>a b. send_when b < send_when a \<or> (send_when b = send_when a \<and> sd_id b < sd_id a))
       (filter (\<lambda>s. sd_channel s = cid) sends)"

definition DeliveryHealth :: "'a notify_db_scheme \<Rightarrow> (string \<times> send_state option \<times> string \<times> time option) list" where
  \<comment> \<open>\<^const>\<open>None\<close> is the state \<^verbatim>\<open>idle\<close>\<close>
  "DeliveryHealth d = map (\<lambda>c. case latest_send (ch_id c) (nb_sends d) of
        None \<Rightarrow> (ch_id c, None, [], None)
      | Some s \<Rightarrow> (ch_id c, Some (sd_state s), sd_error s,
          (case sd_last s of None \<Rightarrow> None | Some t \<Rightarrow> if t = [] then None else parse_time t)))
     (ListChannels d)"

definition default_rule :: "string \<Rightarrow> string \<Rightarrow> string \<Rightarrow> string \<Rightarrow> string \<Rightarrow> string \<Rightarrow> rule_row" where
  "default_rule rid m w title body url = \<lparr>rl_id = rid, rl_enabled = True, rl_match = m, rl_where = w,
     rl_channels = [''inbox''], rl_title = title, rl_body = body, rl_url = url, rl_throttle_s = 0\<rparr>"

definition plugin_where :: string where
  "plugin_where =
     (let q = [CHR 0x22] in ''string(event.source) != '' @ q @ ''core'' @ q @ '' && !string(event.source).startsWith('' @
        q @ ''core.'' @ q @ '')'')"

definition default_rules :: "rule_row list" where
  "default_rules =
    [default_rule ''plugin-alert'' ''*.alert'' plugin_where ''{event.subject}'' ''{event.payload.body}'' ''{event.payload.url}'',
     default_rule ''job-dead'' ''core.job.dead'' [] ''Job exhausted retries'' ''{event.subject}'' [],
     default_rule ''plugin-budget-exceeded'' ''core.plugin.budget_exceeded'' [] ''Budget exceeded'' ''{event.subject}'' [],
     default_rule ''plugin-accounting-failed'' ''core.plugin.accounting_invariant_failed'' [] ''Accounting invariant failed''
       ''{event.subject}'' [],
     default_rule ''credential-needs-reauth'' ''core.credential.needs_reauth'' [] ''Credential needs reauthorization''
       ''{event.subject}'' [],
     default_rule ''event-subscription-paused'' ''core.event.subscription_paused'' [] ''Durable subscriber paused''
       ''{event.subject}'' []]"

definition seedDefaults :: "'a notify_db_scheme \<Rightarrow> 'a notify_db_scheme" where
  "seedDefaults d =
     (let d1 = (if length (nb_channels d) = 0
                then d\<lparr>nb_channels := nb_channels d @ [\<lparr>ch_id = ''inbox'', ch_kind = ''inbox'', ch_settings = [],
                        ch_credential = [], ch_enabled = True\<rparr>]\<rparr> else d)
      in if length (nb_rules d1) \<noteq> 0 then d1 else d1\<lparr>nb_rules := nb_rules d1 @ default_rules\<rparr>)"

end
