(* ===== verification/Notify_Laws.thy ===== *)
theory Notify_Laws
  imports Notify_Admin
begin

text \<open>
  The invariant of the notification tables and its preservation: keys are codes that identify what they stand for, each
  notification counts the events it collapsed, a channel gets one send per notification, and a send that is not
  finished has attempts left. All transactions, in any interleaving and with any stale worker, keep it.
\<close>

section \<open>Keys\<close>

definition hexd :: "char \<Rightarrow> nat" where
  "hexd c = (if of_char c < (58 :: nat) then of_char c - 48 else of_char c - 87)"

lemma hexd_digit [simp]: "n < 16 \<Longrightarrow> hexd (hex_digit n) = n"
  by (simp add: hexd_def hex_digit_def)

fun unesc :: "string \<Rightarrow> char \<times> string" where
  \<comment> \<open>reads one escaped character back\<close>
  "unesc [] = (CHR 0x00, [])"
| "unesc (c # s) =
     (if c \<noteq> CHR 0x5C then (c, s)
      else case s of
        [] \<Rightarrow> (c, s)
      | k # t \<Rightarrow>
          if k = CHR 0x22 then (CHR 0x22, t)
          else if k = CHR 0x5C then (CHR 0x5C, t)
          else if k = CHR ''n'' then (CHR 0x0A, t)
          else if k = CHR ''r'' then (CHR 0x0D, t)
          else if k = CHR ''t'' then (CHR 0x09, t)
          else if k = CHR ''b'' then (CHR 0x08, t)
          else if k = CHR ''f'' then (CHR 0x0C, t)
          else (char_of (16 * hexd (t ! 2) + hexd (t ! 3)), drop 4 t))"

lemma unesc_esc [simp]: "unesc (json_esc c @ s) = (c, s)"
proof -
  have "16 * (of_char c div 16) + of_char c mod 16 = (of_char c :: nat)" by simp
  then have "char_of (16 * (of_char c div 16) + of_char c mod 16 :: nat) = c" by (metis char_of_char)
  then show ?thesis
    using char_halves[of c] by (simp add: json_esc_def)
qed

lemma json_esc_head: "\<exists>k ks. json_esc c = k # ks \<and> k \<noteq> CHR 0x22"
  by (simp add: json_esc_def)

lemma esc_cancel:
  "concat (map json_esc s) @ CHR 0x22 # x = concat (map json_esc t) @ CHR 0x22 # y \<Longrightarrow> s = t \<and> x = y"
proof (induction s arbitrary: t)
  case Nil
  then show ?case
  proof (cases t)
    case (Cons d t')
    obtain k ks where "json_esc d = k # ks" "k \<noteq> CHR 0x22" using json_esc_head by blast
    with Nil Cons show ?thesis by simp
  qed simp
next
  case (Cons c s)
  show ?case
  proof (cases t)
    case Nil
    obtain k ks where "json_esc c = k # ks" "k \<noteq> CHR 0x22" using json_esc_head by blast
    with Nil Cons.prems show ?thesis by simp
  next
    case (Cons d t')
    have e: "json_esc c @ (concat (map json_esc s) @ CHR 0x22 # x) = json_esc d @ (concat (map json_esc t') @ CHR 0x22 # y)"
      using Cons.prems Cons by simp
    from arg_cong[OF e, of unesc] have "c = d" "concat (map json_esc s) @ CHR 0x22 # x = concat (map json_esc t') @ CHR 0x22 # y"
      by simp_all
    with Cons.IH[of t'] Cons show ?thesis by simp
  qed
qed

lemma quote_cancel [simp]: "json_quote s @ x = json_quote t @ y \<longleftrightarrow> s = t \<and> x = y"
  using esc_cancel[of s x t y] by (auto simp: json_quote_def)

lemma json_quote_inj [simp]: "json_quote s = json_quote t \<longleftrightarrow> s = t"
  using quote_cancel[of s "[]" t "[]"] by simp

lemma digits_of_value: "0 \<le> n \<Longrightarrow> foldl (\<lambda>n c. 10 * n + digit_val c) 0 (digits_of n) = n"
proof (induction n rule: digits_of.induct)
  case (1 n)
  show ?case
  proof (cases "n < 10")
    case False
    then have "foldl (\<lambda>n c. 10 * n + digit_val c) 0 (digits_of (n div 10)) = n div 10" using 1 by simp
    then show ?thesis using False by (simp add: digits_of.simps[of n])
  qed (use 1 in \<open>simp add: digits_of.simps[of n]\<close>)
qed

lemma digits_of_digits: "0 \<le> n \<Longrightarrow> list_all is_digit (digits_of n)"
proof (induction n rule: digits_of.induct)
  case (1 n)
  then show ?case by (cases "n < 10") (simp_all add: digits_of.simps[of n])
qed

lemma digits_of_inj: "0 \<le> a \<Longrightarrow> 0 \<le> b \<Longrightarrow> digits_of a = digits_of b \<longleftrightarrow> a = b"
  using digits_of_value by metis

lemma digits_of_no_sign: "0 \<le> n \<Longrightarrow> digits_of n \<noteq> CHR ''-'' # s"
proof
  assume "0 \<le> n" "digits_of n = CHR ''-'' # s"
  then have "is_digit CHR ''-''" using digits_of_digits[of n] by simp
  then show False by (simp add: is_digit_def less_eq_char_def)
qed

lemma show_int_inj [simp]: "show_int a = show_int b \<longleftrightarrow> a = b"
  using digits_of_no_sign[of a "digits_of (- b)"] digits_of_no_sign[of b "digits_of (- a)"]
  by (auto simp: show_int_def digits_of_inj)

lemma show_int_tail [simp]: "show_int a @ s = show_int b @ s \<longleftrightarrow> a = b"
  by simp

lemma eventUniq_inj [simp]: "eventUniq r e = eventUniq r' e' \<longleftrightarrow> r = r' \<and> e = e'"
  by (simp add: eventUniq_def)

lemma windowUniq_inj [simp]: "windowUniq r s v w = windowUniq r' s' v' w' \<longleftrightarrow> r = r' \<and> s = s' \<and> v = v' \<and> w = w'"
  by (simp add: windowUniq_def)

lemma sendUniq_inj [simp]: "sendUniq k c = sendUniq k' c' \<longleftrightarrow> k = k' \<and> c = c'"
  by (simp add: sendUniq_def)

lemma uniq_kinds [simp]: "eventUniq r e \<noteq> windowUniq r' s v w" "windowUniq r' s v w \<noteq> eventUniq r e"
  by (simp_all add: eventUniq_def windowUniq_def)

section \<open>Frames\<close>

text \<open>What the notification tables are to the proofs, and what leaves them alone.\<close>

type_synonym ntables = "note_row list \<times> (string \<times> int) list \<times> throttle_row list \<times> send_row list"

definition ntab :: "'a notify_db_scheme \<Rightarrow> ntables" where
  "ntab d = (nb_notes d, nb_sources d, nb_throttles d, nb_sends d)"

lemma PublishTx_ntab [simp]:
  "nb_notes (snd (PublishTx now i d)) = nb_notes d"
  "nb_sources (snd (PublishTx now i d)) = nb_sources d"
  "nb_throttles (snd (PublishTx now i d)) = nb_throttles d"
  "nb_sends (snd (PublishTx now i d)) = nb_sends d"
  "nb_rules (snd (PublishTx now i d)) = nb_rules d"
  "nb_channels (snd (PublishTx now i d)) = nb_channels d"
  "nb_drawn (snd (PublishTx now i d)) = nb_drawn d"
  by (simp_all add: PublishTx_def Let_def split: sum.splits)

lemma publish_ready_snd: "snd (publish_ready now nid d) = snd (PublishTx now
    \<lparr>in_type = ''core.notification.ready'', in_source = ''core.notifications'', in_subject = nid,
     in_payload = Payload (JObj [(''notificationId'', JStr nid), (''state'', JStr ''ready'')])\<rparr> d)"
  by (simp add: publish_ready_def split: prod.splits sum.splits)

lemma draw_frame [simp]:
  "fst (draw env d) = newID (ne_rand env) (nb_drawn d)"
  "snd (draw env d) = d\<lparr>nb_drawn := Suc (nb_drawn d)\<rparr>"
  by (simp_all add: draw_def)

lemma draw_eq: "draw env d = (newID (ne_rand env) (nb_drawn d), d\<lparr>nb_drawn := Suc (nb_drawn d)\<rparr>)"
  by (simp add: draw_def)

section \<open>The invariant\<close>

definition send_wf :: "send_row \<Rightarrow> bool" where
  "send_wf s \<longleftrightarrow> 0 \<le> sd_attempts s \<and>
     (sd_state s \<notin> {Sent, SendFailed} \<longrightarrow> sd_attempts s < send_maxAttempts) \<and>
     (sd_state s = Sent \<longrightarrow> sd_sent s \<noteq> None) \<and> (sd_state s \<noteq> Sending \<longrightarrow> sd_lease s = None)"

definition sources_of :: "string \<Rightarrow> (string \<times> int) list \<Rightarrow> nat" where
  "sources_of nid srcs = length (filter (\<lambda>p. fst p = nid) srcs)"

definition notes_ok :: "note_row list \<Rightarrow> (string \<times> int) list \<Rightarrow> bool" where
  "notes_ok notes srcs \<longleftrightarrow> distinct (map no_id notes) \<and> distinct (map no_key notes) \<and> distinct srcs \<and>
     fst ` set srcs \<subseteq> no_id ` set notes \<and>
     (\<forall>n \<in> set notes. int (sources_of (no_id n) srcs) = no_collapsed n + 1)"

definition sends_ok :: "note_row list \<Rightarrow> send_row list \<Rightarrow> bool" where
  "sends_ok notes sends \<longleftrightarrow> distinct (map sd_id sends) \<and> distinct (map sd_key sends) \<and>
     (\<forall>s \<in> set sends. send_wf s \<and>
        (\<exists>n \<in> set notes. no_id n = sd_note s \<and> sd_key s = sendUniq (no_key n) (sd_channel s)))"

definition tables_ok :: "ntables \<Rightarrow> bool" where
  "tables_ok t = (case t of (notes, srcs, ths, sends) \<Rightarrow>
     notes_ok notes srcs \<and> th_note ` set ths \<subseteq> no_id ` set notes \<and> sends_ok notes sends)"

definition notify_ok :: "'a notify_db_scheme \<Rightarrow> bool" where
  "notify_ok d \<longleftrightarrow> tables_ok (ntab d)"

lemma notify_okI:
  assumes "notes_ok (nb_notes d) (nb_sources d)" "th_note ` set (nb_throttles d) \<subseteq> no_id ` set (nb_notes d)"
    "sends_ok (nb_notes d) (nb_sends d)"
  shows "notify_ok d"
  using assms by (simp add: notify_ok_def tables_ok_def ntab_def)

lemma notify_okD:
  assumes "notify_ok d"
  shows "notes_ok (nb_notes d) (nb_sources d)" "th_note ` set (nb_throttles d) \<subseteq> no_id ` set (nb_notes d)"
    "sends_ok (nb_notes d) (nb_sends d)"
  using assms by (simp_all add: notify_ok_def tables_ok_def ntab_def)

lemma notify_ok_cong:
  assumes "nb_notes d' = nb_notes d" "nb_sources d' = nb_sources d" "nb_throttles d' = nb_throttles d" "nb_sends d' = nb_sends d"
  shows "notify_ok d' = notify_ok d"
  using assms by (simp add: notify_ok_def ntab_def)

lemma PublishTx_ok [simp]: "notify_ok (snd (PublishTx now i d)) = notify_ok d"
  by (rule notify_ok_cong) simp_all

lemma drawn_ok [simp]: "notify_ok (d\<lparr>nb_drawn := k\<rparr>) = notify_ok d"
  by (rule notify_ok_cong) simp_all

text \<open>A note keeps its identity: what an update may change.\<close>

definition same_note :: "(note_row \<Rightarrow> note_row) \<Rightarrow> bool" where
  "same_note f \<longleftrightarrow> (\<forall>n. no_id (f n) = no_id n \<and> no_key (f n) = no_key n)"

lemma same_note_maps:
  assumes "same_note f"
  shows "map no_id (sql_update P f t) = map no_id t" "map no_key (sql_update P f t) = map no_key t"
  using assms by (auto simp: same_note_def sql_update_def)

lemma same_note_ids: "same_note f \<Longrightarrow> no_id ` set (sql_update P f t) = no_id ` set t"
  using same_note_maps(1)[of f P t] by (metis set_map)

lemma sends_ok_notes:
  assumes "sends_ok notes sends" "\<And>n. n \<in> set notes \<Longrightarrow> \<exists>m \<in> set notes'. no_id m = no_id n \<and> no_key m = no_key n"
  shows "sends_ok notes' sends"
  using assms unfolding sends_ok_def by metis

lemma sends_ok_update:
  assumes "sends_ok notes sends" "same_note f"
  shows "sends_ok (sql_update P f notes) sends"
proof (rule sends_ok_notes[OF assms(1)])
  fix n assume n: "n \<in> set notes"
  show "\<exists>m \<in> set (sql_update P f notes). no_id m = no_id n \<and> no_key m = no_key n"
  proof (rule bexI[of _ "if P n then f n else n"])
    show "no_id (if P n then f n else n) = no_id n \<and> no_key (if P n then f n else n) = no_key n"
      using assms(2) by (simp add: same_note_def)
  qed (use n in \<open>auto simp: set_sql_update\<close>)
qed

lemma notes_ok_update:
  assumes "notes_ok notes srcs" "same_note f" "\<And>n. no_collapsed (f n) = no_collapsed n"
  shows "notes_ok (sql_update P f notes) srcs"
proof -
  have "int (sources_of (no_id m) srcs) = no_collapsed m + 1" if m: "m \<in> set (sql_update P f notes)" for m
  proof -
    obtain n where "n \<in> set notes" "m = (if P n then f n else n)" using m by (auto simp: set_sql_update)
    then show ?thesis using assms by (auto simp: notes_ok_def same_note_def)
  qed
  then show ?thesis
    using assms(1) same_note_maps[OF assms(2), where P = P and t = "notes"]
      same_note_ids[OF assms(2), where P = P and t = "notes"]
    by (simp add: notes_ok_def)
qed

lemma note_update_ok:
  assumes "notify_ok d" "same_note f" "\<And>n. no_collapsed (f n) = no_collapsed n"
  shows "notify_ok (d\<lparr>nb_notes := sql_update P f (nb_notes d)\<rparr>)"
  by (rule notify_okI)
    (simp_all add: notes_ok_update[OF notify_okD(1)[OF assms(1)] assms(2,3)] notify_okD(2)[OF assms(1)]
      same_note_ids[OF assms(2)] sends_ok_update[OF notify_okD(3)[OF assms(1)] assms(2)])

section \<open>The handler keeps the invariant\<close>

definition pending_send :: "string \<Rightarrow> string \<Rightarrow> string \<Rightarrow> string \<Rightarrow> string \<Rightarrow> send_row" where
  "pending_send sid nid key ch nxt = \<lparr>sd_id = sid, sd_note = nid, sd_channel = ch, sd_key = sendUniq key ch, sd_state = Pending,
     sd_attempts = 0, sd_next = nxt, sd_lease = None, sd_error = [], sd_sent = None, sd_last = None\<rparr>"

lemma pending_send_simps [simp]:
  "sd_id (pending_send sid nid key ch nxt) = sid" "sd_note (pending_send sid nid key ch nxt) = nid"
  "sd_channel (pending_send sid nid key ch nxt) = ch" "sd_key (pending_send sid nid key ch nxt) = sendUniq key ch"
  "send_wf (pending_send sid nid key ch nxt)"
  by (simp_all add: pending_send_def send_wf_def send_maxAttempts_def)

lemma insert_send_ok:
  assumes "notify_ok d" "n \<in> set (nb_notes d)" "no_id n = nid" "no_key n = key"
  shows "notify_ok (insert_send (pending_send sid nid key ch nxt) d)"
proof -
  let ?s = "pending_send sid nid key ch nxt"
  note ok = notify_okD[OF assms(1)]
  show ?thesis
  proof (cases "\<exists>q \<in> set (nb_sends d). sd_id q = sd_id ?s \<or> sd_key q = sd_key ?s")
    case False
    then have "insert_send ?s d = d\<lparr>nb_sends := nb_sends d @ [?s]\<rparr>" by (simp add: insert_send_def)
    moreover have "sends_ok (nb_notes d) (nb_sends d @ [?s])"
      using ok(3) False assms(2-4) by (fastforce simp: sends_ok_def)
    ultimately show ?thesis by (intro notify_okI) (simp_all add: ok)
  qed (simp add: insert_send_def assms(1))
qed

lemma insert_send_frame [simp]:
  "nb_notes (insert_send s d) = nb_notes d" "nb_sources (insert_send s d) = nb_sources d"
  "nb_throttles (insert_send s d) = nb_throttles d" "nb_rules (insert_send s d) = nb_rules d"
  "nb_channels (insert_send s d) = nb_channels d" "nb_drawn (insert_send s d) = nb_drawn d"
  "ev_rows (insert_send s d) = ev_rows d" "ev_seq (insert_send s d) = ev_seq d" "ev_cursors (insert_send s d) = ev_cursors d"
  "ev_oldest (insert_send s d) = ev_oldest d" "nb_audit (insert_send s d) = nb_audit d"
  by (simp_all add: insert_send_def)

lemma insertSends_step:
  "insertSends env nid key nxt (ch # chs) d =
     (if ch \<noteq> ''inbox'' \<and> (\<exists>c. sql_find (\<lambda>c. ch_id c = ch) (nb_channels d) = Some c \<and> ch_enabled c)
      then insertSends env nid key nxt chs
        (insert_send (pending_send (newID (ne_rand env) (nb_drawn d)) nid key ch nxt) (d\<lparr>nb_drawn := Suc (nb_drawn d)\<rparr>))
      else insertSends env nid key nxt chs d)"
  by (simp add: draw_eq pending_send_def split: option.splits)

declare insertSends.simps(2) [simp del]

lemma insertSends_frame [simp]:
  "nb_notes (insertSends env nid key nxt chs d) = nb_notes d"
  "nb_sources (insertSends env nid key nxt chs d) = nb_sources d"
  "nb_throttles (insertSends env nid key nxt chs d) = nb_throttles d"
  "nb_rules (insertSends env nid key nxt chs d) = nb_rules d"
  "nb_channels (insertSends env nid key nxt chs d) = nb_channels d"
  "ev_rows (insertSends env nid key nxt chs d) = ev_rows d"
  "ev_seq (insertSends env nid key nxt chs d) = ev_seq d"
  "ev_cursors (insertSends env nid key nxt chs d) = ev_cursors d"
  "ev_oldest (insertSends env nid key nxt chs d) = ev_oldest d"
  by (induction chs arbitrary: d) (simp_all add: insertSends_step)

lemma insertSends_ok:
  assumes "notify_ok d" "n \<in> set (nb_notes d)" "no_id n = nid" "no_key n = key"
  shows "notify_ok (insertSends env nid key nxt chs d)"
  using assms(1,2)
proof (induction chs arbitrary: d)
  case (Cons ch chs)
  show ?case
  proof (cases "ch \<noteq> ''inbox'' \<and> (\<exists>c. sql_find (\<lambda>c. ch_id c = ch) (nb_channels d) = Some c \<and> ch_enabled c)")
    case True
    let ?d = "insert_send (pending_send (newID (ne_rand env) (nb_drawn d)) nid key ch nxt) (d\<lparr>nb_drawn := Suc (nb_drawn d)\<rparr>)"
    have "notify_ok ?d" using Cons.prems assms(3,4) by (intro insert_send_ok) simp_all
    then have "notify_ok (insertSends env nid key nxt chs ?d)" using Cons.prems(2) by (intro Cons.IH) simp_all
    then show ?thesis using True by (simp add: insertSends_step)
  next
    case False
    have "insertSends env nid key nxt (ch # chs) d = insertSends env nid key nxt chs d"
      by (simp only: insertSends_step if_not_P[OF False])
    then show ?thesis using Cons by simp
  qed
qed simp

text \<open>A new notification with its first source, and maybe its window.\<close>

lemma new_note_ok:
  assumes "notify_ok d" "\<forall>m \<in> set (nb_notes d). no_id m \<noteq> no_id n \<and> no_key m \<noteq> no_key n" "no_collapsed n = 0"
    "nb_notes d' = nb_notes d @ [n]" "nb_sources d' = nb_sources d @ [(no_id n, e)]"
    "set (nb_throttles d') \<subseteq> set (nb_throttles d) \<union> {t}" "th_note t = no_id n" "nb_sends d' = nb_sends d"
  shows "notify_ok d'"
proof (rule notify_okI)
  note ok = notify_okD[OF assms(1)]
  have new: "no_id n \<notin> no_id ` set (nb_notes d)" "no_key n \<notin> no_key ` set (nb_notes d)" using assms(2) by auto
  have src: "fst ` set (nb_sources d) \<subseteq> no_id ` set (nb_notes d)" using ok(1) by (simp add: notes_ok_def)
  then have none: "filter (\<lambda>p. fst p = no_id n) (nb_sources d) = []" using new(1) by (auto simp: filter_empty_conv)
  have count: "int (sources_of (no_id m) (nb_sources d @ [(no_id n, e)])) = no_collapsed m + 1" if "m \<in> set (nb_notes d @ [n])" for m
  proof (cases "m = n")
    case True
    then show ?thesis using none assms(3) by (simp add: sources_of_def)
  next
    case False
    then have m: "m \<in> set (nb_notes d)" using that by simp
    then have "no_id m \<noteq> no_id n" using assms(2) by simp
    moreover have "int (sources_of (no_id m) (nb_sources d)) = no_collapsed m + 1" using ok(1) m by (simp add: notes_ok_def)
    ultimately show ?thesis by (simp add: sources_of_def)
  qed
  have fresh: "(no_id n, e) \<notin> set (nb_sources d)" using src new(1) by (metis fst_conv image_eqI subsetD)
  show "notes_ok (nb_notes d') (nb_sources d')"
    unfolding assms(4,5) notes_ok_def
  proof (intro conjI)
    show "distinct (map no_id (nb_notes d @ [n]))" "distinct (map no_key (nb_notes d @ [n]))"
      "distinct (nb_sources d @ [(no_id n, e)])"
      using ok(1) new fresh by (simp_all add: notes_ok_def)
    show "fst ` set (nb_sources d @ [(no_id n, e)]) \<subseteq> no_id ` set (nb_notes d @ [n])" using src by auto
    show "\<forall>m \<in> set (nb_notes d @ [n]). int (sources_of (no_id m) (nb_sources d @ [(no_id n, e)])) = no_collapsed m + 1"
      using count by blast
  qed
  show "th_note ` set (nb_throttles d') \<subseteq> no_id ` set (nb_notes d')"
    using ok(2) assms(4,6,7) by auto
  have "sends_ok (nb_notes d @ [n]) (nb_sends d)"
  proof (rule sends_ok_notes[OF ok(3)])
    fix m assume "m \<in> set (nb_notes d)"
    then show "\<exists>m' \<in> set (nb_notes d @ [n]). no_id m' = no_id m \<and> no_key m' = no_key m" by (intro bexI[of _ m]) simp_all
  qed
  then show "sends_ok (nb_notes d') (nb_sends d')" unfolding assms(4,8) .
qed

lemma insert_noteE:
  assumes "insert_note n d = (b, d')"
  obtains "b" "\<forall>m \<in> set (nb_notes d). no_id m \<noteq> no_id n \<and> no_key m \<noteq> no_key n" "d' = d\<lparr>nb_notes := nb_notes d @ [n]\<rparr>"
  | "\<not> b" "d' = d" "\<exists>m \<in> set (nb_notes d). no_id m = no_id n \<or> no_key m = no_key n"
proof (cases "\<exists>m \<in> set (nb_notes d). no_id m = no_id n \<or> no_key m = no_key n")
  case True
  then have "insert_note n d = (False, d)" by (simp add: insert_note_def)
  with assms True that(2) show ?thesis by simp
next
  case False
  then have "insert_note n d = (True, d\<lparr>nb_notes := nb_notes d @ [n]\<rparr>)" by (simp add: insert_note_def)
  moreover have "\<forall>m \<in> set (nb_notes d). no_id m \<noteq> no_id n \<and> no_key m \<noteq> no_key n" using False by blast
  ultimately show ?thesis using assms that(1) by simp
qed

lemma insert_source_new:
  "notify_ok d \<Longrightarrow> nid \<notin> no_id ` set (nb_notes d) \<Longrightarrow> nb_sources d' = nb_sources d \<Longrightarrow>
   snd (insert_source nid e d') = d'\<lparr>nb_sources := nb_sources d @ [(nid, e)]\<rparr>"
proof -
  assume a: "notify_ok d" "nid \<notin> no_id ` set (nb_notes d)" "nb_sources d' = nb_sources d"
  have "fst ` set (nb_sources d) \<subseteq> no_id ` set (nb_notes d)" using notify_okD(1)[OF a(1)] by (simp add: notes_ok_def)
  then have "(nid, e) \<notin> set (nb_sources d)" using a(2) by (metis fst_conv image_eqI subsetD)
  then show ?thesis using a(3) by (simp add: insert_source_def)
qed

definition event_note :: "rule_row \<Rightarrow> event \<Rightarrow> string \<Rightarrow> string \<Rightarrow> string \<times> string \<times> string \<Rightarrow> string \<Rightarrow> string \<Rightarrow> bool \<Rightarrow> note_row" where
  \<comment> \<open>the row the handler inserts\<close>
  "event_note r e nid key txt avail created ready =
     \<lparr>no_id = nid, no_event = ev_id e, no_key = key, no_rule = rl_id r, no_source = fst (throttleSubject e),
      no_value = snd (throttleSubject e), no_title = fst txt, no_body = fst (snd txt), no_url = snd (snd txt), no_collapsed = 0,
      no_available = avail, no_created = created, no_read = None, no_inbox = hasInbox (rl_channels r), no_ready = ready\<rparr>"

lemma event_note_simps [simp]:
  "no_id (event_note r e nid key txt avail created ready) = nid"
  "no_key (event_note r e nid key txt avail created ready) = key"
  "no_collapsed (event_note r e nid key txt avail created ready) = 0"
  "no_ready (event_note r e nid key txt avail created ready) = ready"
  "no_rule (event_note r e nid key txt avail created ready) = rl_id r"
  "no_event (event_note r e nid key txt avail created ready) = ev_id e"
  by (simp_all add: event_note_def)

definition next_id :: "'p notify_env \<Rightarrow> 'a notify_db_scheme \<Rightarrow> string" where
  "next_id env d = newID (ne_rand env) (nb_drawn d)"

definition drawn :: "'a notify_db_scheme \<Rightarrow> 'a notify_db_scheme" where
  "drawn d = d\<lparr>nb_drawn := Suc (nb_drawn d)\<rparr>"

lemma drawn_simps [simp]:
  "nb_notes (drawn d) = nb_notes d" "nb_sources (drawn d) = nb_sources d" "nb_throttles (drawn d) = nb_throttles d"
  "nb_sends (drawn d) = nb_sends d" "nb_rules (drawn d) = nb_rules d" "nb_channels (drawn d) = nb_channels d"
  "notify_ok (drawn d) = notify_ok d" "ev_rows (drawn d) = ev_rows d" "ev_seq (drawn d) = ev_seq d"
  "ev_cursors (drawn d) = ev_cursors d" "ev_oldest (drawn d) = ev_oldest d"
  by (simp_all add: drawn_def)

definition clash :: "string \<Rightarrow> string \<Rightarrow> 'a notify_db_scheme \<Rightarrow> bool" where
  "clash nid key d \<longleftrightarrow> (\<exists>m \<in> set (nb_notes d). no_id m = nid \<or> no_key m = key)"

lemma applyImmediate_unfold:
  "applyImmediate env now r e payload d =
     (case render (look_of env e payload 0) r of
        Inl _ \<Rightarrow> (Inr (), d)
      | Inr txt \<Rightarrow>
          (let nid = next_id env d; key = eventUniq (rl_id r) (ev_id e) in
           if clash nid key d then (Inr (), drawn d)
           else publish_ready now nid
             (insertSends env nid key (rfc now) (rl_channels r)
               (snd (insert_source nid (ev_id e)
                 ((drawn d)\<lparr>nb_notes := nb_notes d @ [event_note r e nid key txt (rfc now) (rfc now) True]\<rparr>))))))"
  by (simp add: applyImmediate_def draw_eq next_id_def[symmetric] drawn_def[symmetric] insert_note_def clash_def Let_def
      event_note_def split_beta split: sum.splits prod.splits)

lemma applyThrottled_unfold:
  "applyThrottled env now r e payload d =
     (case open_window (rl_id r) (fst (throttleSubject e)) (snd (throttleSubject e)) (rfc now) d of
        Some t \<Rightarrow> attachThrottle env r e payload (th_note t) d
      | None \<Rightarrow>
          (case render (look_of env e payload 0) r of
             Inl _ \<Rightarrow> (Inr (), d)
           | Inr txt \<Rightarrow>
               (let nid = next_id env d; stop = rfc (now + throttle_of r);
                    key = windowUniq (rl_id r) (fst (throttleSubject e)) (snd (throttleSubject e)) (rfc now) in
                if clash nid key d then (Inr (), drawn d)
                else (Inr (), insertSends env nid key stop (rl_channels r)
                  (snd (insert_source nid (ev_id e)
                    (insert_throttle \<lparr>th_rule = rl_id r, th_source = fst (throttleSubject e), th_value = snd (throttleSubject e),
                       th_started = rfc now, th_ends = stop, th_note = nid\<rparr>
                      ((drawn d)\<lparr>nb_notes := nb_notes d @ [event_note r e nid key txt stop (rfc now) False]\<rparr>))))))))"
  by (simp add: applyThrottled_def draw_eq next_id_def[symmetric] drawn_def[symmetric] insert_note_def clash_def Let_def
      event_note_def split_beta split: sum.splits prod.splits option.splits)

definition bump :: "note_row \<Rightarrow> note_row" where
  "bump n = n\<lparr>no_collapsed := no_collapsed n + 1\<rparr>"

definition attached :: "string \<Rightarrow> int \<Rightarrow> 'a notify_db_scheme \<Rightarrow> 'a notify_db_scheme" where
  "attached nid eid d = d\<lparr>nb_sources := nb_sources d @ [(nid, eid)],
     nb_notes := sql_update (\<lambda>n. no_id n = nid) bump (nb_notes d)\<rparr>"

lemma attachThrottle_unfold:
  "attachThrottle env r e payload nid d =
     (if (nid, ev_id e) \<in> set (nb_sources d) then (Inr (), d)
      else let d2 = attached nid (ev_id e) d in
        case sql_find (\<lambda>n. no_id n = nid) (nb_notes d2) of
          None \<Rightarrow> (Inl ErrEventsSQL, d2)
        | Some n \<Rightarrow>
            (case render (look_of env e payload (no_collapsed n)) r of
               Inl _ \<Rightarrow> (Inr (), d2)
             | Inr (title, body, url) \<Rightarrow>
                 (Inr (), d2\<lparr>nb_notes := sql_update (\<lambda>n. no_id n = nid) (set_text title body url) (nb_notes d2)\<rparr>)))"
proof -
  have "bump = (\<lambda>n. n\<lparr>no_collapsed := no_collapsed n + 1\<rparr>)" by (rule ext) (simp add: bump_def)
  then show ?thesis by (simp add: attachThrottle_def insert_source_def attached_def Let_def
        cong: option.case_cong sum.case_cong prod.case_cong)
qed

lemma same_note_bump [simp]: "same_note bump"
  by (simp add: same_note_def bump_def)

lemma same_note_set_text [simp]: "same_note (set_text title body url)"
  by (simp add: same_note_def set_text_def)

lemma attached_ok:
  assumes "notify_ok d" "nid \<in> no_id ` set (nb_notes d)" "(nid, eid) \<notin> set (nb_sources d)"
  shows "notify_ok (attached nid eid d)"
proof (rule notify_okI)
  note ok = notify_okD[OF assms(1)]
  let ?f = "\<lambda>n. if no_id n = nid then bump n else n"
  have ids: "no_id ` set (sql_update (\<lambda>n. no_id n = nid) bump (nb_notes d)) = no_id ` set (nb_notes d)"
    by (rule same_note_ids) simp
  have count: "int (sources_of (no_id m) (nb_sources d @ [(nid, eid)])) = no_collapsed m + 1"
    if m: "m \<in> set (sql_update (\<lambda>n. no_id n = nid) bump (nb_notes d))" for m
  proof -
    obtain n where n: "n \<in> set (nb_notes d)" "m = ?f n" using m by (auto simp: set_sql_update)
    have "int (sources_of (no_id n) (nb_sources d)) = no_collapsed n + 1" using ok(1) n(1) by (simp add: notes_ok_def)
    then show ?thesis using n(2) by (cases "no_id n = nid") (auto simp: sources_of_def bump_def)
  qed
  have "distinct (map no_id (sql_update (\<lambda>n. no_id n = nid) bump (nb_notes d)))"
    "distinct (map no_key (sql_update (\<lambda>n. no_id n = nid) bump (nb_notes d)))"
    using ok(1) by (simp_all add: same_note_maps notes_ok_def)
  moreover have "distinct (nb_sources d @ [(nid, eid)])" using ok(1) assms(3) by (simp add: notes_ok_def)
  moreover have "fst ` set (nb_sources d @ [(nid, eid)]) \<subseteq> no_id ` set (nb_notes d)"
    using ok(1) assms(2) by (simp add: notes_ok_def)
  ultimately show "notes_ok (nb_notes (attached nid eid d)) (nb_sources (attached nid eid d))"
    using count by (simp add: attached_def notes_ok_def ids)
  show "th_note ` set (nb_throttles (attached nid eid d)) \<subseteq> no_id ` set (nb_notes (attached nid eid d))"
    using ok(2) by (simp add: attached_def ids)
  show "sends_ok (nb_notes (attached nid eid d)) (nb_sends (attached nid eid d))"
    using sends_ok_update[OF ok(3) same_note_bump] by (simp add: attached_def)
qed

lemma attached_find:
  assumes "nid \<in> no_id ` set (nb_notes d)"
  shows "\<exists>n. sql_find (\<lambda>n. no_id n = nid) (nb_notes (attached nid eid d)) = Some n"
proof -
  have "nid \<in> no_id ` set (nb_notes (attached nid eid d))"
    using assms same_note_ids[OF same_note_bump] by (simp add: attached_def)
  then show ?thesis
    by (cases "sql_find (\<lambda>n. no_id n = nid) (nb_notes (attached nid eid d))") (auto simp: sql_find_None)
qed

lemma attachThrottle_ok:
  assumes "notify_ok d" "nid \<in> no_id ` set (nb_notes d)"
  shows "notify_ok (snd (attachThrottle env r e payload nid d))" "fst (attachThrottle env r e payload nid d) = Inr ()"
proof -
  obtain n where n: "sql_find (\<lambda>n. no_id n = nid) (nb_notes (attached nid (ev_id e) d)) = Some n"
    using attached_find[OF assms(2)] by blast
  have upd: "notify_ok (attached nid (ev_id e) d) \<Longrightarrow>
      notify_ok (attached nid (ev_id e) d\<lparr>nb_notes := sql_update P (set_text t b u) (nb_notes (attached nid (ev_id e) d))\<rparr>)" for P t b u
    by (rule note_update_ok) (simp_all add: set_text_def)
  show "notify_ok (snd (attachThrottle env r e payload nid d))"
    using attached_ok[OF assms, of "ev_id e"] upd n assms(1)
    by (auto simp: attachThrottle_unfold Let_def split: sum.splits)
  show "fst (attachThrottle env r e payload nid d) = Inr ()"
    using n by (auto simp: attachThrottle_unfold Let_def split: sum.splits)
qed

lemma open_window_note:
  assumes "notify_ok d" "open_window rid s v now d = Some t"
  shows "th_note t \<in> no_id ` set (nb_notes d)"
proof -
  have "t \<in> set (nb_throttles d)" using assms(2) best_by_mem unfolding open_window_def by fastforce
  then show ?thesis using notify_okD(2)[OF assms(1)] by blast
qed

lemma fresh_note:
  assumes "\<not> clash nid key d"
  shows "\<forall>m \<in> set (nb_notes d). no_id m \<noteq> nid \<and> no_key m \<noteq> key" "nid \<notin> no_id ` set (nb_notes d)"
  using assms by (auto simp: clash_def)

lemma insert_throttle_frame [simp]:
  "nb_notes (insert_throttle t d) = nb_notes d" "nb_sources (insert_throttle t d) = nb_sources d"
  "nb_sends (insert_throttle t d) = nb_sends d" "nb_rules (insert_throttle t d) = nb_rules d"
  "nb_channels (insert_throttle t d) = nb_channels d" "nb_drawn (insert_throttle t d) = nb_drawn d"
  "ev_rows (insert_throttle t d) = ev_rows d" "ev_seq (insert_throttle t d) = ev_seq d"
  "ev_cursors (insert_throttle t d) = ev_cursors d" "ev_oldest (insert_throttle t d) = ev_oldest d"
  "set (nb_throttles (insert_throttle t d)) \<subseteq> set (nb_throttles d) \<union> {t}"
  by (auto simp: insert_throttle_def)

definition add_note :: "note_row \<Rightarrow> int \<Rightarrow> throttle_row option \<Rightarrow> 'a notify_db_scheme \<Rightarrow> 'a notify_db_scheme" where
  \<comment> \<open>a new notification, its window and its first source\<close>
  "add_note n eid t d =
     (let d1 = d\<lparr>nb_notes := nb_notes d @ [n]\<rparr>; d2 = (case t of None \<Rightarrow> d1 | Some t \<Rightarrow> insert_throttle t d1)
      in d2\<lparr>nb_sources := nb_sources d @ [(no_id n, eid)]\<rparr>)"

lemma add_note_frame [simp]:
  "nb_notes (add_note n eid t d) = nb_notes d @ [n]" "nb_sources (add_note n eid t d) = nb_sources d @ [(no_id n, eid)]"
  "nb_sends (add_note n eid t d) = nb_sends d" "nb_rules (add_note n eid t d) = nb_rules d"
  "nb_channels (add_note n eid t d) = nb_channels d" "nb_drawn (add_note n eid t d) = nb_drawn d"
  "ev_rows (add_note n eid t d) = ev_rows d" "ev_seq (add_note n eid t d) = ev_seq d"
  "ev_cursors (add_note n eid t d) = ev_cursors d" "ev_oldest (add_note n eid t d) = ev_oldest d"
  by (simp_all add: add_note_def Let_def split: option.splits)

lemma add_note_ok:
  assumes "notify_ok d" "\<not> clash (no_id n) (no_key n) d" "no_collapsed n = 0" "case t of None \<Rightarrow> True | Some t \<Rightarrow> th_note t = no_id n"
  shows "notify_ok (add_note n eid t d)"
proof (rule new_note_ok[OF assms(1) fresh_note(1)[OF assms(2)] assms(3)])
  let ?t = "case t of None \<Rightarrow> \<lparr>th_rule = [], th_source = [], th_value = [], th_started = [], th_ends = [], th_note = no_id n\<rparr> | Some t \<Rightarrow> t"
  show "set (nb_throttles (add_note n eid t d)) \<subseteq> set (nb_throttles d) \<union> {?t}"
    using insert_throttle_frame(11)[of ?t "d\<lparr>nb_notes := nb_notes d @ [n]\<rparr>"]
    by (cases t) (simp_all add: add_note_def Let_def subset_insertI)
  show "th_note ?t = no_id n" using assms(4) by (cases t) simp_all
qed simp_all

text \<open>The two ways a rule makes a notification, in terms of \<open>add_note\<close>.\<close>

lemma applyImmediate_eq:
  assumes "notify_ok d"
  shows "applyImmediate env now r e payload d =
     (case render (look_of env e payload 0) r of
        Inl _ \<Rightarrow> (Inr (), d)
      | Inr txt \<Rightarrow>
          (let nid = next_id env d; key = eventUniq (rl_id r) (ev_id e) in
           if clash nid key d then (Inr (), drawn d)
           else publish_ready now nid (insertSends env nid key (rfc now) (rl_channels r)
             (add_note (event_note r e nid key txt (rfc now) (rfc now) True) (ev_id e) None (drawn d)))))"
  by (simp add: applyImmediate_unfold add_note_def Let_def insert_source_new[OF assms] fresh_note(2)
      cong: sum.case_cong if_cong)

lemma applyThrottled_eq:
  assumes "notify_ok d"
  shows "applyThrottled env now r e payload d =
     (case open_window (rl_id r) (fst (throttleSubject e)) (snd (throttleSubject e)) (rfc now) d of
        Some t \<Rightarrow> attachThrottle env r e payload (th_note t) d
      | None \<Rightarrow>
          (case render (look_of env e payload 0) r of
             Inl _ \<Rightarrow> (Inr (), d)
           | Inr txt \<Rightarrow>
               (let nid = next_id env d; stop = rfc (now + throttle_of r);
                    key = windowUniq (rl_id r) (fst (throttleSubject e)) (snd (throttleSubject e)) (rfc now) in
                if clash nid key d then (Inr (), drawn d)
                else (Inr (), insertSends env nid key stop (rl_channels r)
                  (add_note (event_note r e nid key txt stop (rfc now) False) (ev_id e)
                    (Some \<lparr>th_rule = rl_id r, th_source = fst (throttleSubject e), th_value = snd (throttleSubject e),
                       th_started = rfc now, th_ends = stop, th_note = nid\<rparr>) (drawn d))))))"
  by (simp add: applyThrottled_unfold add_note_def Let_def insert_source_new[OF assms] fresh_note(2)
      cong: sum.case_cong option.case_cong if_cong)

section \<open>The handler as a durable handler\<close>

definition quiet :: "'a notify_db_scheme \<Rightarrow> 'a notify_db_scheme \<Rightarrow> bool" where
  \<comment> \<open>what every step of the handler does to the tables of the events module and to the configuration\<close>
  "quiet d d' \<longleftrightarrow> ev_cursors d' = ev_cursors d \<and> log_grows d d' \<and> nb_rules d' = nb_rules d \<and> nb_channels d' = nb_channels d"

lemma quiet_refl [simp]: "quiet d d"
  by (simp add: quiet_def)

lemma quiet_trans: "quiet a b \<Longrightarrow> quiet b c \<Longrightarrow> quiet a c"
  unfolding quiet_def using log_grows_trans by metis

lemma quiet_same:
  "ev_cursors d' = ev_cursors d \<Longrightarrow> ev_rows d' = ev_rows d \<Longrightarrow> ev_seq d' = ev_seq d \<Longrightarrow> ev_oldest d' = ev_oldest d \<Longrightarrow>
   nb_rules d' = nb_rules d \<Longrightarrow> nb_channels d' = nb_channels d \<Longrightarrow> quiet d d'"
  by (simp add: quiet_def log_grows_same)

lemma quiet_publish: "quiet d (snd (PublishTx now i d))"
  by (simp add: quiet_def PublishTx_grows)

lemma quiet_publish_ready: "quiet d (snd (publish_ready now nid d))"
  unfolding publish_ready_snd by (rule quiet_publish)

lemma quiet_attach: "quiet d (snd (attachThrottle env r e payload nid d))"
  by (auto simp: attachThrottle_unfold Let_def attached_def intro!: quiet_same split: option.splits sum.splits)

lemma quiet_insert_source: "quiet d (snd (insert_source nid eid d))"
  by (auto simp: insert_source_def intro: quiet_same)

lemma quiet_sends: "quiet d (insertSends env nid key nxt chs d)"
  by (rule quiet_same) simp_all

lemma quiet_notes: "quiet d ((drawn d)\<lparr>nb_notes := ns\<rparr>)" "quiet d (drawn d)"
  by (rule quiet_same; simp)+

lemma quiet_throttle: "quiet d (insert_throttle t d)"
  by (rule quiet_same) simp_all

lemma quiet_immediate: "quiet d (snd (applyImmediate env now r e payload d))"
proof -
  have "quiet d (snd (publish_ready now a (insertSends env a k x chs (snd (insert_source a b ((drawn d)\<lparr>nb_notes := ns\<rparr>))))))" for a b k x chs ns
    by (rule quiet_trans[OF quiet_notes(1) quiet_trans[OF quiet_insert_source quiet_trans[OF quiet_sends quiet_publish_ready]]])
  then show ?thesis by (auto simp: applyImmediate_unfold Let_def quiet_notes split: sum.splits)
qed

lemma quiet_throttled: "quiet d (snd (applyThrottled env now r e payload d))"
proof -
  have "quiet d (insertSends env a k x chs (snd (insert_source a b (insert_throttle t ((drawn d)\<lparr>nb_notes := ns\<rparr>)))))" for a b k x chs t ns
    by (rule quiet_trans[OF quiet_notes(1) quiet_trans[OF quiet_throttle quiet_trans[OF quiet_insert_source quiet_sends]]])
  then show ?thesis by (auto simp: applyThrottled_unfold Let_def quiet_notes quiet_attach split: sum.splits option.splits)
qed

lemma quiet_rule: "quiet d (snd (applyRule env now e payload rp d))"
  by (simp add: applyRule_def quiet_immediate quiet_throttled split: prod.splits sum.splits option.splits)

lemma quiet_rules: "quiet d (snd (apply_rules env now e payload rps d))"
proof (induction rps arbitrary: d)
  case (Cons rp rps)
  show ?case
  proof (cases "applyRule env now e payload rp d")
    case (Pair r d1)
    then have "quiet d d1" using quiet_rule[of d env now e payload rp] by simp
    with Pair Cons.IH[of d1] show ?thesis by (cases r) (auto intro: quiet_trans)
  qed
qed simp

lemma quiet_handle: "quiet d (snd (handleEvent env now e d))"
  by (simp add: handleEvent_def quiet_rules)

lemma notify_handler_snd: "snd (notify_handler env now e d) = snd (handleEvent env now e d)"
  by (simp add: notify_handler_def split: prod.splits sum.splits)

interpretation notifier: tx_handler "notify_handler env now"
  by unfold_locales (use quiet_handle[of _ env now] in \<open>auto simp: notify_handler_snd quiet_def\<close>)

section \<open>The handler cannot fail\<close>

lemma length_quote_le: "length (json_quote s) \<le> 6 * length s + 2"
proof -
  have "length (json_esc c) \<le> 6" for c by (simp add: json_esc_def)
  then have "length (concat (map json_esc s)) \<le> 6 * length s"
    by (induction s) (simp_all add: add_mono)
  then show ?thesis by (simp add: json_quote_def)
qed

lemma length_newID [simp]: "length (newID rnd k) = 32"
  by (simp add: newID_def upt_rec)

lemma ready_payload:
  "json_marshal (JObj [(''notificationId'', JStr nid), (''state'', JStr ''ready'')]) =
   ''{'' @ json_quote ''notificationId'' @ '':'' @ json_quote nid @ '','' @ json_quote ''state'' @ '':'' @ json_quote ''ready'' @ ''}''"
  by simp

lemma publish_ready_newID:
  "publish_ready now (newID rnd k) d = (Inr (), snd (publish_ready now (newID rnd k) d))"
proof -
  have t: "validateType ''core.notification.ready'' = Inr ()" "validateSource ''core.notifications'' ''core.notification.ready'' = Inr ()"
    by code_simp+
  have q: "length (json_quote ''notificationId'') = 16" "length (json_quote ''state'') = 7" "length (json_quote ''ready'') = 7"
    by code_simp+
  have "length (json_quote (newID rnd k)) \<le> 194" using length_quote_le[of "newID rnd k"] by simp
  then have "int (length (json_marshal (JObj [(''notificationId'', JStr (newID rnd k)), (''state'', JStr ''ready'')]))) \<le> MaxPayloadBytes"
    unfolding ready_payload by (simp add: q MaxPayloadBytes_def)
  then have "\<exists>b. prepare \<lparr>in_type = ''core.notification.ready'', in_source = ''core.notifications'', in_subject = newID rnd k,
      in_payload = Payload (JObj [(''notificationId'', JStr (newID rnd k)), (''state'', JStr ''ready'')])\<rparr> = Inr b"
    by (simp add: prepare_def t Let_def del: json_marshal.simps)
  then show ?thesis
    by (auto simp: publish_ready_def PublishTx_def Let_def split: sum.splits prod.splits)
qed

lemma insertSends_noted:
  assumes "notify_ok (add_note n eid t d)"
  shows "notify_ok (insertSends env (no_id n) (no_key n) nxt chs (add_note n eid t d))"
  by (rule insertSends_ok[OF assms, of n]) simp_all

lemma publish_ready_ok [simp]: "notify_ok (snd (publish_ready now nid d)) = notify_ok d"
  by (simp add: publish_ready_snd)

lemma immediate_ok:
  assumes "notify_ok d"
  shows "notify_ok (snd (applyImmediate env now r e payload d))" "fst (applyImmediate env now r e payload d) = Inr ()"
proof -
  have "notify_ok (insertSends env nid key (rfc now) (rl_channels r)
      (add_note (event_note r e nid key w (rfc now) (rfc now) True) (ev_id e) None (drawn d)))" if "\<not> clash nid key d" for nid key w
    using insertSends_noted[OF add_note_ok[of "drawn d" "event_note r e nid key w (rfc now) (rfc now) True" None "ev_id e"]] assms that
    by (simp add: clash_def)
  then show "notify_ok (snd (applyImmediate env now r e payload d))"
    using assms by (simp add: applyImmediate_eq[OF assms] Let_def split: sum.splits)
  have "fst (publish_ready now (next_id env d) x) = Inr ()" for x :: "'a notify_db_scheme"
    using publish_ready_newID[of now "ne_rand env" "nb_drawn d" x] unfolding next_id_def by (metis fst_conv)
  then show "fst (applyImmediate env now r e payload d) = Inr ()"
    by (simp add: applyImmediate_eq[OF assms] Let_def split: sum.splits)
qed

lemma throttled_ok:
  assumes "notify_ok d"
  shows "notify_ok (snd (applyThrottled env now r e payload d))" "fst (applyThrottled env now r e payload d) = Inr ()"
proof -
  have new: "notify_ok (insertSends env nid key x (rl_channels r)
      (add_note (event_note r e nid key w x (rfc now) False) (ev_id e) (Some t) (drawn d)))"
    if "\<not> clash nid key d" "th_note t = nid" for nid key w x t
    using insertSends_noted[OF add_note_ok[of "drawn d" "event_note r e nid key w x (rfc now) False" "Some t" "ev_id e"]] assms that
    by (simp add: clash_def)
  have att: "notify_ok (snd (attachThrottle env r e payload (th_note t) d))" "fst (attachThrottle env r e payload (th_note t) d) = Inr ()"
    if "open_window rid s v y d = Some t" for rid s v y t
    by (rule attachThrottle_ok[OF assms open_window_note[OF assms that]])+
  show "notify_ok (snd (applyThrottled env now r e payload d))"
    using assms new att(1) by (auto simp: applyThrottled_eq[OF assms] Let_def split: sum.splits option.splits)
  show "fst (applyThrottled env now r e payload d) = Inr ()"
    using att(2) by (auto simp: applyThrottled_eq[OF assms] Let_def split: sum.splits option.splits)
qed

lemma rule_ok:
  assumes "notify_ok d"
  shows "notify_ok (snd (applyRule env now e payload rp d))" "fst (applyRule env now e payload rp d) = Inr ()"
  by (auto simp: applyRule_def immediate_ok[OF assms] throttled_ok[OF assms] assms split: prod.splits sum.splits option.splits)

lemma rules_ok:
  assumes "notify_ok d"
  shows "notify_ok (snd (apply_rules env now e payload rps d)) \<and> fst (apply_rules env now e payload rps d) = Inr ()"
  using assms
proof (induction rps arbitrary: d)
  case (Cons rp rps)
  obtain d1 where d1: "applyRule env now e payload rp d = (Inr (), d1)"
    using rule_ok(2)[OF Cons.prems] by (metis prod.collapse)
  then have "notify_ok d1" using rule_ok(1)[OF Cons.prems, of env now e payload rp] by simp
  from Cons.IH[OF this] d1 show ?case by simp
qed simp

lemma handle_ok:
  assumes "notify_ok d"
  shows "notify_ok (snd (handleEvent env now e d))" "fst (handleEvent env now e d) = Inr ()"
  by (simp_all add: handleEvent_def rules_ok[OF assms] assms)

end
