(* ===== verification/Notify_Delivery.thy ===== *)
theory Notify_Delivery
  imports Notify_Laws
begin

text \<open>
  Delivery of notifications: every transaction of the delivery worker, the administrator and the inbox keeps the
  invariant of \<open>Notify_Laws\<close>, as does any interleaving of them with the handler; the worker's loop ends; the properties
  of the notifications module.
\<close>

section \<open>Transactions keep the invariant\<close>

definition same_send :: "(send_row \<Rightarrow> send_row) \<Rightarrow> bool" where
  "same_send f \<longleftrightarrow> (\<forall>s. sd_id (f s) = sd_id s \<and> sd_key (f s) = sd_key s \<and> sd_note (f s) = sd_note s \<and>
     sd_channel (f s) = sd_channel s)"

lemma same_send_maps:
  assumes "same_send f"
  shows "map sd_id (sql_update P f t) = map sd_id t" "map sd_key (sql_update P f t) = map sd_key t"
  using assms by (auto simp: same_send_def sql_update_def)

lemma send_update_ok:
  assumes "notify_ok d" "same_send f" "\<And>s. s \<in> set (nb_sends d) \<Longrightarrow> P s \<Longrightarrow> send_wf (f s)"
  shows "notify_ok (d\<lparr>nb_sends := sql_update P f (nb_sends d)\<rparr>)"
proof -
  note ok = notify_okD[OF assms(1)]
  have "sends_ok (nb_notes d) (sql_update P f (nb_sends d))"
    unfolding sends_ok_def
  proof (intro conjI ballI)
    show "distinct (map sd_id (sql_update P f (nb_sends d)))" "distinct (map sd_key (sql_update P f (nb_sends d)))"
      using ok(3) by (simp_all add: same_send_maps[OF assms(2)] sends_ok_def)
    fix s' assume "s' \<in> set (sql_update P f (nb_sends d))"
    then obtain s where s: "s \<in> set (nb_sends d)" "s' = (if P s then f s else s)" by (auto simp: set_sql_update)
    then show "send_wf s'" using ok(3) assms(3) by (auto simp: sends_ok_def)
    show "\<exists>n \<in> set (nb_notes d). no_id n = sd_note s' \<and> sd_key s' = sendUniq (no_key n) (sd_channel s')"
      using ok(3) s assms(2) by (auto simp: sends_ok_def same_send_def)
  qed
  then show ?thesis using ok by (intro notify_okI) simp_all
qed

lemma complete_ok:
  assumes "notify_ok d"
  shows "notify_ok (completeSend now row d)"
  unfolding completeSend_def
proof (rule send_update_ok[OF assms])
  fix s assume "s \<in> set (nb_sends d)"
  then have "0 \<le> sd_attempts s" using notify_okD(3)[OF assms] by (simp add: sends_ok_def send_wf_def)
  then show "send_wf (s\<lparr>sd_state := Sent, sd_sent := Some (rfc now), sd_lease := None, sd_error := [],
      sd_attempts := sd_attempts s + 1, sd_last := Some (rfc now)\<rparr>)" by (simp add: send_wf_def)
qed (simp add: same_send_def)

lemma fail_ok:
  assumes "notify_ok d" "0 \<le> sd_attempts row"
  shows "notify_ok (failSend now row msg permanent d)"
  unfolding failSend_def Let_def
  by (rule send_update_ok[OF assms(1)]) (use assms(2) in \<open>auto simp: same_send_def send_wf_def send_maxAttempts_def\<close>)

lemma distinct_key_eq: "distinct (map k t) \<Longrightarrow> a \<in> set t \<Longrightarrow> b \<in> set t \<Longrightarrow> k a = k b \<Longrightarrow> a = b"
  by (metis distinct_map inj_onD)

definition claimed_send :: "time \<Rightarrow> duration \<Rightarrow> send_row \<Rightarrow> send_row" where
  "claimed_send now ttl s = s\<lparr>sd_state := Sending, sd_lease := Some (rfc (now + ttl)), sd_last := Some (rfc now)\<rparr>"

lemma sql_count_key: "distinct (map k t) \<Longrightarrow> r \<in> set t \<Longrightarrow> sql_count (\<lambda>s. k s = k r) t = 1"
proof (induction t)
  case (Cons a t)
  show ?case
  proof (cases "k a = k r")
    case True
    then have "k r \<notin> k ` set t" using Cons.prems(1) by simp
    then have "\<forall>s \<in> set t. k s \<noteq> k r" by (metis image_eqI)
    then have "sql_count (\<lambda>s. k s = k r) t = 0" by (simp add: sql_count_0)
    then show ?thesis using True by (simp add: sql_count_def)
  next
    case False
    then have "r \<in> set t" using Cons.prems(2) by auto
    then show ?thesis using Cons False by (simp add: sql_count_def)
  qed
qed simp

lemma sql_cong:
  assumes "\<And>s. s \<in> set t \<Longrightarrow> P s = Q s"
  shows "sql_update P f t = sql_update Q f t" "sql_count P t = sql_count Q t"
  using assms by (simp_all add: sql_update_def sql_count_def cong: map_cong filter_cong)

lemma claimable_hit:
  "claimable now ns s \<Longrightarrow> (case sd_lease s of None \<Rightarrow> True | Some l \<Rightarrow> l \<le> now) \<or> sd_state s \<noteq> Sending"
  by (auto simp: claimable_def split: option.splits)

lemma claimable_open: "claimable now ns s \<Longrightarrow> sd_state s \<notin> {Sent, SendFailed}"
  by (auto simp: claimable_def)

lemma claim_send_cases:
  assumes "notify_ok d" "run_tx (claim_send_tx now ttl) d = (r, d')"
  obtains "r = Inl ErrSkip" "d' = d" "\<forall>s \<in> set (nb_sends d). \<not> claimable (rfc now) (nb_notes d) s"
  | row where "r = Inr row" "row \<in> set (nb_sends d)" "claimable (rfc now) (nb_notes d) row"
      "\<forall>s \<in> set (nb_sends d). claimable (rfc now) (nb_notes d) s \<and> s \<noteq> row \<longrightarrow> send_before row s"
      "d' = d\<lparr>nb_sends := sql_update (\<lambda>s. sd_id s = sd_id row) (claimed_send now ttl) (nb_sends d)\<rparr>"
proof (cases "best_by send_before (filter (claimable (rfc now) (nb_notes d)) (nb_sends d))")
  case None
  then have "claim_send_tx now ttl d = (Inl ErrSkip, d)" by (simp add: claim_send_tx_def)
  moreover have "\<forall>s \<in> set (nb_sends d). \<not> claimable (rfc now) (nb_notes d) s"
    using None by (simp add: filter_empty_conv)
  ultimately show ?thesis using assms(2) that(1) by (simp add: run_tx_def)
next
  case (Some row)
  have row: "row \<in> set (nb_sends d)" "claimable (rfc now) (nb_notes d) row" using best_by_mem[OF Some] by simp_all
  have ids: "distinct (map sd_id (nb_sends d))" using notify_okD(3)[OF assms(1)] by (simp add: sends_ok_def)
  let ?hit = "\<lambda>s. sd_id s = sd_id row \<and> ((case sd_lease s of None \<Rightarrow> True | Some l \<Rightarrow> l \<le> rfc now) \<or> sd_state s \<noteq> Sending)"
  have hit: "?hit s = (sd_id s = sd_id row)" if "s \<in> set (nb_sends d)" for s
    using distinct_key_eq[OF ids that row(1)] claimable_hit[OF row(2)] by auto
  have one: "sql_count ?hit (nb_sends d) = 1"
    using sql_cong(2)[of "nb_sends d" ?hit "\<lambda>s. sd_id s = sd_id row"] hit sql_count_key[OF ids row(1)] by simp
  have upd: "sql_update ?hit (claimed_send now ttl) (nb_sends d) = sql_update (\<lambda>s. sd_id s = sd_id row) (claimed_send now ttl) (nb_sends d)"
    using sql_cong(1)[of "nb_sends d" ?hit "\<lambda>s. sd_id s = sd_id row"] hit by simp
  have f: "(\<lambda>s. s\<lparr>sd_state := Sending, sd_lease := Some (rfc (now + ttl)), sd_last := Some (rfc now)\<rparr>) = claimed_send now ttl"
    by (rule ext) (simp add: claimed_send_def)
  have "claim_send_tx now ttl d =
      (if sql_count ?hit (nb_sends d) \<noteq> 1 then (Inl ErrSkip, d\<lparr>nb_sends := sql_update ?hit (claimed_send now ttl) (nb_sends d)\<rparr>)
       else (Inr row, d\<lparr>nb_sends := sql_update ?hit (claimed_send now ttl) (nb_sends d)\<rparr>))"
    unfolding claim_send_tx_def Some option.case Let_def f ..
  then have "claim_send_tx now ttl d = (Inr row, d\<lparr>nb_sends := sql_update (\<lambda>s. sd_id s = sd_id row) (claimed_send now ttl) (nb_sends d)\<rparr>)"
    unfolding one upd by simp
  then have res: "r = Inr row" "d' = d\<lparr>nb_sends := sql_update (\<lambda>s. sd_id s = sd_id row) (claimed_send now ttl) (nb_sends d)\<rparr>"
    using assms(2) by (simp_all add: run_tx_def)
  have first: "send_before row s" if "s \<in> set (nb_sends d)" "claimable (rfc now) (nb_notes d) s" "s \<noteq> row" for s
  proof (rule best_by_first[OF Some, where k = sd_id])
    show "distinct (map sd_id (filter (claimable (rfc now) (nb_notes d)) (nb_sends d)))"
      using ids by (rule distinct_map_filter)
    show "send_before u w" if "send_before u v" "send_before v w" for u v w
      using that by (auto simp: send_before_def)
    show "send_before u v \<or> send_before v u" if "sd_id u \<noteq> sd_id v" for u v
      using that by (auto simp: send_before_def)
  qed (use that in simp_all)
  show ?thesis using that(2)[OF res(1) row] first res(2) by blast
qed

lemma claim_ok:
  assumes "notify_ok d" "run_tx (claim_send_tx now ttl) d = (r, d')"
  shows "notify_ok d'"
  using assms
proof (cases rule: claim_send_cases)
  case (2 row)
  have ids: "distinct (map sd_id (nb_sends d))" using notify_okD(3)[OF assms(1)] by (simp add: sends_ok_def)
  show ?thesis unfolding 2(5)
  proof (rule send_update_ok[OF assms(1)])
    fix s assume s: "s \<in> set (nb_sends d)" "sd_id s = sd_id row"
    then have "s = row" using distinct_key_eq[OF ids s(1) 2(2)] by simp
    then show "send_wf (claimed_send now ttl s)"
      using notify_okD(3)[OF assms(1)] s(1) claimable_open[OF 2(3)]
      by (auto simp: sends_ok_def send_wf_def claimed_send_def)
  qed (simp add: same_send_def claimed_send_def)
qed (use assms(1) in simp)

lemma release_ok:
  assumes "notify_ok d"
  shows "notify_ok (snd (releaseOneWindow now d))"
proof -
  have "notify_ok (d\<lparr>nb_notes := sql_update P (\<lambda>m. m\<lparr>no_ready := True\<rparr>) (nb_notes d)\<rparr>)" for P
    by (rule note_update_ok[OF assms]) (simp_all add: same_note_def)
  then have "notify_ok (snd (release_tx now d))"
    using assms by (auto simp: release_tx_def publish_ready_snd[symmetric] split: option.splits prod.splits sum.splits
        dest!: arg_cong[where f = snd])
  then show ?thesis
    using assms by (auto simp: releaseOneWindow_def run_tx_def split: prod.splits sum.splits step_error.splits)
qed

lemma mark_ok:
  assumes "notify_ok d"
  shows "notify_ok (snd (MarkRead now nid rd d))"
proof -
  have "notify_ok (d\<lparr>nb_notes := sql_update P (\<lambda>n. n\<lparr>no_read := v\<rparr>) (nb_notes d)\<rparr>)" for P v
    by (rule note_update_ok[OF assms]) (simp_all add: same_note_def)
  then show ?thesis using assms by (simp add: MarkRead_def run_tx_def split: option.splits)
qed

lemma publishDelivery_ntab: "ntab (publishDelivery now row kind st d) = ntab d"
  by (simp add: publishDelivery_def Publish_def run_tx_def ntab_def PublishTx_def Let_def split: prod.splits sum.splits)

lemma ok_ntab: "ntab d' = ntab d \<Longrightarrow> notify_ok d' = notify_ok d"
  by (simp add: notify_ok_def)

lemma auditConfig_ntab: "ntab (snd (auditConfig ne now actor kind obj action d)) = ntab d"
proof -
  have "ntab (snd (PublishTx now i (d\<lparr>nb_drawn := k, nb_audit := a\<rparr>))) = ntab d" for i k a by (simp add: ntab_def)
  then show ?thesis by (simp add: auditConfig_def draw_eq Let_def split: prod.splits sum.splits) (metis snd_conv)
qed

lemma run_tx_ntab:
  assumes "\<And>x. ntab (snd (f x)) = ntab x"
  shows "ntab (snd (run_tx f d)) = ntab d"
  using assms[of d] by (auto simp: run_tx_def split: prod.splits sum.splits)

lemma rules_ntab [simp]: "ntab (d\<lparr>nb_rules := rs\<rparr>) = ntab d" "ntab (d\<lparr>nb_channels := cs\<rparr>) = ntab d"
  by (simp_all add: ntab_def)

lemma admin_ntab:
  "ntab (snd (PutRule ne env now ri d)) = ntab d"
  "ntab (snd (DeleteRule ne env now rid d)) = ntab d"
  "ntab (snd (PutChannel ne env now c d)) = ntab d"
  "ntab (snd (DeleteChannel ne env now cid d)) = ntab d"
proof -
  have a: "ntab (attachToPluginAlert x y) = ntab y" for x and y :: "'a notify_db_scheme"
    by (simp add: attachToPluginAlert_def split: option.splits)
  have b: "ntab (detachChannelFromRules x y) = ntab y" for x and y :: "'a notify_db_scheme"
    by (simp add: detachChannelFromRules_def)
  show "ntab (snd (PutRule ne env now ri d)) = ntab d"
    by (auto simp: PutRule_def Let_def auditConfig_ntab intro!: run_tx_ntab split: sum.splits)
  show "ntab (snd (DeleteRule ne env now rid d)) = ntab d"
    by (auto simp: DeleteRule_def Let_def auditConfig_ntab intro!: run_tx_ntab split: sum.splits)
  show "ntab (snd (PutChannel ne env now c d)) = ntab d"
    by (auto simp: PutChannel_def Let_def auditConfig_ntab a intro!: run_tx_ntab split: sum.splits)
  show "ntab (snd (DeleteChannel ne env now cid d)) = ntab d"
    by (auto simp: DeleteChannel_def Let_def auditConfig_ntab b intro!: run_tx_ntab split: sum.splits)
qed

section \<open>Interleavings\<close>

text \<open>
  What can happen to the tables: the durable handler, the worker of this or of another process (its claim and the end of its
  attempt are transactions of their own, and the row it ends may be stale), the administrator, the inbox, and anything the other
  modules do to their own tables.
\<close>

inductive notify_step :: "'p notify_env \<Rightarrow> 'a notify_db_scheme \<Rightarrow> 'a notify_db_scheme \<Rightarrow> bool" for ne where
  ns_event: "notify_step ne d (snd (run_tx (notify_handler ne now e) d))"
| ns_release: "notify_step ne d (snd (releaseOneWindow now d))"
| ns_claim: "notify_step ne d (snd (run_tx (claim_send_tx now ttl) d))"
| ns_complete: "notify_step ne d (completeSend now row d)"
| ns_fail: "0 \<le> sd_attempts row \<Longrightarrow> notify_step ne d (failSend now row msg permanent d)"
| ns_publish: "notify_step ne d (publishDelivery now row kind st d)"
| ns_put_rule: "notify_step ne d (snd (PutRule ne env now ri d))"
| ns_delete_rule: "notify_step ne d (snd (DeleteRule ne env now rid d))"
| ns_put_channel: "notify_step ne d (snd (PutChannel ne env now c d))"
| ns_delete_channel: "notify_step ne d (snd (DeleteChannel ne env now cid d))"
| ns_read: "notify_step ne d (snd (MarkRead now nid rd d))"
| ns_other: "ntab d' = ntab d \<Longrightarrow> notify_step ne d d'"

inductive_cases notify_stepE: "notify_step ne d d'"

lemma handler_ok: "notify_ok d \<Longrightarrow> notify_ok (snd (run_tx (notify_handler ne now e) d))"
  using handle_ok(1)[of d ne now e] notify_handler_snd[of ne now e d]
  by (auto simp: run_tx_def split: prod.splits sum.splits)

lemma step_ok: "notify_step ne d d' \<Longrightarrow> notify_ok d \<Longrightarrow> notify_ok d'"
proof (induction rule: notify_step.induct)
  case (ns_claim d now ttl)
  show ?case by (rule claim_ok[OF ns_claim, where now = now and ttl = ttl and r = "fst (run_tx (claim_send_tx now ttl) d)"]) simp
next
  case (ns_publish d now row kind st)
  then show ?case by (simp only: ok_ntab[OF publishDelivery_ntab])
next
  case (ns_put_rule d env now ri)
  then show ?case by (simp only: ok_ntab[OF admin_ntab(1)])
next
  case (ns_delete_rule d env now rid)
  then show ?case by (simp only: ok_ntab[OF admin_ntab(2)])
next
  case (ns_put_channel d env now c)
  then show ?case by (simp only: ok_ntab[OF admin_ntab(3)])
next
  case (ns_delete_channel d env now cid)
  then show ?case by (simp only: ok_ntab[OF admin_ntab(4)])
next
  case (ns_other d' d)
  show ?case using ok_ntab[OF ns_other(1)] ns_other(2) by (rule iffD2)
qed (simp_all add: handler_ok release_ok complete_ok fail_ok mark_ok)

lemma steps_ok: "(notify_step ne)\<^sup>*\<^sup>* d d' \<Longrightarrow> notify_ok d \<Longrightarrow> notify_ok d'"
  by (induction rule: rtranclp_induct) (auto intro: step_ok)

definition no_notes :: "'a notify_db_scheme \<Rightarrow> bool" where
  "no_notes d \<longleftrightarrow> nb_notes d = [] \<and> nb_sources d = [] \<and> nb_throttles d = [] \<and> nb_sends d = []"

lemma no_notes_ok: "no_notes d \<Longrightarrow> notify_ok d"
  by (auto simp: no_notes_def notify_ok_def ntab_def tables_ok_def notes_ok_def sends_ok_def)

section \<open>The worker's loop ends\<close>

definition attempts_left :: "send_row list \<Rightarrow> nat" where
  \<comment> \<open>how many attempts the unfinished sends have left together\<close>
  "attempts_left sends =
     sum_list (map (\<lambda>s. if sd_state s \<in> {Sent, SendFailed} then 0 else nat (send_maxAttempts - sd_attempts s)) sends)"

definition left1 :: "send_row \<Rightarrow> nat" where
  "left1 s = (if sd_state s \<in> {Sent, SendFailed} then 0 else nat (send_maxAttempts - sd_attempts s))"

lemma attempts_left_sum: "attempts_left sends = sum_list (map left1 sends)"
proof -
  have "left1 = (\<lambda>s. if sd_state s \<in> {Sent, SendFailed} then 0 else nat (send_maxAttempts - sd_attempts s))"
    by (rule ext) (simp add: left1_def)
  then show ?thesis by (simp add: attempts_left_def)
qed

lemma sum_list_update:
  fixes g :: "'r \<Rightarrow> nat"
  assumes "\<And>s. s \<in> set t \<Longrightarrow> P s \<Longrightarrow> g (f s) \<le> g s"
  shows "sum_list (map g (sql_update P f t)) \<le> sum_list (map g t)"
  using assms by (induction t) (auto simp: sql_update_def intro!: add_mono)

lemma sum_list_update_less:
  fixes g :: "'r \<Rightarrow> nat"
  assumes "\<And>s. s \<in> set t \<Longrightarrow> P s \<Longrightarrow> g (f s) < g s" "x \<in> set t" "P x"
  shows "sum_list (map g (sql_update P f t)) < sum_list (map g t)"
  using assms
proof (induction t)
  case (Cons a t)
  have le: "sum_list (map g (sql_update P f t)) \<le> sum_list (map g t)"
    by (rule sum_list_update) (use Cons.prems(1) in \<open>simp add: less_imp_le\<close>)
  show ?case
  proof (cases "P a")
    case True
    then have "g (f a) < g a" using Cons.prems(1) by simp
    with le True show ?thesis by (simp add: sql_update_def)
  next
    case False
    then have "x \<in> set t" using Cons.prems(2,3) by auto
    then have "sum_list (map g (sql_update P f t)) < sum_list (map g t)" using Cons by simp
    with False show ?thesis by (simp add: sql_update_def)
  qed
qed simp

lemma left1_open: "send_wf s \<Longrightarrow> sd_state s \<notin> {Sent, SendFailed} \<Longrightarrow> 0 < left1 s"
  by (simp add: left1_def send_wf_def)

lemma attempt_less:
  assumes "notify_ok d" "run_tx (claim_send_tx now ttl) d = (Inr row, d1)"
    "left1 (f (claimed_send now ttl row)) < left1 row"
  shows "attempts_left (sql_update (\<lambda>s. sd_id s = sd_id row) f (nb_sends d1)) < attempts_left (nb_sends d)"
  using assms(1,2)
proof (cases rule: claim_send_cases)
  case (2 row')
  then have row: "row \<in> set (nb_sends d)" "nb_sends d1 = sql_update (\<lambda>s. sd_id s = sd_id row) (claimed_send now ttl) (nb_sends d)"
    "claimable (rfc now) (nb_notes d) row" by simp_all
  have ids: "distinct (map sd_id (nb_sends d))" using notify_okD(3)[OF assms(1)] by (simp add: sends_ok_def)
  have only: "s = row" if "s \<in> set (nb_sends d)" "sd_id s = sd_id row" for s
    using distinct_key_eq[OF ids that(1) row(1) that(2)] .
  have same: "left1 (claimed_send now ttl row) = left1 row"
    using claimable_open[OF row(3)] by (simp add: left1_def claimed_send_def)
  have "sum_list (map left1 (nb_sends d1)) \<le> sum_list (map left1 (nb_sends d))"
    unfolding row(2)
  proof (rule sum_list_update)
    fix s assume "s \<in> set (nb_sends d)" "sd_id s = sd_id row"
    then show "left1 (claimed_send now ttl s) \<le> left1 s" using only[of s] same by simp
  qed
  moreover have "sum_list (map left1 (sql_update (\<lambda>s. sd_id s = sd_id row) f (nb_sends d1))) < sum_list (map left1 (nb_sends d1))"
  proof (rule sum_list_update_less[where x = "claimed_send now ttl row"])
    show "claimed_send now ttl row \<in> set (nb_sends d1)" unfolding row(2) using row(1) by (auto simp: set_sql_update)
    show "sd_id (claimed_send now ttl row) = sd_id row" by (simp add: claimed_send_def)
    fix s assume s: "s \<in> set (nb_sends d1)" "sd_id s = sd_id row"
    then obtain u where u: "u \<in> set (nb_sends d)" "s = (if sd_id u = sd_id row then claimed_send now ttl u else u)"
      unfolding row(2) by (auto simp: set_sql_update)
    then have "s = claimed_send now ttl row" using only s(2) by (auto simp: claimed_send_def split: if_splits)
    then show "left1 (f s) < left1 s" using assms(3) same by simp
  qed
  ultimately show ?thesis by (simp add: attempts_left_sum)
qed simp

lemma claimed_row:
  assumes "notify_ok d" "run_tx (claim_send_tx now ttl) d = (Inr row, d1)"
  shows "0 \<le> sd_attempts row" "0 < left1 row" "notify_ok d1"
proof -
  show "notify_ok d1" by (rule claim_ok[OF assms])
  from assms have "row \<in> set (nb_sends d) \<and> claimable (rfc now) (nb_notes d) row"
    by (cases rule: claim_send_cases) simp_all
  then have "send_wf row" "sd_state row \<notin> {Sent, SendFailed}"
    using notify_okD(3)[OF assms(1)] claimable_open[of "rfc now" "nb_notes d" row] by (auto simp: sends_ok_def)
  then show "0 \<le> sd_attempts row" "0 < left1 row" using left1_open by (simp_all add: send_wf_def)
qed

definition failed_send :: "time \<Rightarrow> send_row \<Rightarrow> string \<Rightarrow> bool \<Rightarrow> send_row \<Rightarrow> send_row" where
  "failed_send now row msg permanent s =
     (let n = sd_attempts row + 1; failed = (permanent \<or> send_maxAttempts \<le> n) in
      s\<lparr>sd_state := if failed then SendFailed else RetryWait, sd_attempts := n,
        sd_next := rfc (if failed then now else now + notify_backoff n), sd_lease := None, sd_error := take 1000 msg,
        sd_last := Some (rfc now)\<rparr>)"

lemma failSend_eq: "nb_sends (failSend now row msg permanent d) =
    sql_update (\<lambda>s. sd_id s = sd_id row) (failed_send now row msg permanent) (nb_sends d)"
proof -
  have "failed_send now row msg permanent = (\<lambda>s. let n = sd_attempts row + 1; failed = (permanent \<or> send_maxAttempts \<le> n) in
      s\<lparr>sd_state := if failed then SendFailed else RetryWait, sd_attempts := n,
        sd_next := rfc (if failed then now else now + notify_backoff n), sd_lease := None, sd_error := take 1000 msg,
        sd_last := Some (rfc now)\<rparr>)" by (rule ext) (simp add: failed_send_def)
  then show ?thesis by (simp add: failSend_def Let_def)
qed

lemma failed_left: "0 < left1 row \<Longrightarrow> left1 (failed_send t row msg p s) < left1 row"
  by (auto simp: left1_def failed_send_def Let_def split: if_splits)

lemma sends_ntab: "ntab d' = ntab d \<Longrightarrow> nb_sends d' = nb_sends d"
  by (simp add: ntab_def)

lemma claimOne_less:
  assumes "notify_ok d" "notify_claimOne env d = (True, d')"
  shows "notify_ok d' \<and> attempts_left (nb_sends d') < attempts_left (nb_sends d)"
proof -
  obtain row d1 where r: "run_tx (claim_send_tx (se_now env 0) (se_ttl env)) d = (Inr row, d1)"
    using assms(2) by (auto simp: notify_claimOne_def split: prod.splits sum.splits)
  note row = claimed_row[OF assms(1) r]
  have less: "attempts_left (nb_sends (failSend t row msg p d1)) < attempts_left (nb_sends d)" for t msg p
    unfolding failSend_eq by (rule attempt_less[OF assms(1) r]) (rule failed_left[OF row(2)])
  have less2: "attempts_left (nb_sends (completeSend t row d1)) < attempts_left (nb_sends d)" for t
    using attempt_less[OF assms(1) r, of "\<lambda>s. s\<lparr>sd_state := Sent, sd_sent := Some (rfc t), sd_lease := None, sd_error := [],
        sd_attempts := sd_attempts s + 1, sd_last := Some (rfc t)\<rparr>"] row(2)
    by (simp add: completeSend_def left1_def)
  consider (fail) t msg p where "d' = failSend t row msg p d1"
    | (fail_pub) t t' k msg p where "d' = publishDelivery t' row k ''failed'' (failSend t row msg p d1)"
    | (ok) t t' k where "d' = publishDelivery t' row k ''sent'' (completeSend t row d1)"
    using assms(2) r by (auto simp: notify_claimOne_def split: option.splits sum.splits prod.splits)
  then show ?thesis
  proof cases
    case fail
    then show ?thesis using less fail_ok[OF row(3,1)] by simp
  next
    case fail_pub
    have "ntab d' = ntab (failSend t row msg p d1)" unfolding fail_pub by (rule publishDelivery_ntab)
    then show ?thesis using less[of t msg p] fail_ok[OF row(3,1), of t msg p] ok_ntab sends_ntab by metis
  next
    case ok
    have "ntab d' = ntab (completeSend t row d1)" unfolding ok by (rule publishDelivery_ntab)
    then show ?thesis using less2[of t] complete_ok[OF row(3), of t row] ok_ntab sends_ntab by metis
  qed
qed

lemma claimOne_idle:
  assumes "notify_ok d" "notify_claimOne env d = (False, d')"
  shows "d' = d \<and> (\<forall>s \<in> set (nb_sends d). \<not> claimable (rfc (se_now env 0)) (nb_notes d) s)"
proof -
  obtain r d1 where r: "run_tx (claim_send_tx (se_now env 0) (se_ttl env)) d = (r, d1)" by fastforce
  from assms(1) this show ?thesis
  proof (cases rule: claim_send_cases)
    case 1
    then show ?thesis using r assms(2) by (simp add: notify_claimOne_def)
  next
    case (2 row)
    then show ?thesis using r assms(2) by (auto simp: notify_claimOne_def split: option.splits sum.splits prod.splits)
  qed
qed

lemma claim_loop_ends:
  assumes "notify_ok d" "attempts_left (nb_sends d) < length envs"
  shows "\<exists>d' env. claim_loop envs d = (True, d') \<and> notify_ok d' \<and> env \<in> set envs \<and>
    (\<forall>s \<in> set (nb_sends d'). \<not> claimable (rfc (se_now env 0)) (nb_notes d') s)"
  using assms
proof (induction envs arbitrary: d)
  case (Cons env envs)
  obtain b d1 where c: "notify_claimOne env d = (b, d1)" by fastforce
  show ?case
  proof (cases b)
    case True
    then have "notify_ok d1" "attempts_left (nb_sends d1) < length envs"
      using claimOne_less[OF Cons.prems(1), of env d1] c Cons.prems(2) by auto
    from Cons.IH[OF this] c True show ?thesis by fastforce
  next
    case False
    then have "d1 = d" "\<forall>s \<in> set (nb_sends d). \<not> claimable (rfc (se_now env 0)) (nb_notes d) s"
      using claimOne_idle[OF Cons.prems(1)] c by simp_all
    then show ?thesis using c False Cons.prems(1) by (intro exI[of _ d] exI[of _ env]) simp
  qed
qed simp

section \<open>What every step keeps\<close>

definition idents :: "'a notify_db_scheme \<Rightarrow> (string \<times> string) set" where
  "idents d = (\<lambda>n. (no_id n, no_key n)) ` set (nb_notes d)"

lemma idents_update: "same_note f \<Longrightarrow> (\<lambda>n. (no_id n, no_key n)) ` set (sql_update P f t) = (\<lambda>n. (no_id n, no_key n)) ` set t"
proof -
  assume f: "same_note f"
  let ?k = "\<lambda>n. (no_id n, no_key n)"
  have "map ?k (sql_update P f t) = map ?k t"
    by (induction t) (use f in \<open>simp_all add: sql_update_def same_note_def\<close>)
  then show ?thesis by (metis set_map)
qed

lemma idents_ntab: "ntab d' = ntab d \<Longrightarrow> idents d' = idents d"
  by (simp add: ntab_def idents_def)

lemma idents_frame [simp]:
  "idents (drawn d) = idents d" "idents (insertSends env nid key nxt chs d) = idents d"
  "idents (snd (publish_ready now nid d)) = idents d" "idents (d\<lparr>nb_sends := ss\<rparr>) = idents d"
  "idents (add_note n eid t d) = insert (no_id n, no_key n) (idents d)"
  by (auto simp: idents_def publish_ready_snd)

lemma idents_attach: "idents (snd (attachThrottle env r e payload nid d)) = idents d"
  by (auto simp: attachThrottle_unfold Let_def attached_def idents_def idents_update split: option.splits sum.splits)

text \<open>What a turn of the handler adds: notifications whose identifiers it drew.\<close>

definition adds :: "'p notify_env \<Rightarrow> 'a notify_db_scheme \<Rightarrow> 'a notify_db_scheme \<Rightarrow> bool" where
  "adds env d d' \<longleftrightarrow> nb_drawn d \<le> nb_drawn d' \<and> idents d \<subseteq> idents d' \<and>
     fst ` idents d' \<subseteq> fst ` idents d \<union> newID (ne_rand env) ` {nb_drawn d ..< nb_drawn d'}"

lemma adds_refl [simp]: "adds env d d"
  by (simp add: adds_def)

lemma adds_trans:
  assumes "adds env a b" "adds env b c"
  shows "adds env a c"
proof -
  have chain: "F \<subseteq> G \<union> B \<Longrightarrow> G \<subseteq> H \<union> A \<Longrightarrow> A \<union> B \<subseteq> C \<Longrightarrow> F \<subseteq> H \<union> C" for F G H A B C :: "string set" by blast
  have new: "newID (ne_rand env) ` {nb_drawn a ..< nb_drawn b} \<union> newID (ne_rand env) ` {nb_drawn b ..< nb_drawn c} \<subseteq>
      newID (ne_rand env) ` {nb_drawn a ..< nb_drawn c}"
    using assms by (auto simp: adds_def)
  have "nb_drawn a \<le> nb_drawn c" using assms unfolding adds_def by linarith
  moreover have "idents a \<subseteq> idents c" using assms unfolding adds_def by (meson order_trans)
  moreover have "fst ` idents c \<subseteq> fst ` idents a \<union> newID (ne_rand env) ` {nb_drawn a ..< nb_drawn c}"
    by (rule chain[OF conjunct2[OF conjunct2[OF assms(2)[unfolded adds_def]]] conjunct2[OF conjunct2[OF assms(1)[unfolded adds_def]]] new])
  ultimately show ?thesis unfolding adds_def by (intro conjI)
qed

lemma insertSends_drawn: "nb_drawn d \<le> nb_drawn (insertSends env nid key nxt chs d)"
proof (induction chs arbitrary: d)
  case (Cons ch chs)
  show ?case
    using Cons[of "insert_send (pending_send (newID (ne_rand env) (nb_drawn d)) nid key ch nxt) (d\<lparr>nb_drawn := Suc (nb_drawn d)\<rparr>)"] Cons[of d]
    by (simp add: insertSends_step)
qed simp

lemma attach_drawn: "nb_drawn (snd (attachThrottle env r e payload nid d)) = nb_drawn d"
  by (auto simp: attachThrottle_unfold Let_def attached_def split: option.splits sum.splits)

lemma publish_ready_drawn: "nb_drawn (snd (publish_ready now nid d)) = nb_drawn d"
  by (simp add: publish_ready_snd)

lemma adds_drawn: "adds env d (drawn d)"
proof -
  have "idents (drawn d) = idents d" by simp
  then show ?thesis by (simp add: adds_def) (auto simp: drawn_def)
qed

lemma adds_new:
  assumes "nb_drawn d < nb_drawn d'" "idents d' = insert (next_id env d, key) (idents d)"
  shows "adds env d d'"
  using assms by (auto simp: adds_def next_id_def)

lemma drawn_lt: "nb_drawn d < nb_drawn (insertSends env nid key nxt chs (add_note n eid t (drawn d)))"
  using insertSends_drawn[of "add_note n eid t (drawn d)" env nid key nxt chs] by (simp add: drawn_def)

lemma adds_rule:
  assumes "notify_ok d"
  shows "adds env d (snd (applyRule env now e payload rp d))"
proof -
  have imm: "adds env d (snd (applyImmediate env now r e payload d))" for r
    by (simp add: applyImmediate_eq[OF assms] Let_def adds_drawn split: sum.splits)
      (intro allI impI adds_new, simp_all add: publish_ready_drawn drawn_lt)
  have thr: "adds env d (snd (applyThrottled env now r e payload d))" for r
  proof -
    have att: "adds env d (snd (attachThrottle env r e payload nid d))" for nid
      by (simp add: adds_def attach_drawn idents_attach)
    show ?thesis
      by (simp add: applyThrottled_eq[OF assms] Let_def adds_drawn att split: sum.splits option.splits)
        (intro allI impI adds_new, simp_all add: drawn_lt)
  qed
  show ?thesis
    by (simp add: applyRule_def imm thr split: prod.splits sum.splits option.splits)
qed

lemma adds_rules:
  assumes "notify_ok d"
  shows "adds env d (snd (apply_rules env now e payload rps d))"
  using assms
proof (induction rps arbitrary: d)
  case (Cons rp rps)
  obtain d1 where d1: "applyRule env now e payload rp d = (Inr (), d1)"
    using rule_ok(2)[OF Cons.prems] by (metis prod.collapse)
  have ok: "notify_ok d1" using rule_ok(1)[OF Cons.prems, of env now e payload rp] d1 by simp
  have "adds env d d1" using adds_rule[OF Cons.prems, of env now e payload rp] d1 by simp
  from adds_trans[OF this Cons.IH[OF ok]] d1 show ?case by simp
qed simp

lemma handler_adds:
  assumes "notify_ok d"
  shows "adds env d (snd (handleEvent env now e d))"
  by (simp add: handleEvent_def adds_rules[OF assms])

lemma run_handler: "notify_ok d \<Longrightarrow> snd (run_tx (notify_handler env now e) d) = snd (handleEvent env now e d)"
proof -
  assume "notify_ok d"
  then have "fst (handleEvent env now e d) = Inr ()" by (rule handle_ok)
  then show ?thesis by (auto simp: run_tx_def notify_handler_def split: prod.splits sum.splits)
qed

lemma step_idents: "notify_step ne d d' \<Longrightarrow> notify_ok d \<Longrightarrow> idents d \<subseteq> idents d'"
proof (induction rule: notify_step.induct)
  case (ns_event d now e)
  have "adds ne d (snd (handleEvent ne now e d))" by (rule handler_adds[OF ns_event])
  then show ?case unfolding run_handler[OF ns_event] adds_def by blast
next
  case (ns_release d now)
  have "idents d \<subseteq> idents (snd (release_tx now d))"
  proof -
    have "idents (d\<lparr>nb_notes := sql_update P (\<lambda>m. m\<lparr>no_ready := True\<rparr>) (nb_notes d)\<rparr>) = idents d" for P
      unfolding idents_def by (simp add: idents_update same_note_def)
    then show ?thesis
      by (auto simp: release_tx_def split: option.splits prod.splits sum.splits dest!: arg_cong[where f = "\<lambda>p. idents (snd p)"])
  qed
  then show ?case by (auto simp: releaseOneWindow_def run_tx_def split: prod.splits sum.splits step_error.splits)
next
  case (ns_claim d now ttl)
  obtain r d1 where r: "run_tx (claim_send_tx now ttl) d = (r, d1)" by fastforce
  from ns_claim this show ?case by (cases rule: claim_send_cases) (simp_all add: r)
next
  case (ns_read d now nid rd)
  have "idents (d\<lparr>nb_notes := sql_update P (\<lambda>n. n\<lparr>no_read := v\<rparr>) (nb_notes d)\<rparr>) = idents d" for P v
    unfolding idents_def by (simp add: idents_update same_note_def)
  then show ?case by (simp add: MarkRead_def run_tx_def split: option.splits)
next
  case (ns_publish d now row kind st)
  show ?case by (simp add: idents_ntab[OF publishDelivery_ntab])
next
  case (ns_other d' d)
  show ?case using idents_ntab[OF ns_other(1)] by simp
qed (simp_all add: completeSend_def failSend_def Let_def idents_ntab[OF admin_ntab(1)] idents_ntab[OF admin_ntab(2)]
    idents_ntab[OF admin_ntab(3)] idents_ntab[OF admin_ntab(4)])

lemma steps_idents: "(notify_step ne)\<^sup>*\<^sup>* d d' \<Longrightarrow> notify_ok d \<Longrightarrow> notify_ok d' \<and> idents d \<subseteq> idents d'"
proof (induction rule: rtranclp_induct)
  case (step y z)
  then show ?case using step_ok[OF step(2)] step_idents[OF step(2)] by blast
qed simp

section \<open>A rule that fires leaves its notification\<close>

definition fresh_ids :: "'p notify_env \<Rightarrow> nat \<Rightarrow> 'a notify_db_scheme \<Rightarrow> bool" where
  \<comment> \<open>the identifiers \<^verbatim>\<open>crypto/rand\<close> gives up to the draw \<open>m\<close> are new and do not repeat\<close>
  "fresh_ids env m d \<longleftrightarrow> inj_on (newID (ne_rand env)) {nb_drawn d ..< m} \<and>
     (\<forall>k \<in> {nb_drawn d ..< m}. newID (ne_rand env) k \<notin> no_id ` set (nb_notes d))"

definition fires :: "'p notify_env \<Rightarrow> event \<Rightarrow> rule_row \<Rightarrow> bool" where
  \<comment> \<open>the rule is enabled, not throttled, its pattern and condition hold, and its templates render\<close>
  "fires env e r \<longleftrightarrow>
     (let payload = decodePayload (ne_json env) (ev_payload e) in
      rl_enabled r \<and> \<not> 0 < throttle_of r \<and>
      (case CompilePattern (rl_match r) of Inl _ \<Rightarrow> False | Inr p \<Rightarrow> Matches p (ev_type e)) \<and>
      (case compileWhere (ne_cel env) (rl_where r) of Inl _ \<Rightarrow> False
       | Inr prg \<Rightarrow> evalWhere (ne_cel env) prg e payload = Some True) \<and>
      (case render (look_of env e payload 0) r of Inl _ \<Rightarrow> False | Inr _ \<Rightarrow> True))"

lemma idents_ids: "fst ` idents d = no_id ` set (nb_notes d)" "snd ` idents d = no_key ` set (nb_notes d)"
  by (simp_all add: idents_def image_image)

lemma fresh_adds:
  assumes "fresh_ids env m d" "adds env d d'"
  shows "fresh_ids env m d'"
  unfolding fresh_ids_def
proof (intro conjI ballI)
  have le: "nb_drawn d \<le> nb_drawn d'" using assms(2) by (simp add: adds_def)
  then show "inj_on (newID (ne_rand env)) {nb_drawn d' ..< m}"
    using assms(1) by (auto simp: fresh_ids_def intro: inj_on_subset)
  fix k assume k: "k \<in> {nb_drawn d' ..< m}"
  show "newID (ne_rand env) k \<notin> no_id ` set (nb_notes d')"
  proof
    assume "newID (ne_rand env) k \<in> no_id ` set (nb_notes d')"
    then have "newID (ne_rand env) k \<in> no_id ` set (nb_notes d) \<union> newID (ne_rand env) ` {nb_drawn d ..< nb_drawn d'}"
      using assms(2) unfolding adds_def idents_ids by blast
    moreover have "newID (ne_rand env) k \<notin> no_id ` set (nb_notes d)"
      using assms(1) k le by (simp add: fresh_ids_def)
    ultimately obtain j where j: "newID (ne_rand env) k = newID (ne_rand env) j" "nb_drawn d \<le> j" "j < nb_drawn d'" by auto
    then have "k = j" using assms(1) k le inj_onD[of "newID (ne_rand env)" "{nb_drawn d ..< m}" k j] by (simp add: fresh_ids_def)
    then show False using j k by simp
  qed
qed

lemma immediate_key:
  assumes "notify_ok d" "fresh_ids env m d" "render (look_of env e payload 0) r = Inr w"
    "nb_drawn (snd (applyImmediate env now r e payload d)) \<le> m"
  shows "eventUniq (rl_id r) (ev_id e) \<in> snd ` idents (snd (applyImmediate env now r e payload d))"
proof -
  have "nb_drawn d < nb_drawn (snd (applyImmediate env now r e payload d))"
    by (simp add: applyImmediate_eq[OF assms(1)] assms(3) Let_def publish_ready_drawn drawn_lt) (simp add: drawn_def)
  then have "next_id env d \<notin> no_id ` set (nb_notes d)" using assms(2,4) by (simp add: fresh_ids_def next_id_def)
  then have "\<forall>n \<in> set (nb_notes d). no_id n \<noteq> next_id env d" by (metis image_eqI)
  then have clash: "clash (next_id env d) key d \<longleftrightarrow> key \<in> snd ` idents d" for key
    unfolding idents_ids by (auto simp: clash_def)
  show ?thesis
    by (simp add: applyImmediate_eq[OF assms(1)] assms(3) Let_def clash)
qed

lemma rules_key:
  assumes "notify_ok d" "fresh_ids env m d" "(r, p) \<in> set rps"
    "nb_drawn (snd (apply_rules env now e payload rps d)) \<le> m" "Matches p (ev_type e)"
    "compileWhere (ne_cel env) (rl_where r) = Inr prg" "evalWhere (ne_cel env) prg e payload = Some True"
    "\<not> 0 < throttle_of r" "render (look_of env e payload 0) r = Inr w"
  shows "eventUniq (rl_id r) (ev_id e) \<in> snd ` idents (snd (apply_rules env now e payload rps d))"
  using assms(1-4)
proof (induction rps arbitrary: d)
  case (Cons rp rps)
  obtain d1 where d1: "applyRule env now e payload rp d = (Inr (), d1)"
    using rule_ok(2)[OF Cons.prems(1)] by (metis prod.collapse)
  have ok: "notify_ok d1" using rule_ok(1)[OF Cons.prems(1), of env now e payload rp] d1 by simp
  have ad: "adds env d d1" using adds_rule[OF Cons.prems(1), of env now e payload rp] d1 by simp
  have res: "snd (apply_rules env now e payload (rp # rps) d) = snd (apply_rules env now e payload rps d1)" using d1 by simp
  show ?case
  proof (cases "rp = (r, p)")
    case True
    then have "d1 = snd (applyImmediate env now r e payload d)"
      using arg_cong[OF d1, of snd] assms(5-8) by (simp add: applyRule_def)
    moreover have "nb_drawn d1 \<le> m" using adds_rules[OF ok, of env now e payload rps] Cons.prems(4) unfolding res adds_def by linarith
    ultimately have "eventUniq (rl_id r) (ev_id e) \<in> snd ` idents d1"
      using immediate_key[OF Cons.prems(1,2) assms(9), of now] by simp
    moreover have "idents d1 \<subseteq> idents (snd (apply_rules env now e payload rps d1))"
      using adds_rules[OF ok] unfolding adds_def by blast
    ultimately show ?thesis unfolding res by blast
  next
    case False
    then have "(r, p) \<in> set rps" using Cons.prems(3) by auto
    then show ?thesis using Cons.IH[OF ok fresh_adds[OF Cons.prems(2) ad]] Cons.prems(4) unfolding res by blast
  qed
qed simp

lemma loadEnabledRules_mem:
  "r \<in> set rs \<Longrightarrow> rl_enabled r \<Longrightarrow> CompilePattern (rl_match r) = Inr p \<Longrightarrow> (r, p) \<in> set (loadEnabledRules rs)"
  by (induction rs) (auto split: sum.splits)

lemma fired_key:
  assumes "notify_ok d" "fresh_ids env (nb_drawn (snd (run_tx (notify_handler env now e) d))) d" "r \<in> set (nb_rules d)"
    "fires env e r" "\<not> skipNotificationEvent (ev_type e)"
  shows "eventUniq (rl_id r) (ev_id e) \<in> snd ` idents (snd (run_tx (notify_handler env now e) d))"
proof -
  let ?v = "decodePayload (ne_json env) (ev_payload e)"
  obtain p prg w where f: "rl_enabled r" "CompilePattern (rl_match r) = Inr p" "Matches p (ev_type e)"
    "compileWhere (ne_cel env) (rl_where r) = Inr prg" "evalWhere (ne_cel env) prg e ?v = Some True"
    "\<not> 0 < throttle_of r" "render (look_of env e ?v 0) r = Inr w"
    using assms(4) by (auto simp: fires_def Let_def split: sum.splits)
  have "(r, p) \<in> set (loadEnabledRules (nb_rules d))" by (rule loadEnabledRules_mem[OF assms(3) f(1,2)])
  from rules_key[OF assms(1,2) this _ f(3-7)] show ?thesis
    unfolding run_handler[OF assms(1)] handleEvent_def using assms(5) by simp
qed

lemma key_unique:
  assumes "notify_ok d" "key \<in> snd ` idents d"
  shows "\<exists>!n. n \<in> set (nb_notes d) \<and> no_key n = key"
proof -
  have "distinct (map no_key (nb_notes d))" using notify_okD(1)[OF assms(1)] by (simp add: notes_ok_def)
  then show ?thesis using assms(2) distinct_key_eq[of no_key "nb_notes d"] unfolding idents_ids by blast
qed

lemma attempts_left_le:
  "\<forall>s \<in> set t. 0 \<le> sd_attempts s \<Longrightarrow> attempts_left t \<le> 8 * sql_count (\<lambda>s. sd_state s \<notin> {Sent, SendFailed}) t"
  unfolding attempts_left_sum by (induction t) (auto simp: left1_def sql_count_def send_maxAttempts_def)

section \<open>Properties\<close>

lemma reachable_ok: "no_notes d0 \<Longrightarrow> (notify_step ne)\<^sup>*\<^sup>* d0 d \<Longrightarrow> notify_ok d"
  using steps_ok no_notes_ok by blast

lemma sources_card: "distinct srcs \<Longrightarrow> card {e. (nid, e) \<in> set srcs} = sources_of nid srcs"
proof (induction srcs)
  case (Cons p srcs)
  have fin: "finite {e. (nid, e) \<in> set srcs}" by (rule finite_subset[of _ "snd ` set srcs"]) (auto intro: rev_image_eqI)
  show ?case
  proof (cases "fst p = nid")
    case True
    then have "{e. (nid, e) \<in> set (p # srcs)} = insert (snd p) {e. (nid, e) \<in> set srcs}" by (cases p) auto
    moreover have "snd p \<notin> {e. (nid, e) \<in> set srcs}" using Cons.prems True by (cases p) auto
    ultimately show ?thesis using Cons True fin by (simp add: sources_of_def)
  next
    case False
    then have "{e. (nid, e) \<in> set (p # srcs)} = {e. (nid, e) \<in> set srcs}" by (cases p) auto
    then show ?thesis using Cons False by (simp add: sources_of_def)
  qed
qed (simp add: sources_of_def)

definition w_nenv :: "unit notify_env" where
  "w_nenv = \<lparr>ne_rand = \<lambda>k i. k, ne_json = \<lambda>_. None, ne_num = \<lparr>nt_fixed = \<lambda>_. [], nt_value = \<lambda>_. []\<rparr>, ne_text = \<lambda>_. [],
     ne_cel = \<lparr>cel_compile = \<lambda>_. None, cel_is_bool = \<lambda>_. True, cel_program = \<lambda>_. True, cel_eval = \<lambda>_ _ _. None\<rparr>\<rparr>"

definition w_rule :: rule_row where
  "w_rule = \<lparr>rl_id = ''r'', rl_enabled = True, rl_match = ''**'', rl_where = [], rl_channels = [''inbox'', ''mail''],
     rl_title = ''{event.type}'', rl_body = [], rl_url = [], rl_throttle_s = 0\<rparr>"

definition w_nevent :: event where
  "w_nevent = \<lparr>ev_id = 1, ev_type = ''a.b'', ev_source = ''a'', ev_subject = [], ev_payload = ''null'', ev_created = rfc 0\<rparr>"

definition w_ndb :: notify_db where
  "w_ndb = \<lparr>ev_rows = [w_nevent], ev_seq = 1, ev_cursors = [w_cursor], ev_oldest = 1, ev_last_run = None,
     nb_rules = [w_rule],
     nb_channels = [\<lparr>ch_id = ''mail'', ch_kind = ''ntfy'', ch_settings = [], ch_credential = [], ch_enabled = True\<rparr>],
     nb_throttles = [], nb_notes = [], nb_sources = [], nb_sends = [], nb_audit = [], nb_drawn = 0\<rparr>"

definition w_ndb1 :: notify_db where
  "w_ndb1 = snd (run_tx (notify_handler w_nenv 0 w_nevent) w_ndb)"

definition w_nsub :: durable_sub where
  "w_nsub = \<lparr>ds_name = ''core.x'', ds_pattern = \<lparr>raw = ''**'', segs = [''**'']\<rparr>, ds_retry = DefaultRetry\<rparr>"

definition w_senv :: send_env where
  "w_senv = \<lparr>se_build = \<lambda>_. Inr (\<lambda>_. None), se_ttl = seconds 30, se_now = \<lambda>_. seconds 1\<rparr>"

lemma w_ndb_facts:
  "no_notes w_ndb" "w_rule \<in> set (nb_rules w_ndb)" "fires w_nenv w_nevent w_rule" "\<not> skipNotificationEvent (ev_type w_nevent)"
  "nb_drawn w_ndb1 = 2" "length (nb_notes w_ndb1) = 1"
  "sql_count (\<lambda>s. sd_state s \<notin> {Sent, SendFailed}) (nb_sends w_ndb1) = 1"
  by code_simp+

lemma w_ndb_step: "(notify_step w_nenv)\<^sup>*\<^sup>* w_ndb w_ndb1"
  unfolding w_ndb1_def by (rule r_into_rtranclp) (rule ns_event)

text \<open>
  C6. The books of the notification tables balance under every interleaving of the durable handler, delivery workers with
  stale rows, the administrator and the inbox: a notification counts exactly the events collapsed into it besides its first
  one, every send belongs to one notification, a notification has at most one send per channel, and a send that is not
  finished has been tried fewer than eight times.
\<close>

theorem notification_accounting:
  assumes "no_notes d0" "(notify_step ne)\<^sup>*\<^sup>* d0 d"
  shows "(\<forall>n \<in> set (nb_notes d). no_collapsed n + 1 = int (card {e. (no_id n, e) \<in> set (nb_sources d)})) \<and>
    (\<forall>s \<in> set (nb_sends d). \<exists>!n. n \<in> set (nb_notes d) \<and> no_id n = sd_note s) \<and>
    (\<forall>s \<in> set (nb_sends d). \<forall>t \<in> set (nb_sends d). sd_note s = sd_note t \<and> sd_channel s = sd_channel t \<longrightarrow> s = t) \<and>
    (\<forall>s \<in> set (nb_sends d). sd_state s \<notin> {Sent, SendFailed} \<longrightarrow> sd_attempts s < send_maxAttempts)"
proof -
  note ok = notify_okD[OF reachable_ok[OF assms]]
  have ids: "distinct (map no_id (nb_notes d))" "distinct (map sd_key (nb_sends d))" "distinct (nb_sources d)"
    using ok by (simp_all add: notes_ok_def sends_ok_def)
  show ?thesis
  proof (intro conjI ballI impI)
    fix n assume "n \<in> set (nb_notes d)"
    then show "no_collapsed n + 1 = int (card {e. (no_id n, e) \<in> set (nb_sources d)})"
      using ok(1) by (simp add: notes_ok_def sources_card[OF ids(3)])
  next
    fix s assume "s \<in> set (nb_sends d)"
    then obtain n where "n \<in> set (nb_notes d)" "no_id n = sd_note s" using ok(3) by (auto simp: sends_ok_def)
    then show "\<exists>!n. n \<in> set (nb_notes d) \<and> no_id n = sd_note s"
      using distinct_key_eq[OF ids(1)] by metis
  next
    fix s t assume s: "s \<in> set (nb_sends d)" "t \<in> set (nb_sends d)" "sd_note s = sd_note t \<and> sd_channel s = sd_channel t"
    obtain n where n: "n \<in> set (nb_notes d)" "no_id n = sd_note s" "sd_key s = sendUniq (no_key n) (sd_channel s)"
      using ok(3) s(1) by (auto simp: sends_ok_def)
    obtain m where m: "m \<in> set (nb_notes d)" "no_id m = sd_note t" "sd_key t = sendUniq (no_key m) (sd_channel t)"
      using ok(3) s(2) by (auto simp: sends_ok_def)
    have "n = m" using distinct_key_eq[OF ids(1) n(1) m(1)] n(2) m(2) s(3) by simp
    then have "sd_key s = sd_key t" using n(3) m(3) s(3) by simp
    then show "s = t" using distinct_key_eq[OF ids(2) s(1,2)] by simp
  next
    fix s assume "s \<in> set (nb_sends d)" "sd_state s \<notin> {Sent, SendFailed}"
    then show "sd_attempts s < send_maxAttempts" using ok(3) by (simp add: sends_ok_def send_wf_def)
  qed
qed

theorem notification_accounting_witness:
  "nb_notes w_ndb1 \<noteq> [] \<and> nb_sends w_ndb1 \<noteq> [] \<and>
   list_all (\<lambda>n. no_collapsed n + 1 = int (card {e. (no_id n, e) \<in> set (nb_sources w_ndb1)})) (nb_notes w_ndb1)"
  using notification_accounting[OF w_ndb_facts(1) w_ndb_step] w_ndb_facts(6,7) by (auto simp: sql_count_def list_all_iff)

text \<open>
  C7. An event notifies once per rule: when the handler has run on an event for which an enabled rule without throttle
  fires, there is exactly one notification with the key of that rule and event, in every later state, whatever happens in between,
  deliveries of the same event again included. The identifiers drawn from \<^verbatim>\<open>crypto/rand\<close> are assumed to be new.
\<close>

theorem event_notified_once:
  assumes "no_notes d0" "(notify_step ne)\<^sup>*\<^sup>* d0 d" "r \<in> set (nb_rules d)" "fires ne e r"
    "\<not> skipNotificationEvent (ev_type e)" "d1 = snd (run_tx (notify_handler ne now e) d)" "fresh_ids ne (nb_drawn d1) d"
    "(notify_step ne)\<^sup>*\<^sup>* d1 d2"
  shows "\<exists>!n. n \<in> set (nb_notes d2) \<and> no_key n = eventUniq (rl_id r) (ev_id e)"
proof -
  have ok: "notify_ok d" by (rule reachable_ok[OF assms(1,2)])
  have "eventUniq (rl_id r) (ev_id e) \<in> snd ` idents d1"
    using fired_key[OF ok _ assms(3,4,5), of now] assms(6,7) by simp
  moreover have "notify_ok d1" unfolding assms(6) by (rule handler_ok[OF ok])
  then have "notify_ok d2 \<and> idents d1 \<subseteq> idents d2" by (rule steps_idents[OF assms(8)])
  ultimately show ?thesis using key_unique[of d2] by blast
qed

theorem event_notified_once_witness:
  "\<exists>!n. n \<in> set (nb_notes w_ndb1) \<and> no_key n = eventUniq ''r'' 1"
proof -
  have "newID (ne_rand w_nenv) 0 \<noteq> newID (ne_rand w_nenv) 1" by code_simp
  moreover have "{nb_drawn w_ndb ..< nb_drawn w_ndb1} = {0, 1}"
    unfolding w_ndb_facts(5) by (auto simp: w_ndb_def)
  ultimately have "fresh_ids w_nenv (nb_drawn w_ndb1) w_ndb"
    by (simp add: fresh_ids_def) (simp add: w_ndb_def)
  from event_notified_once[OF w_ndb_facts(1) rtranclp.rtrancl_refl w_ndb_facts(2-4) w_ndb1_def this rtranclp.rtrancl_refl]
  show ?thesis by (simp add: w_rule_def w_nevent_def)
qed

text \<open>
  C25. The notifier never blocks the event log: whatever the rules and the event, the handler succeeds, so a turn of the
  dispatch loop that hands it an event acknowledges the event, and a rule that cannot be evaluated is passed over.
\<close>

theorem notifier_acknowledges:
  assumes "no_notes d0" "(notify_step ne)\<^sup>*\<^sup>* d0 d"
    "sub_step owner ttl now sub (InTx (notify_handler ne now)) d = (w, Some (e, acked), d')"
  shows "acked \<and> notify_ok d'"
proof -
  have ok: "notify_ok d" by (rule reachable_ok[OF assms(1,2)])
  obtain held d1 where a: "acquireLease owner ttl now (ds_name sub) d = (held, d1)" by fastforce
  have "ntab (snd (acquireLease owner ttl now (ds_name sub) d)) = ntab d"
    by (simp add: acquireLease_def ntab_def Let_def)
  then have ok1: "notify_ok d1" using ok_ntab ok a by (metis snd_conv)
  obtain e' where e': "dispatch now sub (InTx (notify_handler ne now)) e' d1 = (acked, d')"
    using assms(3) a by (auto simp: sub_step_def Let_def split: option.splits if_splits prod.splits)
  have h: "notify_handler ne now e' d1 = (Inr (), snd (handleEvent ne now e' d1))"
    using handle_ok(2)[OF ok1, of ne now e'] by (auto simp: notify_handler_def split: prod.splits sum.splits)
  then have d': "acked" "d' = advanceTx now (ds_name sub) (ev_id e') (snd (handleEvent ne now e' d1))"
    using e' by (simp_all add: dispatch_def run_tx_def)
  have "ntab d' = ntab (snd (handleEvent ne now e' d1))"
    unfolding d'(2) by (simp add: advanceTx_def ntab_def)
  then show ?thesis using d'(1) handle_ok(1)[OF ok1] ok_ntab by metis
qed

theorem notifier_acknowledges_witness:
  "\<exists>w d'. sub_step ''p'' (seconds 30) 0 w_nsub (InTx (notify_handler w_nenv 0)) w_ndb = (w, Some (w_nevent, True), d') \<and> notify_ok d'"
proof -
  have "fst (snd (sub_step ''p'' (seconds 30) 0 w_nsub (InTx (notify_handler w_nenv 0)) w_ndb)) = Some (w_nevent, True)"
    by code_simp
  then obtain w d' where "sub_step ''p'' (seconds 30) 0 w_nsub (InTx (notify_handler w_nenv 0)) w_ndb = (w, Some (w_nevent, True), d')"
    by (metis prod.collapse)
  with notifier_acknowledges[OF w_ndb_facts(1) rtranclp.rtrancl_refl this] show ?thesis by blast
qed

text \<open>
  C23. The delivery loop ends: with eight turns for every unfinished send and one more, whatever the clock shows and whatever the channels
  answer at each turn, \<^verbatim>\<open>claimUntilEmpty\<close> stops by itself, and when it stops nothing is claimable at that reading of the clock.
  Every turn that claims uses up an attempt of a send that is not finished.
\<close>

theorem delivery_loop_ends:
  assumes "no_notes d0" "(notify_step ne)\<^sup>*\<^sup>* d0 d"
    "8 * sql_count (\<lambda>s. sd_state s \<notin> {Sent, SendFailed}) (nb_sends d) < length envs"
  shows "\<exists>d' env. claim_loop envs d = (True, d') \<and> env \<in> set envs \<and>
    (\<forall>s \<in> set (nb_sends d'). \<not> claimable (rfc (se_now env 0)) (nb_notes d') s)"
proof -
  have ok: "notify_ok d" by (rule reachable_ok[OF assms(1,2)])
  have "\<forall>s \<in> set (nb_sends d). 0 \<le> sd_attempts s" using notify_okD(3)[OF ok] by (simp add: sends_ok_def send_wf_def)
  then have "attempts_left (nb_sends d) \<le> 8 * sql_count (\<lambda>s. sd_state s \<notin> {Sent, SendFailed}) (nb_sends d)"
    by (rule attempts_left_le)
  then show ?thesis using claim_loop_ends[OF ok, of envs] assms(3) by auto
qed

theorem delivery_loop_ends_witness:
  "\<exists>d'. claim_loop (replicate 9 w_senv) w_ndb1 = (True, d') \<and>
    list_all (\<lambda>s. \<not> claimable (rfc (seconds 1)) (nb_notes d') s) (nb_sends d')"
proof -
  have "8 * sql_count (\<lambda>s. sd_state s \<notin> {Sent, SendFailed}) (nb_sends w_ndb1) < length (replicate 9 w_senv)"
    by (simp only: w_ndb_facts(7) length_replicate)
  from delivery_loop_ends[OF w_ndb_facts(1) w_ndb_step this] show ?thesis
    by (auto simp: list_all_iff w_senv_def)
qed

text \<open>
  The end of an attempt is not fenced: a worker whose lease ran out, and whose send another worker has delivered since, puts the
  delivered send back to be retried.
\<close>

lemma sent_regresses:
  assumes "s \<in> set (nb_sends d)" "sd_state s = Sent" "sd_id row = sd_id s" "sd_attempts row < 7"
  shows "\<exists>s' \<in> set (nb_sends (failSend now row msg False d)). sd_id s' = sd_id s \<and> sd_state s' = RetryWait"
  unfolding failSend_eq
  by (rule bexI[of _ "failed_send now row msg False s"])
    (use assms in \<open>auto simp: failed_send_def Let_def send_maxAttempts_def set_sql_update\<close>)

end
