(* ===== verification/Storage_Auth.thy ===== *)
theory Storage_Auth
  imports Storage_Tx
begin

text \<open>
  \<^verbatim>\<open>internal/core/storage/authorizer.go\<close> and \<^verbatim>\<open>prefix.go\<close>: the SQLite authorizer that confines a
  plugin's SQL to the tables of its prefix, the registry that binds authorizers to connections, and the
  plugin's SQL handle. SQLite itself is a parameter: a statement is the list of authorizer questions
  SQLite asks while it compiles the statement, and its effect; SQLite runs a statement only when every
  answer is \<^verbatim>\<open>SQLITE_OK\<close>.
\<close>

section \<open>The decision\<close>

datatype sql_action =
    SQLITE_TRANSACTION | SQLITE_SELECT | SQLITE_SAVEPOINT | SQLITE_RECURSIVE
  | SQLITE_ATTACH | SQLITE_DETACH
  | SQLITE_CREATE_TEMP_TABLE | SQLITE_CREATE_TEMP_INDEX | SQLITE_CREATE_TEMP_TRIGGER | SQLITE_CREATE_TEMP_VIEW
  | SQLITE_DROP_TEMP_TABLE | SQLITE_DROP_TEMP_INDEX | SQLITE_DROP_TEMP_TRIGGER | SQLITE_DROP_TEMP_VIEW
  | SQLITE_PRAGMA | SQLITE_FUNCTION | SQLITE_CREATE_VTABLE | SQLITE_DROP_VTABLE
  | SQLITE_UPDATE | SQLITE_READ | SQLITE_INSERT | SQLITE_DELETE | SQLITE_CREATE_TABLE | SQLITE_DROP_TABLE | SQLITE_ANALYZE
  | SQLITE_ALTER_TABLE | SQLITE_CREATE_INDEX | SQLITE_DROP_INDEX | SQLITE_REINDEX
  | SQLITE_CREATE_TRIGGER | SQLITE_DROP_TRIGGER | SQLITE_CREATE_VIEW | SQLITE_DROP_VIEW
  | SQLITE_OTHER int

definition isSequenceTable :: "string \<Rightarrow> bool" where
  "isSequenceTable name =
     (case cut_last (CHR ''.'') name of
        None \<Rightarrow> equal_fold name ''sqlite_sequence''
      | Some (schema, n) \<Rightarrow>
          if schema \<noteq> [] \<and> \<not> equal_fold schema ''main'' then False else equal_fold n ''sqlite_sequence'')"

definition allowed_in :: "string \<Rightarrow> string \<Rightarrow> string \<Rightarrow> bool" where
  \<comment> \<open>the part of \<^verbatim>\<open>tableAllowed\<close> after the schema was split off\<close>
  "allowed_in prefix schema name =
     (if has_prefix (to_lower name) ''sqlite_'' then
        to_lower name \<in> {''sqlite_master'', ''sqlite_schema'', ''sqlite_temp_master'', ''sqlite_temp_schema''}
      else if \<not> equal_fold schema ''main'' then False
      else if equal_fold name ''pragma_quick_check'' then True
      else has_prefix name prefix)"

definition tableAllowed :: "string \<Rightarrow> string \<Rightarrow> bool" where
  "tableAllowed prefix name =
     (if name = [] then True
      else case cut_last (CHR ''.'') name of
        None \<Rightarrow> allowed_in prefix ''main'' name
      | Some (s, n) \<Rightarrow>
          (let schema = (if s = [] then ''main'' else s) in
           if \<not> equal_fold schema ''main'' \<and> \<not> equal_fold schema ''temp'' then False
           else allowed_in prefix schema n))"

definition authorize :: "string \<Rightarrow> sql_action \<Rightarrow> string \<Rightarrow> string \<Rightarrow> bool" where
  \<comment> \<open>\<^const>\<open>True\<close> is \<^verbatim>\<open>SQLITE_OK\<close>, \<^const>\<open>False\<close> is \<^verbatim>\<open>SQLITE_DENY\<close>; the code ignores the last two arguments\<close>
  "authorize prefix action a1 a2 =
     (case action of
        SQLITE_TRANSACTION \<Rightarrow> True | SQLITE_SELECT \<Rightarrow> True | SQLITE_SAVEPOINT \<Rightarrow> True | SQLITE_RECURSIVE \<Rightarrow> True
      | SQLITE_PRAGMA \<Rightarrow> equal_fold a1 ''quick_check'' \<and> tableAllowed prefix a2
      | SQLITE_FUNCTION \<Rightarrow> \<not> equal_fold a2 ''load_extension''
      | SQLITE_UPDATE \<Rightarrow>
          if tableAllowed prefix a1 then True else isSequenceTable a1 \<and> equal_fold a2 ''name''
      | SQLITE_READ \<Rightarrow> tableAllowed prefix a1 \<or> isSequenceTable a1
      | SQLITE_INSERT \<Rightarrow> tableAllowed prefix a1 | SQLITE_DELETE \<Rightarrow> tableAllowed prefix a1
      | SQLITE_CREATE_TABLE \<Rightarrow> tableAllowed prefix a1 | SQLITE_DROP_TABLE \<Rightarrow> tableAllowed prefix a1
      | SQLITE_ANALYZE \<Rightarrow> tableAllowed prefix a1
      | SQLITE_ALTER_TABLE \<Rightarrow> tableAllowed prefix a2
      | SQLITE_CREATE_INDEX \<Rightarrow> tableAllowed prefix a2 | SQLITE_DROP_INDEX \<Rightarrow> tableAllowed prefix a2
      | SQLITE_REINDEX \<Rightarrow> tableAllowed prefix a2
      | SQLITE_CREATE_TRIGGER \<Rightarrow> tableAllowed prefix a1 \<and> (a2 = [] \<or> tableAllowed prefix a2)
      | SQLITE_DROP_TRIGGER \<Rightarrow> tableAllowed prefix a1 \<and> (a2 = [] \<or> tableAllowed prefix a2)
      | SQLITE_CREATE_VIEW \<Rightarrow> tableAllowed prefix a1 \<and> (a2 = [] \<or> tableAllowed prefix a2)
      | SQLITE_DROP_VIEW \<Rightarrow> tableAllowed prefix a1 \<and> (a2 = [] \<or> tableAllowed prefix a2)
      | _ \<Rightarrow> False)"

section \<open>Authorizers and connections\<close>

record authorizers =
  au_next :: int
  au_byID :: "int \<rightharpoonup> string"
  au_byConn :: "int \<rightharpoonup> int"
  au_hook :: "int \<rightharpoonup> int" \<comment> \<open>what SQLite holds: the callback argument of each connection\<close>

definition auth_alloc :: "string \<Rightarrow> authorizers \<Rightarrow> int \<times> authorizers" where
  "auth_alloc prefix a = (au_next a, a\<lparr>au_next := au_next a + 1, au_byID := (au_byID a)(au_next a \<mapsto> prefix)\<rparr>)"

definition auth_bind :: "int \<Rightarrow> int \<Rightarrow> authorizers \<Rightarrow> authorizers" where
  "auth_bind db n a = a\<lparr>au_byConn := (au_byConn a)(db \<mapsto> n)\<rparr>"

definition auth_drop :: "int \<Rightarrow> authorizers \<Rightarrow> authorizers" where
  "auth_drop db a =
     (case au_byConn a db of None \<Rightarrow> a
      | Some n \<Rightarrow> a\<lparr>au_byID := (au_byID a)(n := None), au_byConn := (au_byConn a)(db := None)\<rparr>)"

definition auth_prefix :: "int \<Rightarrow> authorizers \<Rightarrow> string" where
  "auth_prefix n a = (case au_byID a n of None \<Rightarrow> [] | Some p \<Rightarrow> p)"

definition setConnAuthorizer :: "bool \<Rightarrow> int \<Rightarrow> string \<Rightarrow> authorizers \<Rightarrow> bool \<times> authorizers" where
  \<comment> \<open>the first flag: \<^verbatim>\<open>sqlite3_set_authorizer\<close> succeeds; the result flag: no error\<close>
  "setConnAuthorizer ok db prefix a =
     (let a1 = auth_drop db a in
      if prefix = [] then (True, a1\<lparr>au_hook := (au_hook a1)(db := None)\<rparr>)
      else
        (let (n, a2) = auth_alloc prefix a1; a3 = auth_bind db n a2
         in if ok then (True, a3\<lparr>au_hook := (au_hook a3)(db \<mapsto> n)\<rparr>) else (False, auth_drop db a3)))"

definition authorizerTrampoline :: "authorizers \<Rightarrow> int \<Rightarrow> sql_action \<Rightarrow> string \<Rightarrow> string \<Rightarrow> bool" where
  "authorizerTrampoline a n action a1 a2 =
     (let prefix = auth_prefix n a in if prefix = [] then False else authorize prefix action a1 a2)"

definition conn_allows :: "authorizers \<Rightarrow> int \<Rightarrow> sql_action \<Rightarrow> string \<Rightarrow> string \<Rightarrow> bool" where
  \<comment> \<open>what SQLite does with the answer: a connection without an authorizer allows everything\<close>
  "conn_allows a db action a1 a2 =
     (case au_hook a db of None \<Rightarrow> True | Some n \<Rightarrow> authorizerTrampoline a n action a1 a2)"

section \<open>The plugin's SQL handle\<close>

record ('d, 'v) sql_stmt =
  ss_asks :: "(sql_action \<times> string \<times> string) list"
  ss_run :: "'d \<Rightarrow> (string + 'v) \<times> 'd"

datatype sql_error = ErrSQLDenied | ErrSQL string

definition sql_exec :: "authorizers \<Rightarrow> int \<Rightarrow> ('d, 'v) sql_stmt \<Rightarrow> 'd \<Rightarrow> (sql_error + 'v) \<times> 'd" where
  \<comment> \<open>\<^verbatim>\<open>tx.Exec\<close> or \<^verbatim>\<open>Query\<close> on a connection with the error wrapped by \<^verbatim>\<open>wrapSQLDenied\<close>; a statement that
     fails changes nothing\<close>
  "sql_exec a db s d =
     (if list_all (\<lambda>(x, a1, a2). conn_allows a db x a1 a2) (ss_asks s)
      then (case ss_run s d of (Inl e, _) \<Rightarrow> (Inl (ErrSQL e), d) | (Inr v, d') \<Rightarrow> (Inr v, d'))
      else (Inl ErrSQLDenied, d))"

definition prefixed_stmt ::
  "bool \<Rightarrow> int \<Rightarrow> string \<Rightarrow> ('d, 'v) sql_stmt \<Rightarrow> authorizers \<Rightarrow> 'd \<Rightarrow> (sql_error + 'v) \<times> authorizers \<times> 'd" where
  \<comment> \<open>\<^verbatim>\<open>prefixTx.Exec\<close>: set the authorizer, run, clear it again\<close>
  "prefixed_stmt ok db prefix s a d =
     (case setConnAuthorizer ok db prefix a of
        (False, a1) \<Rightarrow> (Inl (ErrSQL ''sqlite3_set_authorizer''), a1, d)
      | (True, a1) \<Rightarrow>
          (case sql_exec a1 db s d of (r, d1) \<Rightarrow> (r, snd (setConnAuthorizer True db [] a1), d1)))"

definition prefix_of :: "string \<Rightarrow> string" where
  "prefix_of pluginID = pluginID @ ''_''"

definition PrefixDB_Exec ::
  "bool \<Rightarrow> int \<Rightarrow> string \<Rightarrow> ('d, 'v) sql_stmt \<Rightarrow> authorizers \<Rightarrow> 'd \<Rightarrow> (sql_error + 'v) \<times> authorizers \<times> 'd" where
  \<comment> \<open>one statement in a transaction of its own\<close>
  "PrefixDB_Exec ok db pluginID s a d =
     (case prefixed_stmt ok db (prefix_of pluginID) s a d of
        (Inl e, a1, _) \<Rightarrow> (Inl e, a1, d) | (Inr v, a1, d1) \<Rightarrow> (Inr v, a1, d1))"

fun prefix_tx ::
  "int \<Rightarrow> string \<Rightarrow> ('d, 'v) sql_stmt list \<Rightarrow> authorizers \<Rightarrow> 'd \<Rightarrow> (sql_error + 'v list) \<times> authorizers \<times> 'd" where
  \<comment> \<open>a plugin transaction whose callback runs these statements and returns the first error\<close>
  "prefix_tx db pluginID [] a d = (Inr [], a, d)"
| "prefix_tx db pluginID (s # ss) a d =
     (case prefixed_stmt True db (prefix_of pluginID) s a d of
        (Inl e, a1, d1) \<Rightarrow> (Inl e, a1, d1)
      | (Inr v, a1, d1) \<Rightarrow>
          (case prefix_tx db pluginID ss a1 d1 of
             (Inl e, a2, d2) \<Rightarrow> (Inl e, a2, d2) | (Inr vs, a2, d2) \<Rightarrow> (Inr (v # vs), a2, d2)))"

section \<open>Names\<close>

text \<open>A table name of a program: no schema in front and none of the names SQLite reserves.\<close>

definition ordinary :: "string \<Rightarrow> bool" where
  "ordinary t \<longleftrightarrow> t \<noteq> [] \<and> CHR ''.'' \<notin> set t \<and> \<not> has_prefix (to_lower t) ''sqlite_'' \<and>
     \<not> equal_fold t ''pragma_quick_check''"

lemma cut_last_None: "cut_last d s = None \<longleftrightarrow> d \<notin> set s"
  by (simp add: cut_last_def cut_None_iff split: option.splits prod.splits)
    (metis cut_None_iff not_None_eq option.distinct(1) set_rev)

lemma tableAllowed_ordinary: "ordinary t \<Longrightarrow> tableAllowed prefix t \<longleftrightarrow> has_prefix t prefix"
  by (simp add: ordinary_def tableAllowed_def cut_last_None[THEN iffD2] allowed_in_def equal_fold_def)

lemma sequence_not_ordinary: "ordinary t \<Longrightarrow> \<not> isSequenceTable t"
proof
  assume o: "ordinary t" "isSequenceTable t"
  then have "to_lower t = to_lower ''sqlite_sequence''"
    by (simp add: isSequenceTable_def ordinary_def cut_last_None[THEN iffD2] equal_fold_def)
  moreover have "has_prefix (to_lower ''sqlite_sequence'') ''sqlite_''" by code_simp
  ultimately show False using o(1) by (simp add: ordinary_def)
qed

lemma prefixes_comparable:
  "has_prefix t u \<Longrightarrow> has_prefix t v \<Longrightarrow> has_prefix u v \<or> has_prefix v u"
  by (metis append_eq_append_conv2 has_prefix_append has_prefix_iff)

definition nested :: "string \<Rightarrow> string \<Rightarrow> bool" where
  "nested p q \<longleftrightarrow> has_prefix (prefix_of q) (prefix_of p)"

lemma namespaces_disjoint:
  "\<not> nested p q \<Longrightarrow> \<not> nested q p \<Longrightarrow> \<not> (has_prefix t (prefix_of p) \<and> has_prefix t (prefix_of q))"
  using prefixes_comparable by (auto simp: nested_def)

section \<open>The contract of an authorizer\<close>

text \<open>
  What a client of the SQL handle relies on: every question about an ordinary table that is answered with
  yes is about an owned table, and other databases, temporary objects, virtual tables and unknown actions
  are refused.
\<close>

definition table_asked :: "sql_action \<Rightarrow> string \<Rightarrow> string \<Rightarrow> string list" where
  \<comment> \<open>the tables an action touches, by SQLite's documentation of its two arguments\<close>
  "table_asked x a1 a2 =
     (if x \<in> {SQLITE_UPDATE, SQLITE_READ, SQLITE_INSERT, SQLITE_DELETE, SQLITE_CREATE_TABLE, SQLITE_DROP_TABLE, SQLITE_ANALYZE} then [a1]
      else if x \<in> {SQLITE_ALTER_TABLE, SQLITE_CREATE_INDEX, SQLITE_DROP_INDEX, SQLITE_REINDEX} then [a2]
      else if x \<in> {SQLITE_CREATE_TRIGGER, SQLITE_DROP_TRIGGER} then [a1, a2]
      else if x \<in> {SQLITE_CREATE_VIEW, SQLITE_DROP_VIEW} then [a1] else [])"

definition escapes :: "sql_action \<Rightarrow> bool" where
  "escapes x \<longleftrightarrow> x \<in> {SQLITE_ATTACH, SQLITE_DETACH, SQLITE_CREATE_TEMP_TABLE, SQLITE_CREATE_TEMP_INDEX,
     SQLITE_CREATE_TEMP_TRIGGER, SQLITE_CREATE_TEMP_VIEW, SQLITE_DROP_TEMP_TABLE, SQLITE_DROP_TEMP_INDEX,
     SQLITE_DROP_TEMP_TRIGGER, SQLITE_DROP_TEMP_VIEW, SQLITE_CREATE_VTABLE, SQLITE_DROP_VTABLE} \<or> (\<exists>n. x = SQLITE_OTHER n)"

locale confined_sql =
  fixes allows :: "sql_action \<Rightarrow> string \<Rightarrow> string \<Rightarrow> bool"
    and owns :: "string \<Rightarrow> bool"
  assumes only_own: "allows x a1 a2 \<Longrightarrow> t \<in> set (table_asked x a1 a2) \<Longrightarrow> ordinary t \<Longrightarrow> owns t"
    and no_escape: "allows x a1 a2 \<Longrightarrow> \<not> escapes x"
begin

definition confined :: "(sql_action \<times> string \<times> string) list \<Rightarrow> bool" where
  "confined asks \<longleftrightarrow> (\<forall>(x, a1, a2) \<in> set asks. \<not> escapes x \<and> (\<forall>t \<in> set (table_asked x a1 a2). ordinary t \<longrightarrow> owns t))"

lemma allowed_confined: "list_all (\<lambda>(x, a1, a2). allows x a1 a2) asks \<Longrightarrow> confined asks"
  using only_own no_escape by (fastforce simp: confined_def list_all_iff)

end

lemma authorize_asked:
  "authorize prefix x a1 a2 \<Longrightarrow> t \<in> set (table_asked x a1 a2) \<Longrightarrow> ordinary t \<Longrightarrow> has_prefix t prefix"
  using sequence_not_ordinary[of t]
  by (cases x) (auto simp: authorize_def table_asked_def ordinary_def tableAllowed_ordinary[unfolded ordinary_def] split: if_splits)

lemma authorize_no_escape: "authorize prefix x a1 a2 \<Longrightarrow> \<not> escapes x"
  by (cases x) (auto simp: authorize_def escapes_def)

interpretation plug: confined_sql "authorize prefix" "\<lambda>t. has_prefix t prefix" for prefix
  by unfold_locales (blast dest: authorize_asked authorize_no_escape)+

section \<open>The registry\<close>

definition auth_ok :: "authorizers \<Rightarrow> bool" where
  "auth_ok a \<longleftrightarrow> (\<forall>n. au_byID a n \<noteq> None \<longrightarrow> n < au_next a) \<and>
     (\<forall>db n. au_byConn a db = Some n \<longrightarrow> n < au_next a) \<and>
     (\<forall>db db' n. au_byConn a db = Some n \<and> au_byConn a db' = Some n \<longrightarrow> db = db') \<and>
     (\<forall>db n. au_hook a db = Some n \<longrightarrow> n < au_next a \<and> (au_byConn a db = Some n \<or> au_byID a n = None))"

lemma auth_drop_ok: "auth_ok a \<Longrightarrow> auth_ok (auth_drop db a)"
  by (auto simp: auth_ok_def auth_drop_def split: option.splits) (metis option.inject)

lemma auth_drop_other:
  assumes "auth_ok a" "db' \<noteq> db"
  shows "conn_allows (auth_drop db a) db' = conn_allows a db'"
proof (intro ext)
  fix x a1 a2
  show "conn_allows (auth_drop db a) db' x a1 a2 = conn_allows a db' x a1 a2"
    using assms
    by (auto simp: conn_allows_def authorizerTrampoline_def auth_prefix_def auth_drop_def auth_ok_def split: option.splits)
      (metis option.distinct(1))
qed

lemma auth_drop_fields [simp]: "au_next (auth_drop db a) = au_next a" "au_hook (auth_drop db a) = au_hook a"
  by (simp_all add: auth_drop_def split: option.splits)

lemma auth_drop_conn: "au_byConn (auth_drop db a) db = None"
  by (simp add: auth_drop_def split: option.splits)

lemma bound_ok:
  assumes "auth_ok a" "au_byConn a db = None"
  shows "auth_ok (auth_bind db (au_next a) (snd (auth_alloc prefix a)))"
proof -
  note ok = assms(1)[unfolded auth_ok_def]
  note byid = ok[THEN conjunct1, rule_format] and byconn = ok[THEN conjunct2, THEN conjunct1, rule_format]
    and inj = ok[THEN conjunct2, THEN conjunct2, THEN conjunct1, rule_format]
    and hook = ok[THEN conjunct2, THEN conjunct2, THEN conjunct2, rule_format]
  let ?b = "auth_bind db (au_next a) (snd (auth_alloc prefix a))"
  have b: "au_next ?b = au_next a + 1" "au_byID ?b = (au_byID a)(au_next a \<mapsto> prefix)"
    "au_byConn ?b = (au_byConn a)(db \<mapsto> au_next a)" "au_hook ?b = au_hook a"
    by (simp_all add: auth_bind_def auth_alloc_def)
  show ?thesis
    unfolding auth_ok_def b
  proof (intro conjI allI impI)
    fix n assume "((au_byID a)(au_next a \<mapsto> prefix)) n \<noteq> None"
    then show "n < au_next a + 1" using byid[of n] by (cases "n = au_next a") simp_all
  next
    fix c n assume "((au_byConn a)(db \<mapsto> au_next a)) c = Some n"
    then show "n < au_next a + 1" using byconn[of c n] by (cases "c = db") simp_all
  next
    fix c c' n assume "((au_byConn a)(db \<mapsto> au_next a)) c = Some n \<and> ((au_byConn a)(db \<mapsto> au_next a)) c' = Some n"
    then show "c = c'" using byconn[of c n] byconn[of c' n] inj[of c n c'] by (cases "c = db"; cases "c' = db") simp_all
  next
    fix c n assume h: "au_hook a c = Some n"
    show "n < au_next a + 1" using hook[OF h] by simp
    show "((au_byConn a)(db \<mapsto> au_next a)) c = Some n \<or> ((au_byID a)(au_next a \<mapsto> prefix)) n = None"
      using hook[OF h] assms(2) by (cases "c = db") auto
  qed
qed

lemma bound_other:
  assumes "auth_ok a" "db' \<noteq> db"
  shows "conn_allows (auth_bind db (au_next a) (snd (auth_alloc prefix a))) db' = conn_allows a db'"
proof (intro ext)
  fix x a1 a2
  have "n \<noteq> au_next a" if "au_hook a db' = Some n" for n using assms(1) that by (auto simp: auth_ok_def)
  then show "conn_allows (auth_bind db (au_next a) (snd (auth_alloc prefix a))) db' x a1 a2 = conn_allows a db' x a1 a2"
    by (auto simp: conn_allows_def authorizerTrampoline_def auth_prefix_def auth_bind_def auth_alloc_def split: option.splits)
qed

lemma hook_ok:
  "auth_ok a \<Longrightarrow> (case h of None \<Rightarrow> True | Some n \<Rightarrow> au_byConn a db = Some n) \<Longrightarrow> auth_ok (a\<lparr>au_hook := (au_hook a)(db := h)\<rparr>)"
  by (auto simp: auth_ok_def split: option.splits)

lemma hook_other: "db' \<noteq> db \<Longrightarrow> conn_allows (a\<lparr>au_hook := (au_hook a)(db := h)\<rparr>) db' = conn_allows a db'"
  by (intro ext) (simp add: conn_allows_def authorizerTrampoline_def auth_prefix_def split: option.splits)

lemma setConnAuthorizer_cases:
  obtains (clear) "prefix = []" "setConnAuthorizer ok db prefix a = (True, (auth_drop db a)\<lparr>au_hook := (au_hook a)(db := None)\<rparr>)"
  | (set) "prefix \<noteq> []" "ok" "setConnAuthorizer ok db prefix a =
      (True, (auth_bind db (au_next a) (snd (auth_alloc prefix (auth_drop db a))))\<lparr>au_hook := (au_hook a)(db \<mapsto> au_next a)\<rparr>)"
  | (fail) "prefix \<noteq> []" "\<not> ok" "setConnAuthorizer ok db prefix a =
      (False, auth_drop db (auth_bind db (au_next a) (snd (auth_alloc prefix (auth_drop db a)))))"
proof -
  show ?thesis
    by (cases "prefix = []"; cases ok)
      (use clear set fail in \<open>simp_all add: setConnAuthorizer_def auth_alloc_def auth_bind_def Let_def\<close>)
qed

lemma confined_prefix:
  assumes "plug.confined (prefix_of p) asks"
  shows "\<forall>(x, a1, a2) \<in> set asks. \<not> escapes x \<and>
      (\<forall>t \<in> set (table_asked x a1 a2). ordinary t \<longrightarrow> has_prefix t (prefix_of p) \<and>
         (\<forall>q. \<not> nested p q \<and> \<not> nested q p \<longrightarrow> \<not> has_prefix t (prefix_of q)))"
proof (clarify, intro conjI ballI impI allI)
  fix x a1 a2 t
  assume m: "(x, a1, a2) \<in> set asks"
  show "\<not> escapes x" using assms m by (auto simp: plug.confined_def)
  assume t: "t \<in> set (table_asked x a1 a2)" "ordinary t"
  show p: "has_prefix t (prefix_of p)" using assms m t by (auto simp: plug.confined_def)
  show "\<not> has_prefix t (prefix_of q)" if "\<not> nested p q \<and> \<not> nested q p" for q
    using namespaces_disjoint[of p q t] that p by blast
qed

section \<open>Properties\<close>


definition w_insert :: "(nat, unit) sql_stmt" where
  "w_insert = \<lparr>ss_asks = [(SQLITE_INSERT, ''hello_items'', []), (SQLITE_READ, ''hello_items'', ''id'')],
     ss_run = (\<lambda>n. (Inr (), n + 1))\<rparr>"

definition w_auth :: authorizers where
  "w_auth = \<lparr>au_next = 1, au_byID = (\<lambda>_. None), au_byConn = (\<lambda>_. None), au_hook = (\<lambda>_. None)\<rparr>"


text \<open>
  Installing or clearing the authorizer of one connection keeps the registry consistent and never changes
  what another connection may do; after a successful installation the connection answers exactly by its prefix,
  after clearing it is unrestricted again, and after a failed installation over an earlier authorizer
  everything is denied.
\<close>

theorem authorizer_switch:
  assumes "auth_ok a" "setConnAuthorizer ok db prefix a = (r, a')"
  shows "auth_ok a' \<and> (\<forall>db'. db' \<noteq> db \<longrightarrow> conn_allows a' db' = conn_allows a db') \<and>
    (prefix = [] \<longrightarrow> r \<and> conn_allows a' db = (\<lambda>_ _ _. True)) \<and>
    (prefix \<noteq> [] \<and> r \<longrightarrow> conn_allows a' db = authorize prefix) \<and>
    (\<not> r \<and> au_hook a db \<noteq> None \<longrightarrow> conn_allows a' db = (\<lambda>_ _ _. False))"
proof (cases rule: setConnAuthorizer_cases[of prefix ok db a])
  case clear
  have "auth_ok ((auth_drop db a)\<lparr>au_hook := (au_hook (auth_drop db a))(db := None)\<rparr>)"
    by (rule hook_ok) (simp_all add: auth_drop_ok assms(1))
  moreover have "conn_allows a' db' = conn_allows a db'" if "db' \<noteq> db" for db'
    using hook_other[OF that, of "auth_drop db a" None] auth_drop_other[OF assms(1) that] clear assms(2) by simp
  ultimately show ?thesis using clear assms(2) by (auto simp: conn_allows_def fun_eq_iff)
next
  case set
  let ?b = "auth_bind db (au_next a) (snd (auth_alloc prefix (auth_drop db a)))"
  have b: "auth_ok ?b" using bound_ok[OF auth_drop_ok[OF assms(1)] auth_drop_conn, of db prefix] by simp
  have h: "au_hook ?b = au_hook a" by (simp add: auth_bind_def auth_alloc_def)
  have a': "a' = ?b\<lparr>au_hook := (au_hook ?b)(db \<mapsto> au_next a)\<rparr>" using set assms(2) h by simp
  have "auth_ok a'" unfolding a' by (rule hook_ok[OF b]) (simp add: auth_bind_def)
  moreover have "conn_allows a' db' = conn_allows a db'" if "db' \<noteq> db" for db'
    unfolding a' hook_other[OF that] using bound_other[OF auth_drop_ok[OF assms(1)] that, of db prefix]
      auth_drop_other[OF assms(1) that] by simp
  moreover have "conn_allows a' db = authorize prefix"
    unfolding a' using set(1)
    by (intro ext) (simp add: conn_allows_def authorizerTrampoline_def auth_prefix_def auth_bind_def auth_alloc_def)
  ultimately show ?thesis using set assms(2) by auto
next
  case fail
  let ?b = "auth_bind db (au_next a) (snd (auth_alloc prefix (auth_drop db a)))"
  have b: "auth_ok ?b" using bound_ok[OF auth_drop_ok[OF assms(1)] auth_drop_conn, of db prefix] by simp
  have "conn_allows a' db' = conn_allows a db'" if "db' \<noteq> db" for db'
    using auth_drop_other[OF b that] bound_other[OF auth_drop_ok[OF assms(1)] that, of db prefix]
      auth_drop_other[OF assms(1) that] fail assms(2) by simp
  moreover have "conn_allows a' db = (\<lambda>_ _ _. False)" if hk: "au_hook a db = Some n" for n
  proof -
    have "au_byID (auth_drop db a) n = None" "n < au_next a"
      using assms(1) hk by (auto simp: auth_ok_def auth_drop_def split: option.splits) (metis option.distinct(1) option.inject)+
    then have "au_byID a' n = None" "au_hook a' db = Some n"
      using fail assms(2) hk by (auto simp: auth_drop_def auth_bind_def auth_alloc_def split: option.splits)
    then show ?thesis by (intro ext) (simp add: conn_allows_def authorizerTrampoline_def auth_prefix_def)
  qed
  ultimately show ?thesis using fail assms(2) auth_drop_ok[OF b, of db] by auto
qed

theorem authorizer_switch_witness:
  "\<exists>a'. setConnAuthorizer True 7 ''a_'' w_auth = (True, a') \<and> conn_allows a' 7 = authorize ''a_'' \<and> conn_allows a' 8 = conn_allows w_auth 8"
proof -
  have ok: "auth_ok w_auth" by (simp add: auth_ok_def w_auth_def)
  obtain a' where s: "setConnAuthorizer True 7 ''a_'' w_auth = (True, a')"
    by (cases rule: setConnAuthorizer_cases[of "''a_''" True 7 w_auth]) auto
  show ?thesis using authorizer_switch[OF ok s] s by auto
qed

text \<open>
  The two ways a plugin reaches beyond its namespace: the identifier of another plugin may extend its own at
  an underscore, and the rows of SQLite's bookkeeping of \<^verbatim>\<open>AUTOINCREMENT\<close> can be renamed by any plugin, which
  detaches the counter of a table of the core.
\<close>

lemma nested_namespace_open:
  "authorize (prefix_of ''bid'') SQLITE_DROP_TABLE ''bid_rl_items'' [] \<and> has_prefix ''bid_rl_items'' (prefix_of ''bid_rl'')"
  by code_simp

lemma sequence_rename_open: "authorize prefix SQLITE_UPDATE ''sqlite_sequence'' ''name''"
proof -
  have "isSequenceTable ''sqlite_sequence''" "equal_fold ''name'' ''name''" by code_simp+
  then show ?thesis by (simp add: authorize_def)
qed

end
