(* ===== verification/Storage_Migrate.thy ===== *)
theory Storage_Migrate
  imports Storage_Auth
begin

text \<open>
  \<^verbatim>\<open>internal/core/storage/migrate.go\<close>: applying the migrations of a namespace, for the core (\<^verbatim>\<open>Apply\<close>) and
  for a plugin under its authorizer (\<^verbatim>\<open>applyPrefixed\<close>). SQLite and SHA-256 are parameters (\<open>mig_env\<close>):
  what a script does to the data, the authorizer questions it raises, the names in the schema. Every
  migration is one transaction, so an interrupted run leaves a prefix of the pending ones applied.
\<close>

section \<open>Data\<close>

record migration =
  mg_version :: int
  mg_name :: string
  mg_up :: string

record mig_row =
  mr_ns :: string
  mr_version :: int
  mr_name :: string
  mr_checksum :: string
  mr_at :: string

record 'd mig_db =
  md_rows :: "mig_row list"
  md_data :: 'd

record 'd mig_env =
  me_exec :: "string \<Rightarrow> 'd \<Rightarrow> string + 'd" \<comment> \<open>running a script\<close>
  me_asks :: "string \<Rightarrow> 'd \<Rightarrow> (sql_action \<times> string \<times> string) list" \<comment> \<open>what SQLite asks the authorizer\<close>
  me_schema :: "'d \<Rightarrow> string list" \<comment> \<open>the names in \<^verbatim>\<open>sqlite_master\<close>\<close>
  me_sha :: "string \<Rightarrow> string" \<comment> \<open>hex of SHA-256\<close>
  me_now :: "int \<Rightarrow> time" \<comment> \<open>the clock when a version is recorded\<close>

datatype mig_error =
    MigNamespace | MigVersion int | MigOrder int | MigName int | MigChanged int | MigInserted int
  | MigScript int string | MigDenied int | MigConflict int | MigRemoved

section \<open>Operations\<close>

definition mig_checksum :: "'d mig_env \<Rightarrow> migration \<Rightarrow> string" where
  "mig_checksum env m = me_sha env (mg_name m @ [CHR 0x00] @ mg_up m)"

fun validateOrder :: "int \<Rightarrow> migration list \<Rightarrow> mig_error option" where
  "validateOrder prev [] = None"
| "validateOrder prev (m # ms) =
     (if mg_version m \<le> 0 then Some (MigVersion (mg_version m))
      else if mg_version m \<le> prev then Some (MigOrder (mg_version m))
      else if mg_name m = [] then Some (MigName (mg_version m))
      else validateOrder (mg_version m) ms)"

definition appliedMigrations :: "string \<Rightarrow> 'd mig_db \<Rightarrow> mig_row list" where
  "appliedMigrations ns d = filter (\<lambda>r. mr_ns r = ns) (md_rows d)"

definition applied_at :: "int \<Rightarrow> mig_row list \<Rightarrow> mig_row option" where
  "applied_at v ap = sql_find (\<lambda>r. mr_version r = v) ap"

definition highest :: "mig_row list \<Rightarrow> int" where
  "highest ap = fold (\<lambda>r h. if mr_version r > h then mr_version r else h) ap 0"

definition mig_record :: "'d mig_env \<Rightarrow> string \<Rightarrow> migration \<Rightarrow> mig_row" where
  "mig_record env ns m = \<lparr>mr_ns = ns, mr_version = mg_version m, mr_name = mg_name m,
     mr_checksum = mig_checksum env m, mr_at = rfc (me_now env (mg_version m))\<rparr>"

definition mig_key :: "mig_row \<Rightarrow> string \<times> int" where
  "mig_key r = (mr_ns r, mr_version r)"

definition record_done :: "'d mig_env \<Rightarrow> string \<Rightarrow> migration \<Rightarrow> 'd \<Rightarrow> 'd mig_db \<Rightarrow> (mig_error + unit) \<times> 'd mig_db" where
  \<comment> \<open>the \<^verbatim>\<open>INSERT INTO core_migrations\<close> after the script left the data as given\<close>
  "record_done env ns m x d =
     (case sql_insert mig_key (mig_record env ns m) (md_rows d) of
        None \<Rightarrow> (Inl (MigConflict (mg_version m)), d)
      | Some rs \<Rightarrow> (Inr (), d\<lparr>md_rows := rs, md_data := x\<rparr>))"

definition applyOne :: "'d mig_env \<Rightarrow> string \<Rightarrow> migration \<Rightarrow> 'd mig_db \<Rightarrow> (mig_error + unit) \<times> 'd mig_db" where
  "applyOne env ns m = run_tx (\<lambda>d.
     case me_exec env (mg_up m) (md_data d) of
       Inl e \<Rightarrow> (Inl (MigScript (mg_version m) e), d)
     | Inr x \<Rightarrow> record_done env ns m x d)"

definition like_sqlite :: "string \<Rightarrow> bool" where
  \<comment> \<open>\<^verbatim>\<open>name LIKE 'sqlite_%'\<close>: ASCII case is ignored and the underscore stands for any character\<close>
  "like_sqlite n \<longleftrightarrow> has_prefix (to_lower n) ''sqlite'' \<and> 6 < length n"

definition schemaOutside :: "'d mig_env \<Rightarrow> string \<Rightarrow> 'd \<Rightarrow> string list" where
  "schemaOutside env prefix x = filter (\<lambda>n. \<not> like_sqlite n \<and> \<not> has_prefix n prefix) (me_schema env x)"

definition applyOnePrefixed ::
  "'d mig_env \<Rightarrow> string \<Rightarrow> string \<Rightarrow> migration \<Rightarrow> 'd mig_db \<Rightarrow> (mig_error + unit) \<times> 'd mig_db" where
  "applyOnePrefixed env ns prefix m = run_tx (\<lambda>d.
     let before = schemaOutside env prefix (md_data d) in
     if \<not> list_all (\<lambda>(x, a1, a2). authorize prefix x a1 a2) (me_asks env (mg_up m) (md_data d))
     then (Inl (MigDenied (mg_version m)), d)
     else case me_exec env (mg_up m) (md_data d) of
            Inl e \<Rightarrow> (Inl (MigScript (mg_version m) e), d)
          | Inr x \<Rightarrow>
              if \<exists>n \<in> set (schemaOutside env prefix x). n \<notin> set before then (Inl (MigDenied (mg_version m)), d)
              else record_done env ns m x d)"

fun apply_loop ::
  "(migration \<Rightarrow> 'd mig_db \<Rightarrow> (mig_error + unit) \<times> 'd mig_db) \<Rightarrow> 'd mig_env \<Rightarrow> mig_row list \<Rightarrow> int \<Rightarrow> nat \<Rightarrow>
   migration list \<Rightarrow> 'd mig_db \<Rightarrow> (mig_error + nat) \<times> 'd mig_db" where
  "apply_loop one env ap hi seen [] d = (Inr seen, d)"
| "apply_loop one env ap hi seen (m # ms) d =
     (case applied_at (mg_version m) ap of
        Some prev \<Rightarrow>
          if mr_name prev \<noteq> mg_name m \<or> mr_checksum prev \<noteq> mig_checksum env m
          then (Inl (MigChanged (mg_version m)), d)
          else apply_loop one env ap hi (Suc seen) ms d
      | None \<Rightarrow>
          if mg_version m < hi then (Inl (MigInserted (mg_version m)), d)
          else case one m d of
                 (Inl e, d1) \<Rightarrow> (Inl e, d1)
               | (Inr _, d1) \<Rightarrow> apply_loop one env ap hi seen ms d1)"

definition apply_with ::
  "(migration \<Rightarrow> 'd mig_db \<Rightarrow> (mig_error + unit) \<times> 'd mig_db) \<Rightarrow> 'd mig_env \<Rightarrow> string \<Rightarrow> migration list \<Rightarrow>
   'd mig_db \<Rightarrow> (mig_error + unit) \<times> 'd mig_db" where
  "apply_with one env ns ms d =
     (if ns = [] then (Inl MigNamespace, d)
      else case validateOrder 0 ms of
             Some e \<Rightarrow> (Inl e, d)
           | None \<Rightarrow>
               (let ap = appliedMigrations ns d in
                case apply_loop one env ap (highest ap) 0 ms d of
                  (Inl e, d1) \<Rightarrow> (Inl e, d1)
                | (Inr seen, d1) \<Rightarrow> if seen \<noteq> length ap then (Inl MigRemoved, d1) else (Inr (), d1)))"

definition Apply :: "'d mig_env \<Rightarrow> string \<Rightarrow> migration list \<Rightarrow> 'd mig_db \<Rightarrow> (mig_error + unit) \<times> 'd mig_db" where
  "Apply env ns = apply_with (applyOne env ns) env ns"

definition applyPrefixed ::
  "'d mig_env \<Rightarrow> string \<Rightarrow> string \<Rightarrow> migration list \<Rightarrow> 'd mig_db \<Rightarrow> (mig_error + unit) \<times> 'd mig_db" where
  "applyPrefixed env ns prefix = apply_with (applyOnePrefixed env ns prefix) env ns"

definition plugin_Apply ::
  "'d mig_env \<Rightarrow> string \<Rightarrow> string \<Rightarrow> migration list \<Rightarrow> 'd mig_db \<Rightarrow> (mig_error + unit) \<times> 'd mig_db" where
  \<comment> \<open>\<^verbatim>\<open>pluginMigrator.Apply\<close>\<close>
  "plugin_Apply env pluginID namespace ms d =
     (let ns = (if namespace = [] then pluginID else namespace) in
      if ns \<noteq> pluginID then (Inl MigNamespace, d)
      else applyPrefixed env pluginID (prefix_of pluginID) ms d)"

section \<open>The contract of one migration\<close>

text \<open>
  What the loop relies on: a migration that succeeds appends its record under a fresh key and moves the data
  by its effect; one that fails leaves the database as it was.
\<close>

fun effects :: "(migration \<Rightarrow> 'd \<Rightarrow> 'd \<Rightarrow> bool) \<Rightarrow> migration list \<Rightarrow> 'd \<Rightarrow> 'd \<Rightarrow> bool" where
  "effects E [] x y \<longleftrightarrow> x = y"
| "effects E (m # ms) x y \<longleftrightarrow> (\<exists>z. E m x z \<and> effects E ms z y)"

definition keys_ok :: "'d mig_db \<Rightarrow> bool" where
  "keys_ok d \<longleftrightarrow> distinct (map mig_key (md_rows d))"

definition pending :: "mig_row list \<Rightarrow> migration list \<Rightarrow> migration list" where
  "pending ap ms = filter (\<lambda>m. applied_at (mg_version m) ap = None) ms"

definition same_as :: "'d mig_env \<Rightarrow> mig_row list \<Rightarrow> migration \<Rightarrow> bool" where
  "same_as env ap m \<longleftrightarrow> (\<exists>r. applied_at (mg_version m) ap = Some r \<and> mr_name r = mg_name m \<and> mr_checksum r = mig_checksum env m)"

lemma pending_Cons: "pending ap (m # ms) = (if applied_at (mg_version m) ap = None then m # pending ap ms else pending ap ms)"
  by (simp add: pending_def)

locale migration_step =
  fixes one :: "migration \<Rightarrow> 'd mig_db \<Rightarrow> (mig_error + unit) \<times> 'd mig_db"
    and env :: "'d mig_env" and ns :: string and E :: "migration \<Rightarrow> 'd \<Rightarrow> 'd \<Rightarrow> bool"
  assumes one_ok: "one m d = (Inr u, d') \<Longrightarrow> md_rows d' = md_rows d @ [mig_record env ns m] \<and>
      mig_key (mig_record env ns m) \<notin> mig_key ` set (md_rows d) \<and> E m (md_data d) (md_data d')"
    and one_err: "one m d = (Inl e, d') \<Longrightarrow> d' = d"
begin

lemma loop_prefix:
  assumes "apply_loop one env ap hi seen ms d = (r, d')"
  shows "\<exists>done rest. pending ap ms = done @ rest \<and> md_rows d' = md_rows d @ map (mig_record env ns) done \<and>
    effects E done (md_data d) (md_data d') \<and> (keys_ok d \<longrightarrow> keys_ok d') \<and>
    (\<forall>n. r = Inr n \<longrightarrow> rest = [] \<and> n + length (pending ap ms) = seen + length ms \<and>
       (\<forall>m \<in> set ms. m \<in> set (pending ap ms) \<or> same_as env ap m))"
  using assms
proof (induction ms arbitrary: seen d)
  case Nil
  then show ?case by (auto simp: pending_def)
next
  case (Cons m ms)
  show ?case
  proof (cases "applied_at (mg_version m) ap")
    case (Some prev)
    show ?thesis
    proof (cases "mr_name prev \<noteq> mg_name m \<or> mr_checksum prev \<noteq> mig_checksum env m")
      case True
      then show ?thesis
        using Cons.prems Some by - (rule exI[of _ "[]"], rule exI[of _ "pending ap (m # ms)"], auto simp: pending_def)
    next
      case False
      then have "apply_loop one env ap hi (Suc seen) ms d = (r, d')" using Cons.prems Some by simp
      from Cons.IH[OF this] show ?thesis using Some False by (auto simp: pending_def same_as_def)
    qed
  next
    case None
    then consider "r = Inl (MigInserted (mg_version m))" "d' = d"
      | e d1 where "one m d = (Inl e, d1)" "r = Inl e" "d' = d1"
      | u d1 where "one m d = (Inr u, d1)" "apply_loop one env ap hi seen ms d1 = (r, d')"
      using Cons.prems by (auto split: if_splits prod.splits sum.splits)
    then show ?thesis
    proof cases
      case 1
      then show ?thesis using None by - (rule exI[of _ "[]"], rule exI[of _ "pending ap (m # ms)"], auto simp: pending_def)
    next
      case 2
      then show ?thesis using None one_err[OF 2(1)] by - (rule exI[of _ "[]"], rule exI[of _ "pending ap (m # ms)"], auto simp: pending_def)
    next
      case 3
      obtain dn rest where ih: "pending ap ms = dn @ rest" "md_rows d' = md_rows d1 @ map (mig_record env ns) dn"
          "effects E dn (md_data d1) (md_data d')" "keys_ok d1 \<longrightarrow> keys_ok d'"
          "\<forall>n. r = Inr n \<longrightarrow> rest = [] \<and> n + length (pending ap ms) = seen + length ms \<and>
             (\<forall>m \<in> set ms. m \<in> set (pending ap ms) \<or> same_as env ap m)"
        using Cons.IH[OF 3(2)] by blast
      note o = one_ok[OF 3(1)]
      have k: "keys_ok d \<longrightarrow> keys_ok d1" using o by (auto simp: keys_ok_def)
      show ?thesis
        using None ih o k
        by - (rule exI[of _ "m # dn"], intro exI[of _ rest], auto simp: pending_Cons, blast+)
    qed
  qed
qed

end

definition script_effect :: "'d mig_env \<Rightarrow> migration \<Rightarrow> 'd \<Rightarrow> 'd \<Rightarrow> bool" where
  "script_effect env m x y \<longleftrightarrow> me_exec env (mg_up m) x = Inr y"

definition prefixed_effect :: "'d mig_env \<Rightarrow> string \<Rightarrow> migration \<Rightarrow> 'd \<Rightarrow> 'd \<Rightarrow> bool" where
  "prefixed_effect env prefix m x y \<longleftrightarrow> me_exec env (mg_up m) x = Inr y \<and>
     plug.confined prefix (me_asks env (mg_up m) x) \<and>
     set (schemaOutside env prefix y) \<subseteq> set (schemaOutside env prefix x)"

lemma record_done_Inr:
  "record_done env ns m x d = (Inr u, d') \<longleftrightarrow>
     d' = d\<lparr>md_rows := md_rows d @ [mig_record env ns m], md_data := x\<rparr> \<and> mig_key (mig_record env ns m) \<notin> mig_key ` set (md_rows d)"
  by (auto simp: record_done_def sql_insert_def)

interpretation core_mig: migration_step "applyOne env ns" env ns "script_effect env" for env ns
proof
  show "md_rows d' = md_rows d @ [mig_record env ns m] \<and> mig_key (mig_record env ns m) \<notin> mig_key ` set (md_rows d) \<and>
      script_effect env m (md_data d) (md_data d')" if "applyOne env ns m d = (Inr u, d')" for m d u d'
    using that by (auto simp: applyOne_def run_tx_def script_effect_def record_done_Inr split: sum.splits prod.splits)
  show "d' = d" if "applyOne env ns m d = (Inl e, d')" for m d e d'
    using that by (auto simp: applyOne_def run_tx_def split: sum.splits prod.splits)
qed

interpretation plugin_mig: migration_step "applyOnePrefixed env ns prefix" env ns "prefixed_effect env prefix" for env ns prefix
proof
  show "md_rows d' = md_rows d @ [mig_record env ns m] \<and> mig_key (mig_record env ns m) \<notin> mig_key ` set (md_rows d) \<and>
      prefixed_effect env prefix m (md_data d) (md_data d')" if "applyOnePrefixed env ns prefix m d = (Inr u, d')" for m d u d'
    using that
    by (auto simp: applyOnePrefixed_def run_tx_def prefixed_effect_def record_done_Inr Let_def plug.allowed_confined
        split: sum.splits prod.splits if_splits)
  show "d' = d" if "applyOnePrefixed env ns prefix m d = (Inl e, d')" for m d e d'
    using that by (auto simp: applyOnePrefixed_def run_tx_def Let_def split: sum.splits prod.splits if_splits)
qed

section \<open>What a run leaves behind\<close>

lemma validateOrder_versions:
  "validateOrder prev ms = None \<Longrightarrow> distinct (map mg_version ms) \<and> (\<forall>m \<in> set ms. prev < mg_version m \<and> 0 < mg_version m)"
proof (induction ms arbitrary: prev)
  case (Cons m ms)
  have v: "prev < mg_version m" "0 < mg_version m" "validateOrder (mg_version m) ms = None"
    using Cons.prems by (auto split: if_splits)
  from Cons.IH[OF v(3)] v(1,2) show ?case by force
qed simp

lemma applied_at_None: "applied_at v ap = None \<longleftrightarrow> v \<notin> mr_version ` set ap"
  by (auto simp: applied_at_def sql_find_None)

lemma applied_at_Some: "applied_at v ap = Some r \<Longrightarrow> r \<in> set ap \<and> mr_version r = v"
  by (auto simp: applied_at_def dest: sql_find_Some)

lemma applied_distinct: "keys_ok d \<Longrightarrow> distinct (map mr_version (appliedMigrations ns d))"
  by (auto simp: keys_ok_def appliedMigrations_def distinct_map mig_key_def inj_on_def)

lemma applied_at_mem: "distinct (map mr_version ap) \<Longrightarrow> r \<in> set ap \<Longrightarrow> applied_at (mr_version r) ap = Some r"
  by (induction ap) (auto simp: applied_at_def)

text \<open>When as many declared versions were seen as are recorded, every recorded version is declared.\<close>

lemma all_declared:
  assumes "distinct (map mr_version ap)" "distinct (map mg_version ms)" "length (pending ap ms) + length ap = length ms"
  shows "mr_version ` set ap \<subseteq> mg_version ` set ms"
proof -
  define found where "found = filter (\<lambda>m. applied_at (mg_version m) ap \<noteq> None) ms"
  have "length found = length ap"
    using sum_length_filter_compl[of "\<lambda>m. applied_at (mg_version m) ap = None" ms] assms(3)
    by (simp add: found_def pending_def)
  moreover have sub: "mg_version ` set found \<subseteq> mr_version ` set ap"
    by (auto simp: found_def applied_at_None)
  moreover have "card (mg_version ` set found) = length found"
    using distinct_card[of "map mg_version found"] assms(2) by (simp add: found_def distinct_map_filter)
  moreover have "card (mr_version ` set ap) = length ap"
    using assms(1) by (metis distinct_card length_map set_map)
  ultimately have "mg_version ` set found = mr_version ` set ap" by (metis card_subset_eq finite_imageI List.finite_set)
  then show ?thesis by (auto simp: found_def)
qed

definition declared :: "'d mig_env \<Rightarrow> migration \<Rightarrow> int \<times> string \<times> string" where
  "declared env m = (mg_version m, mg_name m, mig_checksum env m)"

definition recorded :: "mig_row \<Rightarrow> int \<times> string \<times> string" where
  "recorded r = (mr_version r, mr_name r, mr_checksum r)"

text \<open>The whole run, for any runner of one migration that keeps the contract.\<close>

context migration_step
begin

lemma run_ok:
  assumes "keys_ok d" "apply_with one env ns ms d = (r, d')"
  shows "keys_ok d' \<and> (\<exists>done rest. pending (appliedMigrations ns d) ms = done @ rest \<and>
      md_rows d' = md_rows d @ map (mig_record env ns) done \<and> effects E done (md_data d) (md_data d') \<and>
      (r = Inr () \<longrightarrow> rest = [] \<and> recorded ` set (appliedMigrations ns d') = declared env ` set ms))"
proof -
  let ?ap = "appliedMigrations ns d"
  consider (early) e where "r = Inl e" "d' = d"
    | (loop) r1 where "validateOrder 0 ms = None" "apply_loop one env ?ap (highest ?ap) 0 ms d = (r1, d')"
        "r = Inr () \<longrightarrow> r1 = Inr (length ?ap)"
    using assms(2) by (auto simp: apply_with_def Let_def split: if_splits option.splits sum.splits prod.splits)
  then show ?thesis
  proof cases
    case early
    have "md_rows d' = md_rows d @ map (mig_record env ns) [] \<and> effects E [] (md_data d) (md_data d')" using early by simp
    then show ?thesis using early assms(1) by (metis append_Nil sum.distinct(1))
  next
    case loop
    obtain dn rest where l: "pending ?ap ms = dn @ rest" "md_rows d' = md_rows d @ map (mig_record env ns) dn"
        "effects E dn (md_data d) (md_data d')" "keys_ok d'"
        "\<forall>n. r1 = Inr n \<longrightarrow> rest = [] \<and> n + length (pending ?ap ms) = 0 + length ms \<and>
           (\<forall>m \<in> set ms. m \<in> set (pending ?ap ms) \<or> same_as env ?ap m)"
      using loop_prefix[OF loop(2)] assms(1) by blast
    have "rest = [] \<and> recorded ` set (appliedMigrations ns d') = declared env ` set ms" if "r = Inr ()"
    proof
      have s: "rest = []" "length (pending ?ap ms) + length ?ap = length ms"
          "\<forall>m \<in> set ms. m \<in> set (pending ?ap ms) \<or> same_as env ?ap m"
        using l(5) loop(3) that by auto
      show "rest = []" by (rule s(1))
      have ap': "appliedMigrations ns d' = ?ap @ map (mig_record env ns) (pending ?ap ms)"
        using l(1,2) s(1) by (simp add: appliedMigrations_def mig_record_def)
      have dm: "distinct (map mg_version ms)" using validateOrder_versions[OF loop(1)] by simp
      have da: "distinct (map mr_version ?ap)" by (rule applied_distinct[OF assms(1)])
      have "recorded x \<in> declared env ` set ms" if x: "x \<in> set ?ap" for x
      proof -
        obtain m where m: "m \<in> set ms" "mg_version m = mr_version x"
          using all_declared[OF da dm s(2)] x by (metis image_iff subset_iff)
        have "applied_at (mg_version m) ?ap = Some x" using applied_at_mem[OF da x] m(2) by simp
        then have "same_as env ?ap m" using s(3) m(1) by (auto simp: pending_def)
        then show ?thesis using m applied_at_mem[OF da x] by (auto simp: same_as_def recorded_def declared_def intro!: image_eqI[of _ _ m])
      qed
      moreover have "declared env m \<in> recorded ` set (appliedMigrations ns d')" if m: "m \<in> set ms" for m
      proof -
        from s(3) m consider "m \<in> set (pending ?ap ms)" | "same_as env ?ap m" by auto
        then show ?thesis
        proof cases
          case 1
          then show ?thesis unfolding ap' by (auto simp: recorded_def declared_def mig_record_def intro!: image_eqI[of _ _ "mig_record env ns m"])
        next
          case 2
          then obtain r where r: "applied_at (mg_version m) ?ap = Some r" "mr_name r = mg_name m" "mr_checksum r = mig_checksum env m"
            by (auto simp: same_as_def)
          then have "declared env m = recorded r" "r \<in> set ?ap"
            using applied_at_Some[OF r(1)] by (simp_all add: declared_def recorded_def)
          then show ?thesis unfolding ap' by simp
        qed
      qed
      moreover have "recorded (mig_record env ns m) = declared env m" for m by (simp add: recorded_def declared_def mig_record_def)
      ultimately show "recorded ` set (appliedMigrations ns d') = declared env ` set ms"
        unfolding ap' by (auto simp: pending_def)
    qed
    then show ?thesis using l by blast
  qed
qed

end

lemma loop_all_same:
  "\<forall>m \<in> set ms. same_as env ap m \<Longrightarrow> apply_loop one env ap hi seen ms d = (Inr (seen + length ms), d)"
  by (induction ms arbitrary: seen) (auto simp: same_as_def)

lemma recorded_same:
  assumes "distinct (map mr_version ap)" "recorded ` set ap = declared env ` set ms" "m \<in> set ms"
  shows "same_as env ap m"
proof -
  obtain r where r: "r \<in> set ap" "recorded r = declared env m" using assms(2,3) by (metis image_iff)
  then show ?thesis using applied_at_mem[OF assms(1) r(1)] by (auto simp: same_as_def recorded_def declared_def)
qed

lemma recorded_length:
  assumes "distinct (map mr_version ap)" "distinct (map mg_version ms)" "recorded ` set ap = declared env ` set ms"
  shows "length ap = length ms"
proof -
  have "mr_version ` set ap = fst ` (recorded ` set ap)" by (force simp: recorded_def image_image)
  also have "\<dots> = mg_version ` set ms" unfolding assms(3) by (force simp: declared_def image_image)
  finally show ?thesis using distinct_card[OF assms(1)] distinct_card[OF assms(2)] by simp
qed

section \<open>Properties\<close>

text \<open>
  C19. Applying the migrations of a namespace: at every outcome the database is that of a prefix of the
  pending migrations, each executed exactly once, in order, and recorded together with its effect; a
  failing migration and everything after it leave no trace and records of other namespaces are untouched.
  When the call succeeds, nothing is pending and the records of the namespace are exactly the declared
  versions with their names and checksums.
\<close>

theorem migrations_applied:
  assumes "keys_ok d" "Apply env ns ms d = (r, d')"
  shows "keys_ok d' \<and> (\<exists>done rest. pending (appliedMigrations ns d) ms = done @ rest \<and>
      md_rows d' = md_rows d @ map (mig_record env ns) done \<and>
      effects (script_effect env) done (md_data d) (md_data d') \<and>
      (r = Inr () \<longrightarrow> rest = [] \<and> recorded ` set (appliedMigrations ns d') = declared env ` set ms))"
  using core_mig.run_ok[OF assms(1) assms(2)[unfolded Apply_def]] .

definition w_mig_env :: "string list mig_env" where
  "w_mig_env = \<lparr>me_exec = (\<lambda>s t. if s = ''bad'' then Inl ''syntax error'' else Inr (t @ [s])),
     me_asks = (\<lambda>s t. [(SQLITE_CREATE_TABLE, s, [])]), me_schema = (\<lambda>t. t), me_sha = (\<lambda>s. s), me_now = (\<lambda>v. v)\<rparr>"

definition w_migs :: "migration list" where
  "w_migs = [\<lparr>mg_version = 1, mg_name = ''init'', mg_up = ''hello_items''\<rparr>, \<lparr>mg_version = 3, mg_name = ''more'', mg_up = ''hello_more''\<rparr>]"

definition w_mig_db :: "string list mig_db" where
  "w_mig_db = \<lparr>md_rows = [], md_data = [''core_jobs'']\<rparr>"

lemma w_mig_ok: "keys_ok w_mig_db"
  by (simp add: keys_ok_def w_mig_db_def)

theorem migrations_applied_witness:
  "\<exists>d'. Apply w_mig_env ''hello'' w_migs w_mig_db = (Inr (), d') \<and> md_data d' = [''core_jobs'', ''hello_items'', ''hello_more''] \<and>
    recorded ` set (appliedMigrations ''hello'' d') = declared w_mig_env ` set w_migs"
proof -
  have "fst (Apply w_mig_env ''hello'' w_migs w_mig_db) = Inr ()" and
    d: "md_data (snd (Apply w_mig_env ''hello'' w_migs w_mig_db)) = [''core_jobs'', ''hello_items'', ''hello_more'']" by code_simp+
  then have a: "Apply w_mig_env ''hello'' w_migs w_mig_db = (Inr (), snd (Apply w_mig_env ''hello'' w_migs w_mig_db))"
    by (metis prod.collapse)
  show ?thesis using migrations_applied[OF w_mig_ok a] a d by blast
qed

text \<open>
  Applying the same migrations again, at any later time, succeeds and changes nothing.
\<close>

theorem migrations_idempotent:
  assumes "keys_ok d" "Apply env ns ms d = (Inr (), d')" "me_sha env2 = me_sha env"
  shows "Apply env2 ns ms d' = (Inr (), d')"
proof -
  have r: "keys_ok d'" "recorded ` set (appliedMigrations ns d') = declared env ` set ms"
    using core_mig.run_ok[OF assms(1) assms(2)[unfolded Apply_def]] by blast+
  have e: "declared env2 = declared env" using assms(3) by (auto simp: declared_def mig_checksum_def fun_eq_iff)
  have v: "ns \<noteq> []" "validateOrder 0 ms = None"
    using assms(2) by (auto simp: Apply_def apply_with_def split: if_splits option.splits)
  have da: "distinct (map mr_version (appliedMigrations ns d'))" by (rule applied_distinct[OF r(1)])
  have "\<forall>m \<in> set ms. same_as env2 (appliedMigrations ns d') m"
    using recorded_same[OF da, of env2 ms] r(2) by (simp add: e)
  note l = loop_all_same[OF this, of "applyOne env2 ns" "highest (appliedMigrations ns d')" 0 d']
  have n: "length (appliedMigrations ns d') = length ms"
    using recorded_length[OF da _ r(2)] validateOrder_versions[OF v(2)] by blast
  show ?thesis using v l n by (simp add: Apply_def apply_with_def Let_def)
qed

theorem migrations_idempotent_witness:
  "\<exists>d'. Apply w_mig_env ''hello'' w_migs w_mig_db = (Inr (), d') \<and>
    Apply (w_mig_env\<lparr>me_now := (\<lambda>_. 9)\<rparr>) ''hello'' w_migs d' = (Inr (), d')"
proof -
  have "fst (Apply w_mig_env ''hello'' w_migs w_mig_db) = Inr ()" by code_simp
  then have a: "Apply w_mig_env ''hello'' w_migs w_mig_db = (Inr (), snd (Apply w_mig_env ''hello'' w_migs w_mig_db))"
    by (metis prod.collapse)
  show ?thesis using migrations_idempotent[OF w_mig_ok a, of "w_mig_env\<lparr>me_now := (\<lambda>_. 9)\<rparr>"] a by auto
qed

lemma effects_schema:
  "effects (prefixed_effect env prefix) ms x y \<Longrightarrow> set (schemaOutside env prefix y) \<subseteq> set (schemaOutside env prefix x)"
  by (induction ms arbitrary: x) (auto simp: prefixed_effect_def)

text \<open>
  The migrations of a plugin, whatever they contain and however they end, leave no object in the schema
  outside the plugin's prefix that was not there before (objects whose name looks like SQLite's own apart), and
  record only under the plugin's namespace.
\<close>

theorem plugin_migrations_confined:
  assumes "keys_ok d" "plugin_Apply env p namespace ms d = (r, d')" "n \<in> set (me_schema env (md_data d'))"
    "\<not> like_sqlite n" "\<not> has_prefix n (prefix_of p)"
  shows "n \<in> set (me_schema env (md_data d)) \<and> filter (\<lambda>r. mr_ns r \<noteq> p) (md_rows d') = filter (\<lambda>r. mr_ns r \<noteq> p) (md_rows d)"
proof (cases "d' = d")
  case True
  then show ?thesis using assms(3) by simp
next
  case False
  then have a: "apply_with (applyOnePrefixed env p (prefix_of p)) env p ms d = (r, d')"
    using assms(2) by (auto simp: plugin_Apply_def applyPrefixed_def Let_def split: if_splits)
  obtain dn where r: "md_rows d' = md_rows d @ map (mig_record env p) dn"
      "effects (prefixed_effect env (prefix_of p)) dn (md_data d) (md_data d')"
    using plugin_mig.run_ok[OF assms(1) a] by blast
  have "n \<in> set (schemaOutside env (prefix_of p) (md_data d))"
    using effects_schema[OF r(2)] assms(3-5) by (auto simp: schemaOutside_def)
  then show ?thesis using r(1) by (simp add: schemaOutside_def mig_record_def)
qed

theorem plugin_migrations_confined_witness:
  "\<exists>d'. plugin_Apply w_mig_env ''hello'' [] w_migs w_mig_db = (Inr (), d') \<and> ''core_jobs'' \<in> set (me_schema w_mig_env (md_data w_mig_db))"
proof -
  let ?a = "plugin_Apply w_mig_env ''hello'' [] w_migs w_mig_db"
  have "fst ?a = Inr ()" and d: "''core_jobs'' \<in> set (me_schema w_mig_env (md_data (snd ?a)))" "\<not> like_sqlite ''core_jobs''"
      "\<not> has_prefix ''core_jobs'' (prefix_of ''hello'')" by code_simp+
  then have a: "?a = (Inr (), snd ?a)" by (metis prod.collapse)
  show ?thesis using plugin_migrations_confined[OF w_mig_ok a d] a by blast
qed

text \<open>
  The exception matters: the underscore of the \<^verbatim>\<open>LIKE\<close> pattern is a wildcard, so that a name such as
  \<^verbatim>\<open>sqlitex\<close>, which is not one of SQLite's, escapes the comparison of the schemas.
\<close>

lemma like_sqlite_wildcard: "like_sqlite ''sqlitex_items'' \<and> \<not> has_prefix ''sqlitex_items'' ''sqlite_''"
  by code_simp

end
