(* ===== verification/Policy.thy ===== *)
theory Policy
  imports Events_Log
begin

text \<open>
  \<^verbatim>\<open>internal/core/policy\<close>: plugin enabled state, budgets and spend reservations
  (\<^verbatim>\<open>policy.go\<close>, \<^verbatim>\<open>store.go\<close>, \<^verbatim>\<open>queries.go\<close>, \<^verbatim>\<open>admin.go\<close>). The record \<open>policy_db\<close> extends
  the tables of the event log with the five tables of the module, so that a state change and its
  event are one transaction. \<open>pl_after\<close> lists the watcher notifications registered with
  \<^verbatim>\<open>AfterCommit\<close>; a rolled-back transaction drops them with its writes.

  Money is an integer; Go's additions wrap at 64 bits (\<^const>\<open>i64\<close>), SQLite's \<^verbatim>\<open>sum()\<close> and a
  stored sum out of range are errors. The clock and the random reservation id are arguments.
\<close>

section \<open>Data\<close>

datatype policy_error =
    ErrPluginDisabled | ErrUnknownPlugin | ErrBudgetExceeded | ErrUnknownReservation
  | ErrInvalidPluginID | ErrNegativeAmount | ErrBudgetBelowSpend | ErrAutomatedNeedsBudget
  | ErrInvalidExceed | ErrBadPeriod | ErrPolicySQL | ErrPolicyEvents events_error

definition IsDomainRejection :: "policy_error \<Rightarrow> bool" where
  "IsDomainRejection e \<longleftrightarrow> e = ErrBudgetExceeded"

definition denies :: "policy_error \<Rightarrow> bool" where
  \<comment> \<open>\<^verbatim>\<open>errors.Is(err, ErrPluginDisabled)\<close>, which also holds of an unknown plugin\<close>
  "denies e \<longleftrightarrow> e = ErrPluginDisabled \<or> e = ErrUnknownPlugin"

definition ExceedReject :: string where "ExceedReject = ''reject''"
definition ExceedDisable :: string where "ExceedDisable = ''disable''"

definition exceed_valid :: "string \<Rightarrow> bool" where
  "exceed_valid a \<longleftrightarrow> a = ExceedReject \<or> a = ExceedDisable"

record budget =
  bg_hourly :: int
  bg_daily :: int
  bg_monthly :: int
  bg_on_exceed :: string

datatype window = WindowHour | WindowDay | WindowMonth

definition window_name :: "window \<Rightarrow> string" where
  "window_name w = (case w of WindowHour \<Rightarrow> ''hour'' | WindowDay \<Rightarrow> ''day'' | WindowMonth \<Rightarrow> ''month'')"

definition AllWindows :: "window list" where
  "AllWindows = [WindowHour, WindowDay, WindowMonth]"

fun limitFor :: "budget \<Rightarrow> window \<Rightarrow> int" where
  "limitFor b WindowHour = bg_hourly b"
| "limitFor b WindowDay = bg_daily b"
| "limitFor b WindowMonth = bg_monthly b"

fun periodStart :: "window \<Rightarrow> time \<Rightarrow> time" where
  "periodStart WindowHour t = (case (date_of t, clock t) of ((y, m, d), (h, _, _)) \<Rightarrow> time_at y m d h 0 0 0)"
| "periodStart WindowDay t = (case date_of t of (y, m, d) \<Rightarrow> time_at y m d 0 0 0 0)"
| "periodStart WindowMonth t = (case date_of t of (y, m, d) \<Rightarrow> time_at y m 1 0 0 0 0)"

record state_row =
  ps_id :: string
  ps_enabled :: bool
  ps_automated :: bool
  ps_disabled_at :: "string option"
  ps_disabled_by :: string
  ps_disabled_reason :: string
  ps_failed_at :: "string option"

record budget_row =
  br_id :: string
  br_budget :: budget

record spend_row =
  sp_id :: string
  sp_window :: window
  sp_period :: string
  sp_committed :: int

record reservation_row =
  rs_id :: string
  rs_plugin :: string
  rs_maximum :: int
  rs_admitted :: string
  rs_start :: "window \<Rightarrow> string" \<comment> \<open>the columns \<^verbatim>\<open>hour_start\<close>, \<^verbatim>\<open>day_start\<close>, \<^verbatim>\<open>month_start\<close>\<close>

record budget_event_row =
  be_id :: string
  be_window :: window
  be_period :: string
  be_event :: int

record policy_db = event_db +
  pl_state :: "state_row list"
  pl_budget :: "budget_row list"
  pl_spend :: "spend_row list"
  pl_reservations :: "reservation_row list"
  pl_budget_events :: "budget_event_row list"
  pl_after :: "(string \<times> bool) list"

definition empty_policy_db :: policy_db where
  "empty_policy_db = \<lparr>ev_rows = [], ev_seq = 0, ev_cursors = [], ev_oldest = 1, ev_last_run = None,
     pl_state = [], pl_budget = [], pl_spend = [], pl_reservations = [], pl_budget_events = [],
     pl_after = []\<rparr>"

section \<open>Queries\<close>

definition is_plugin :: "string \<Rightarrow> state_row \<Rightarrow> bool" where
  "is_plugin p r \<longleftrightarrow> ps_id r = p"

definition no_budget :: budget where
  "no_budget = \<lparr>bg_hourly = 0, bg_daily = 0, bg_monthly = 0, bg_on_exceed = ExceedReject\<rparr>"

definition budget_of :: "string \<Rightarrow> 'a policy_db_scheme \<Rightarrow> budget" where
  \<comment> \<open>the \<^verbatim>\<open>LEFT JOIN\<close> with its \<^verbatim>\<open>coalesce\<close>d columns\<close>
  "budget_of p d = (case sql_find (\<lambda>b. br_id b = p) (pl_budget d) of
      None \<Rightarrow> no_budget | Some b \<Rightarrow> br_budget b)"

definition readStateRow :: "string \<Rightarrow> 'a policy_db_scheme \<Rightarrow> policy_error + (state_row \<times> budget)" where
  "readStateRow p d = (case sql_find (is_plugin p) (pl_state d) of
      None \<Rightarrow> Inl ErrUnknownPlugin
    | Some r \<Rightarrow> Inr (r, budget_of p d))"

definition in_period :: "string \<Rightarrow> window \<Rightarrow> string \<Rightarrow> reservation_row \<Rightarrow> bool" where
  "in_period p w s r \<longleftrightarrow> rs_plugin r = p \<and> rs_start r w = s"

definition spend_key :: "string \<Rightarrow> window \<Rightarrow> string \<Rightarrow> spend_row \<Rightarrow> bool" where
  "spend_key p w s r \<longleftrightarrow> sp_id r = p \<and> sp_window r = w \<and> sp_period r = s"

definition committed_at :: "string \<Rightarrow> window \<Rightarrow> string \<Rightarrow> 'a policy_db_scheme \<Rightarrow> int" where
  "committed_at p w s d = (case sql_find (spend_key p w s) (pl_spend d) of
      None \<Rightarrow> 0 | Some r \<Rightarrow> sp_committed r)"

definition windowUsage ::
  "string \<Rightarrow> window \<Rightarrow> time \<Rightarrow> 'a policy_db_scheme \<Rightarrow> policy_error + (int \<times> int)" where
  "windowUsage p w start d =
     (case sql_sum (map rs_maximum (filter (in_period p w (rfc start)) (pl_reservations d))) of
        None \<Rightarrow> Inl ErrPolicySQL
      | Some res \<Rightarrow> Inr (res, committed_at p w (rfc start) d))"

definition takeReservation ::
  "string \<Rightarrow> 'a policy_db_scheme \<Rightarrow>
   (policy_error + (reservation_row \<times> (window \<Rightarrow> time))) \<times> 'a policy_db_scheme" where
  "takeReservation rid d =
     (case sql_find (\<lambda>r. rs_id r = rid) (pl_reservations d) of
        None \<Rightarrow> (Inl ErrUnknownReservation, d)
      | Some r \<Rightarrow>
          (case (parse_time (rs_start r WindowHour), parse_time (rs_start r WindowDay),
                 parse_time (rs_start r WindowMonth)) of
             (Some h, Some dd, Some m) \<Rightarrow>
               (Inr (r, \<lambda>w. case w of WindowHour \<Rightarrow> h | WindowDay \<Rightarrow> dd | WindowMonth \<Rightarrow> m),
                d\<lparr>pl_reservations := sql_delete (\<lambda>r. rs_id r = rid) (pl_reservations d)\<rparr>)
           | _ \<Rightarrow> (Inl ErrBadPeriod, d)))"

definition policy_event :: "string \<Rightarrow> string \<Rightarrow> (string \<times> json) list \<Rightarrow> input" where
  "policy_event ty p kvs = \<lparr>in_type = ty, in_source = ''core.policy'', in_subject = p,
     in_payload = Payload (JObj kvs)\<rparr>"

definition event_key :: "string \<Rightarrow> window \<Rightarrow> string \<Rightarrow> budget_event_row \<Rightarrow> bool" where
  "event_key p w s r \<longleftrightarrow> be_id r = p \<and> be_window r = w \<and> be_period r = s"

definition recordBudgetExceeded ::
  "time \<Rightarrow> string \<Rightarrow> window \<Rightarrow> time \<Rightarrow> int \<Rightarrow> int \<Rightarrow> int \<Rightarrow> string \<Rightarrow> 'a policy_db_scheme \<Rightarrow>
   (policy_error + unit) \<times> 'a policy_db_scheme" where
  "recordBudgetExceeded now p w start limit reserved committed action d =
     (case sql_find (event_key p w (rfc start)) (pl_budget_events d) of
        Some _ \<Rightarrow> (Inr (), d)
      | None \<Rightarrow>
          (case PublishTx now (policy_event ''core.plugin.budget_exceeded'' p
                  [(''plugin'', JStr p), (''window'', JStr (window_name w)), (''limit'', JNum limit),
                   (''reserved'', JNum reserved), (''committed'', JNum committed),
                   (''action'', JStr action)]) d of
             (Inl e, d1) \<Rightarrow> (Inl (ErrPolicyEvents e), d1)
           | (Inr n, d1) \<Rightarrow>
               (Inr (), d1\<lparr>pl_budget_events := pl_budget_events d1 @
                 [\<lparr>be_id = p, be_window = w, be_period = rfc start, be_event = n\<rparr>]\<rparr>)))"

section \<open>Enabled state\<close>

definition disableTx ::
  "time \<Rightarrow> string \<Rightarrow> string \<Rightarrow> string \<Rightarrow> 'a policy_db_scheme \<Rightarrow>
   (policy_error + unit) \<times> 'a policy_db_scheme" where
  "disableTx now p actor reason d =
     (case readStateRow p d of
        Inl e \<Rightarrow> (Inl e, d)
      | Inr (st, _) \<Rightarrow>
          if \<not> ps_enabled st then (Inr (), d)
          else
            (case PublishTx now (policy_event ''core.plugin.disabled'' p
                    [(''plugin'', JStr p), (''actor'', JStr actor), (''reason'', JStr reason)])
                    (d\<lparr>pl_state := sql_update (is_plugin p)
                        (\<lambda>r. r\<lparr>ps_enabled := False, ps_disabled_at := Some (rfc now),
                               ps_disabled_by := actor, ps_disabled_reason := reason\<rparr>) (pl_state d)\<rparr>) of
               (Inl e, d1) \<Rightarrow> (Inl (ErrPolicyEvents e), d1)
             | (Inr _, d1) \<Rightarrow> (Inr (), d1\<lparr>pl_after := pl_after d1 @ [(p, False)]\<rparr>)))"

definition Disable ::
  "time \<Rightarrow> string \<Rightarrow> string \<Rightarrow> string \<Rightarrow> 'a policy_db_scheme \<Rightarrow>
   (policy_error + unit) \<times> 'a policy_db_scheme" where
  "Disable now p actor reason = run_tx (disableTx now p actor reason)"

definition Enable ::
  "time \<Rightarrow> string \<Rightarrow> string \<Rightarrow> string \<Rightarrow> 'a policy_db_scheme \<Rightarrow>
   (policy_error + unit) \<times> 'a policy_db_scheme" where
  "Enable now p actor reason = run_tx (\<lambda>d.
     case readStateRow p d of
       Inl e \<Rightarrow> (Inl e, d)
     | Inr (st, b) \<Rightarrow>
         if ps_enabled st then (Inr (), d)
         else if ps_automated st \<and> bg_daily b = 0 then (Inl ErrAutomatedNeedsBudget, d)
         else
           (case PublishTx now (policy_event ''core.plugin.enabled'' p
                   [(''plugin'', JStr p), (''actor'', JStr actor), (''reason'', JStr reason)])
                   (d\<lparr>pl_state := sql_update (is_plugin p)
                       (\<lambda>r. r\<lparr>ps_enabled := True, ps_disabled_at := None, ps_disabled_by := [],
                              ps_disabled_reason := [], ps_failed_at := None\<rparr>) (pl_state d)\<rparr>) of
              (Inl e, d1) \<Rightarrow> (Inl (ErrPolicyEvents e), d1)
            | (Inr _, d1) \<Rightarrow> (Inr (), d1\<lparr>pl_after := pl_after d1 @ [(p, True)]\<rparr>)))"

definition validPluginID :: "string \<Rightarrow> bool" where
  "validPluginID s = (case s of [] \<Rightarrow> False
     | c # cs \<Rightarrow> length s \<le> 64 \<and> is_lower c \<and> list_all (\<lambda>c. is_lower c \<or> is_digit c \<or> c = CHR ''_'') cs)"

definition Register ::
  "time \<Rightarrow> string \<Rightarrow> bool \<Rightarrow> 'a policy_db_scheme \<Rightarrow> (policy_error + unit) \<times> 'a policy_db_scheme" where
  "Register now p automated d =
     (if \<not> validPluginID p then (Inl ErrInvalidPluginID, d)
      else run_tx (\<lambda>d.
        case readStateRow p d of
          Inl ErrUnknownPlugin \<Rightarrow>
            (case (sql_insert ps_id \<lparr>ps_id = p, ps_enabled = False, ps_automated = automated,
                     ps_disabled_at = Some (rfc now), ps_disabled_by = ''system'',
                     ps_disabled_reason = ''awaiting_configuration'', ps_failed_at = None\<rparr> (pl_state d),
                   sql_insert br_id \<lparr>br_id = p, br_budget = no_budget\<rparr> (pl_budget d)) of
               (Some s, Some b) \<Rightarrow> (Inr (), d\<lparr>pl_state := s, pl_budget := b\<rparr>)
             | _ \<Rightarrow> (Inl ErrPolicySQL, d))
        | Inl e \<Rightarrow> (Inl e, d)
        | Inr (st, b) \<Rightarrow>
            if ps_automated st = automated then (Inr (), d)
            else
              (let d1 = d\<lparr>pl_state := sql_update (is_plugin p) (\<lambda>r. r\<lparr>ps_automated := automated\<rparr>) (pl_state d)\<rparr>
               in if automated \<and> ps_enabled st \<and> bg_daily b = 0
                  then disableTx now p ''system'' ''automated_without_daily_budget'' d1
                  else (Inr (), d1))) d)"

section \<open>Admission\<close>

definition CheckWorkTx :: "string \<Rightarrow> 'a policy_db_scheme \<Rightarrow> policy_error + unit" where
  \<comment> \<open>\<^verbatim>\<open>CheckWork\<close> is the same read outside a transaction\<close>
  "CheckWorkTx p d = (case readStateRow p d of
      Inl e \<Rightarrow> Inl e
    | Inr (st, _) \<Rightarrow> if \<not> ps_enabled st then Inl ErrPluginDisabled else Inr ())"

fun reserve_loop ::
  "time \<Rightarrow> string \<Rightarrow> budget \<Rightarrow> int \<Rightarrow> window list \<Rightarrow> 'a policy_db_scheme \<Rightarrow>
   (policy_error + unit) \<times> 'a policy_db_scheme" where
  "reserve_loop now p b maximum [] d = (Inr (), d)"
| "reserve_loop now p b maximum (w # ws) d =
     (let limit = limitFor b w; start = periodStart w now in
      if limit = 0 then reserve_loop now p b maximum ws d
      else case windowUsage p w start d of
             Inl e \<Rightarrow> (Inl e, d)
           | Inr (reserved, committed) \<Rightarrow>
               if i64 (i64 (reserved + committed) + maximum) \<le> limit
               then reserve_loop now p b maximum ws d
               else case recordBudgetExceeded now p w start limit reserved committed (bg_on_exceed b) d of
                      (Inl e, d1) \<Rightarrow> (Inl e, d1)
                    | (Inr _, d1) \<Rightarrow>
                        if bg_on_exceed b = ExceedDisable then
                          (case disableTx now p ''system'' ''budget_exceeded'' d1 of
                             (Inl e, d2) \<Rightarrow> (Inl e, d2)
                           | (Inr _, d2) \<Rightarrow> (Inl ErrBudgetExceeded, d2))
                        else (Inl ErrBudgetExceeded, d1))"

definition ReserveSpendTx ::
  "time \<Rightarrow> string \<Rightarrow> string \<Rightarrow> int \<Rightarrow> 'a policy_db_scheme \<Rightarrow>
   (policy_error + reservation_row) \<times> 'a policy_db_scheme" where
  \<comment> \<open>the second argument is the fresh id\<close>
  "ReserveSpendTx now rid p maximum d =
     (if maximum < 0 then (Inl ErrNegativeAmount, d)
      else case readStateRow p d of
             Inl e \<Rightarrow> (Inl e, d)
           | Inr (st, b) \<Rightarrow>
               if \<not> ps_enabled st then (Inl ErrPluginDisabled, d)
               else case reserve_loop now p b maximum AllWindows d of
                      (Inl e, d1) \<Rightarrow> (Inl e, d1)
                    | (Inr _, d1) \<Rightarrow>
                        (let r = \<lparr>rs_id = rid, rs_plugin = p, rs_maximum = maximum, rs_admitted = rfc now,
                                  rs_start = \<lambda>w. rfc (periodStart w now)\<rparr>
                         in case sql_insert rs_id r (pl_reservations d1) of
                              None \<Rightarrow> (Inl ErrPolicySQL, d1)
                            | Some t \<Rightarrow> (Inr r, d1\<lparr>pl_reservations := t\<rparr>)))"

section \<open>Settlement\<close>

definition add_spend ::
  "string \<Rightarrow> window \<Rightarrow> string \<Rightarrow> int \<Rightarrow> spend_row list \<Rightarrow> (policy_error + spend_row list)" where
  \<comment> \<open>\<^verbatim>\<open>INSERT ... ON CONFLICT DO UPDATE\<close>; a sum that is no 64-bit integer violates the column type\<close>
  "add_spend p w s actual t =
     (case sql_find (spend_key p w s) t of
        None \<Rightarrow> Inr (t @ [\<lparr>sp_id = p, sp_window = w, sp_period = s, sp_committed = actual\<rparr>])
      | Some r \<Rightarrow>
          if in_i64 (sp_committed r + actual)
          then Inr (sql_update (spend_key p w s) (\<lambda>r. r\<lparr>sp_committed := sp_committed r + actual\<rparr>) t)
          else Inl ErrPolicySQL)"

fun commit_loop ::
  "string \<Rightarrow> (window \<Rightarrow> time) \<Rightarrow> int \<Rightarrow> window list \<Rightarrow> 'a policy_db_scheme \<Rightarrow>
   (policy_error + unit) \<times> 'a policy_db_scheme" where
  "commit_loop p starts actual [] d = (Inr (), d)"
| "commit_loop p starts actual (w # ws) d =
     (case add_spend p w (rfc (starts w)) actual (pl_spend d) of
        Inl e \<Rightarrow> (Inl e, d)
      | Inr t \<Rightarrow> commit_loop p starts actual ws (d\<lparr>pl_spend := t\<rparr>))"

fun crossed_loop ::
  "time \<Rightarrow> string \<Rightarrow> (window \<Rightarrow> time) \<Rightarrow> budget \<Rightarrow> window list \<Rightarrow> 'a policy_db_scheme \<Rightarrow>
   (policy_error + unit) \<times> 'a policy_db_scheme" where
  "crossed_loop now p starts b [] d = (Inr (), d)"
| "crossed_loop now p starts b (w # ws) d =
     (let limit = limitFor b w in
      if limit = 0 then crossed_loop now p starts b ws d
      else case windowUsage p w (starts w) d of
             Inl e \<Rightarrow> (Inl e, d)
           | Inr (reserved, committed) \<Rightarrow>
               if i64 (reserved + committed) \<le> limit then crossed_loop now p starts b ws d
               else case recordBudgetExceeded now p w (starts w) limit reserved committed (bg_on_exceed b) d of
                      (Inl e, d1) \<Rightarrow> (Inl e, d1)
                    | (Inr _, d1) \<Rightarrow> crossed_loop now p starts b ws d1)"

definition overrun ::
  "time \<Rightarrow> reservation_row \<Rightarrow> (window \<Rightarrow> time) \<Rightarrow> int \<Rightarrow> 'a policy_db_scheme \<Rightarrow>
   (policy_error + unit) \<times> 'a policy_db_scheme" where
  \<comment> \<open>the part of \<^verbatim>\<open>SettleSpendTx\<close> for a cost above the reserved maximum\<close>
  "overrun now r starts actual d =
     (case PublishTx now (policy_event ''core.plugin.accounting_invariant_failed'' (rs_plugin r)
             [(''plugin'', JStr (rs_plugin r)), (''reservationId'', JStr (rs_id r)),
              (''reservedMaximum'', JNum (rs_maximum r)), (''actualCost'', JNum actual)])
             (d\<lparr>pl_state := sql_update (is_plugin (rs_plugin r))
                 (\<lambda>s. s\<lparr>ps_failed_at := Some (rfc now)\<rparr>) (pl_state d)\<rparr>) of
        (Inl e, d1) \<Rightarrow> (Inl (ErrPolicyEvents e), d1)
      | (Inr _, d1) \<Rightarrow>
          (case disableTx now (rs_plugin r) ''system'' ''accounting_invariant_failed'' d1 of
             (Inl e, d2) \<Rightarrow> (Inl e, d2)
           | (Inr _, d2) \<Rightarrow>
               (case readStateRow (rs_plugin r) d2 of
                  Inl e \<Rightarrow> (Inl e, d2)
                | Inr (_, b) \<Rightarrow> crossed_loop now (rs_plugin r) starts b AllWindows d2)))"

definition SettleSpendTx ::
  "time \<Rightarrow> string \<Rightarrow> int \<Rightarrow> 'a policy_db_scheme \<Rightarrow> (policy_error + unit) \<times> 'a policy_db_scheme" where
  "SettleSpendTx now rid actual d =
     (if actual < 0 then (Inl ErrNegativeAmount, d)
      else case takeReservation rid d of
             (Inl e, d1) \<Rightarrow> (Inl e, d1)
           | (Inr (r, starts), d1) \<Rightarrow>
               (case commit_loop (rs_plugin r) starts actual AllWindows d1 of
                  (Inl e, d2) \<Rightarrow> (Inl e, d2)
                | (Inr _, d2) \<Rightarrow>
                    if actual \<le> rs_maximum r then (Inr (), d2) else overrun now r starts actual d2))"

definition ReleaseSpendTx ::
  "string \<Rightarrow> 'a policy_db_scheme \<Rightarrow> (policy_error + unit) \<times> 'a policy_db_scheme" where
  "ReleaseSpendTx rid d = (case takeReservation rid d of
      (Inl e, d1) \<Rightarrow> (Inl e, d1) | (Inr _, d1) \<Rightarrow> (Inr (), d1))"

fun settle_orphans ::
  "time \<Rightarrow> (string \<times> int) list \<Rightarrow> 'a policy_db_scheme \<Rightarrow> (policy_error + unit) \<times> 'a policy_db_scheme" where
  "settle_orphans now [] d = (Inr (), d)"
| "settle_orphans now ((rid, m) # os) d =
     (case run_tx (SettleSpendTx now rid m) d of
        (Inl e, d1) \<Rightarrow> (Inl e, d1)
      | (Inr _, d1) \<Rightarrow> settle_orphans now os d1)"

definition SettleOrphanedReservations ::
  "time \<Rightarrow> 'a policy_db_scheme \<Rightarrow> (policy_error + nat) \<times> 'a policy_db_scheme" where
  "SettleOrphanedReservations now d =
     (let os = map (\<lambda>r. (rs_id r, rs_maximum r)) (sort_key rs_admitted (pl_reservations d))
      in case settle_orphans now os d of
           (Inl e, d1) \<Rightarrow> (Inl e, d1)
         | (Inr _, d1) \<Rightarrow> (Inr (length os), d1))"

section \<open>Budgets and reports\<close>

fun budget_check ::
  "time \<Rightarrow> string \<Rightarrow> budget \<Rightarrow> window list \<Rightarrow> 'a policy_db_scheme \<Rightarrow> policy_error + unit" where
  "budget_check now p b [] d = Inr ()"
| "budget_check now p b (w # ws) d =
     (if limitFor b w = 0 then budget_check now p b ws d
      else case windowUsage p w (periodStart w now) d of
             Inl e \<Rightarrow> Inl e
           | Inr (reserved, committed) \<Rightarrow>
               if limitFor b w < i64 (reserved + committed) then Inl ErrBudgetBelowSpend
               else budget_check now p b ws d)"

definition SetBudget ::
  "time \<Rightarrow> string \<Rightarrow> budget \<Rightarrow> 'a policy_db_scheme \<Rightarrow> (policy_error + unit) \<times> 'a policy_db_scheme" where
  "SetBudget now p b0 d0 =
     (if bg_hourly b0 < 0 \<or> bg_daily b0 < 0 \<or> bg_monthly b0 < 0 then (Inl ErrNegativeAmount, d0)
      else let b = (if bg_on_exceed b0 = [] then b0\<lparr>bg_on_exceed := ExceedReject\<rparr> else b0) in
      if \<not> exceed_valid (bg_on_exceed b) then (Inl ErrInvalidExceed, d0)
      else run_tx (\<lambda>d.
        case readStateRow p d of
          Inl e \<Rightarrow> (Inl e, d)
        | Inr (st, _) \<Rightarrow>
            if ps_enabled st \<and> ps_automated st \<and> bg_daily b = 0 then (Inl ErrAutomatedNeedsBudget, d)
            else case budget_check now p b AllWindows d of
                   Inl e \<Rightarrow> (Inl e, d)
                 | Inr _ \<Rightarrow>
                     (Inr (), d\<lparr>pl_budget :=
                       (case sql_find (\<lambda>r. br_id r = p) (pl_budget d) of
                          None \<Rightarrow> pl_budget d @ [\<lparr>br_id = p, br_budget = b\<rparr>]
                        | Some _ \<Rightarrow> sql_update (\<lambda>r. br_id r = p) (\<lambda>r. r\<lparr>br_budget := b\<rparr>) (pl_budget d))\<rparr>)) d0)"

record policy_state =
  vs_id :: string
  vs_enabled :: bool
  vs_automated :: bool
  vs_disabled_at :: "time option"
  vs_disabled_by :: string
  vs_disabled_reason :: string
  vs_budget :: budget
  vs_usage :: "window \<Rightarrow> int \<times> int" \<comment> \<open>the six counters\<close>
  vs_failed :: "time option"

definition parse_opt :: "string option \<Rightarrow> time option" where
  "parse_opt s = (case s of None \<Rightarrow> None | Some s \<Rightarrow> parse_time s)"

definition hydrate ::
  "time \<Rightarrow> state_row \<times> budget \<Rightarrow> 'a policy_db_scheme \<Rightarrow> policy_error + policy_state" where
  "hydrate now rb d = (case rb of (r, b) \<Rightarrow>
     let u = (\<lambda>w. windowUsage (ps_id r) w (periodStart w now) d)
     in case (u WindowHour, u WindowDay, u WindowMonth) of
          (Inr h, Inr dy, Inr m) \<Rightarrow>
            Inr \<lparr>vs_id = ps_id r, vs_enabled = ps_enabled r, vs_automated = ps_automated r,
                 vs_disabled_at = parse_opt (ps_disabled_at r), vs_disabled_by = ps_disabled_by r,
                 vs_disabled_reason = ps_disabled_reason r, vs_budget = b,
                 vs_usage = (\<lambda>w. case w of WindowHour \<Rightarrow> h | WindowDay \<Rightarrow> dy | WindowMonth \<Rightarrow> m),
                 vs_failed = parse_opt (ps_failed_at r)\<rparr>
        | (Inl e, _, _) \<Rightarrow> Inl e | (_, Inl e, _) \<Rightarrow> Inl e | (_, _, Inl e) \<Rightarrow> Inl e)"

definition policy_State :: "time \<Rightarrow> string \<Rightarrow> 'a policy_db_scheme \<Rightarrow> policy_error + policy_state" where
  "policy_State now p d = (case readStateRow p d of Inl e \<Rightarrow> Inl e | Inr rb \<Rightarrow> hydrate now rb d)"

fun hydrate_all ::
  "time \<Rightarrow> state_row list \<Rightarrow> 'a policy_db_scheme \<Rightarrow> policy_error + policy_state list" where
  "hydrate_all now [] d = Inr []"
| "hydrate_all now (r # rs) d =
     (case hydrate now (r, budget_of (ps_id r) d) d of
        Inl e \<Rightarrow> Inl e
      | Inr v \<Rightarrow> (case hydrate_all now rs d of Inl e \<Rightarrow> Inl e | Inr vs \<Rightarrow> Inr (v # vs)))"

definition policy_List :: "time \<Rightarrow> 'a policy_db_scheme \<Rightarrow> policy_error + policy_state list" where
  "policy_List now d = hydrate_all now (sort_key ps_id (pl_state d)) d"

end
