(* ===== verification/Policy_Laws.thy ===== *)
theory Policy_Laws
  imports Policy
begin

text \<open>
  The laws of \<^verbatim>\<open>internal/core/policy\<close>: what each operation does to the spend accounts and
  to the enabled state, the invariants every operation keeps, and the admission guarantees that follow.
  \<open>usage_at\<close> is the quantity the budget bounds: outstanding reservations plus committed spend of one
  plugin, window and period.
\<close>

section \<open>Frames\<close>

lemma PublishTx_policy [simp]:
  "pl_state (snd (PublishTx now i d)) = pl_state d"
  "pl_budget (snd (PublishTx now i d)) = pl_budget d"
  "pl_spend (snd (PublishTx now i d)) = pl_spend d"
  "pl_reservations (snd (PublishTx now i d)) = pl_reservations d"
  "pl_budget_events (snd (PublishTx now i d)) = pl_budget_events d"
  "pl_after (snd (PublishTx now i d)) = pl_after d"
  "policy_db.more (snd (PublishTx now i d)) = policy_db.more d"
  by (simp_all add: PublishTx_def Let_def split: sum.splits)

definition accounts :: "'a policy_db_scheme \<Rightarrow> spend_row list \<times> reservation_row list \<times> budget_row list" where
  "accounts d = (pl_spend d, pl_reservations d, pl_budget d)"

lemma recordBudgetExceeded_frame [simp]:
  "accounts (snd (recordBudgetExceeded now p w start l r c a d)) = accounts d"
  "pl_state (snd (recordBudgetExceeded now p w start l r c a d)) = pl_state d"
  "pl_after (snd (recordBudgetExceeded now p w start l r c a d)) = pl_after d"
proof -
  obtain x d1 where x: "PublishTx now (policy_event ''core.plugin.budget_exceeded'' p
        [(''plugin'', JStr p), (''window'', JStr (window_name w)), (''limit'', JNum l),
         (''reserved'', JNum r), (''committed'', JNum c), (''action'', JStr a)]) d = (x, d1)"
    by fastforce
  have f: "pl_spend d1 = pl_spend d" "pl_reservations d1 = pl_reservations d"
      "pl_budget d1 = pl_budget d" "pl_state d1 = pl_state d" "pl_after d1 = pl_after d"
    using PublishTx_policy[of now "policy_event ''core.plugin.budget_exceeded'' p
        [(''plugin'', JStr p), (''window'', JStr (window_name w)), (''limit'', JNum l),
         (''reserved'', JNum r), (''committed'', JNum c), (''action'', JStr a)]" d] by (simp_all add: x)
  show "accounts (snd (recordBudgetExceeded now p w start l r c a d)) = accounts d"
    "pl_state (snd (recordBudgetExceeded now p w start l r c a d)) = pl_state d"
    "pl_after (snd (recordBudgetExceeded now p w start l r c a d)) = pl_after d"
    by (simp_all add: recordBudgetExceeded_def accounts_def x f split: option.splits sum.splits)
qed

text \<open>Publishing inside another write, in the form the operations use it.\<close>

lemma publish_case:
  "(case PublishTx now i d of (Inl e, d1) \<Rightarrow> (Inl (g e), d1) | (Inr n, d1) \<Rightarrow> (Inr x, k n d1)) =
   (case fst (PublishTx now i d) of Inl e \<Rightarrow> (Inl (g e), snd (PublishTx now i d))
    | Inr n \<Rightarrow> (Inr x, k n (snd (PublishTx now i d))))"
  by (cases "PublishTx now i d") (simp split: sum.splits)

definition switch_off :: "time \<Rightarrow> string \<Rightarrow> string \<Rightarrow> state_row \<Rightarrow> state_row" where
  "switch_off now actor reason r = r\<lparr>ps_enabled := False, ps_disabled_at := Some (rfc now),
     ps_disabled_by := actor, ps_disabled_reason := reason\<rparr>"

lemma disableTx_state:
  assumes "disableTx now p actor reason d = (r, d')"
  shows "accounts d' = accounts d \<and> pl_budget_events d' = pl_budget_events d \<and>
    ((r \<noteq> Inr () \<and> readStateRow p d = Inl ErrUnknownPlugin \<and> d' = d) \<or>
     (\<exists>st b. readStateRow p d = Inr (st, b) \<and> \<not> ps_enabled st \<and> r = Inr () \<and> d' = d) \<or>
     (\<exists>st b. readStateRow p d = Inr (st, b) \<and> ps_enabled st \<and>
        pl_state d' = sql_update (is_plugin p) (switch_off now actor reason) (pl_state d) \<and>
        (r = Inr () \<longrightarrow> pl_after d' = pl_after d @ [(p, False)])))"
proof (cases "readStateRow p d")
  case (Inl e)
  then have "e = ErrUnknownPlugin" by (auto simp: readStateRow_def split: option.splits)
  with Inl assms show ?thesis by (auto simp: disableTx_def)
next
  case (Inr sb)
  obtain st b where sb: "sb = (st, b)" by (cases sb)
  have so: "(\<lambda>r. r\<lparr>ps_enabled := False, ps_disabled_at := Some (rfc now),
      ps_disabled_by := actor, ps_disabled_reason := reason\<rparr>) = switch_off now actor reason"
    by (simp add: switch_off_def fun_eq_iff)
  show ?thesis
  proof (cases "ps_enabled st")
    case False
    then show ?thesis using assms Inr sb by (auto simp: disableTx_def)
  next
    case True
    then show ?thesis using assms Inr sb
      by (auto simp: disableTx_def publish_case so accounts_def split: sum.splits)
  qed
qed

lemma disableTx_accounts [simp]: "accounts (snd (disableTx now p actor reason d)) = accounts d"
  using disableTx_state[of now p actor reason d "fst (disableTx now p actor reason d)"] by simp

lemma reserve_loop_accounts [simp]: "accounts (snd (reserve_loop now p b m ws d)) = accounts d"
proof (induction ws)
  case (Cons w ws)
  have rec: "accounts d1 = accounts d" if "recordBudgetExceeded now p w s l r c a d = (x, d1)" for s l r c a x d1
    using recordBudgetExceeded_frame(1)[of now p w s l r c a d] that by simp
  have dis: "accounts d2 = accounts d1" if "disableTx now p ac re d1 = (x, d2)" for ac re x d1 d2
    using disableTx_accounts[of now p ac re d1] that by simp
  show ?case
    using Cons by (auto simp: Let_def split: sum.splits prod.splits if_splits dest!: rec dis)
qed simp

lemma crossed_loop_accounts [simp]: "accounts (snd (crossed_loop now p starts b ws d)) = accounts d"
proof (induction ws arbitrary: d)
  case (Cons w ws)
  have "accounts d1 = accounts d" if "recordBudgetExceeded now p w s l r c a d = (x, d1)" for s l r c a x d1
    using recordBudgetExceeded_frame(1)[of now p w s l r c a d] that by simp
  then show ?case
    using Cons by (auto simp: Let_def split: sum.splits prod.splits if_splits)
qed simp

lemma overrun_accounts [simp]: "accounts (snd (overrun now r starts actual d)) = accounts d"
proof -
  let ?i = "policy_event ''core.plugin.accounting_invariant_failed'' (rs_plugin r)
             [(''plugin'', JStr (rs_plugin r)), (''reservationId'', JStr (rs_id r)),
              (''reservedMaximum'', JNum (rs_maximum r)), (''actualCost'', JNum actual)]"
  let ?d = "d\<lparr>pl_state := sql_update (is_plugin (rs_plugin r))
                 (\<lambda>s. s\<lparr>ps_failed_at := Some (rfc now)\<rparr>) (pl_state d)\<rparr>"
  obtain x d1 where x: "PublishTx now ?i ?d = (x, d1)" by fastforce
  have a1: "accounts d1 = accounts d"
    using PublishTx_policy[of now ?i ?d] by (simp add: x accounts_def)
  obtain y d2 where y: "disableTx now (rs_plugin r) ''system'' ''accounting_invariant_failed'' d1 = (y, d2)"
    by fastforce
  have a2: "accounts d2 = accounts d"
    using disableTx_accounts[of now "rs_plugin r" "''system''" "''accounting_invariant_failed''" d1] a1
    by (simp add: y)
  show ?thesis
    using a1 a2 by (simp add: overrun_def x y split: sum.splits prod.splits)
qed

section \<open>Accounts\<close>

definition reserved_at :: "string \<Rightarrow> window \<Rightarrow> string \<Rightarrow> 'a policy_db_scheme \<Rightarrow> int" where
  "reserved_at p w s d = sum_list (map rs_maximum (filter (in_period p w s) (pl_reservations d)))"

definition usage_at :: "string \<Rightarrow> window \<Rightarrow> string \<Rightarrow> 'a policy_db_scheme \<Rightarrow> int" where
  "usage_at p w s d = reserved_at p w s d + committed_at p w s d"

lemma accounts_usage:
  "accounts d' = accounts d \<Longrightarrow> reserved_at p w s d' = reserved_at p w s d \<and>
     committed_at p w s d' = committed_at p w s d \<and> usage_at p w s d' = usage_at p w s d \<and>
     budget_of p d' = budget_of p d"
  by (simp add: accounts_def reserved_at_def committed_at_def usage_at_def budget_of_def)

definition own_text :: "string \<Rightarrow> bool" where
  \<comment> \<open>a stored period: the text of a time that reads back as that time\<close>
  "own_text s \<longleftrightarrow> (case parse_time s of None \<Rightarrow> False | Some t \<Rightarrow> rfc t = s)"

definition policy_ok :: "'a policy_db_scheme \<Rightarrow> bool" where
  "policy_ok d \<longleftrightarrow> distinct (map ps_id (pl_state d)) \<and> distinct (map rs_id (pl_reservations d)) \<and>
     (\<forall>r \<in> set (pl_reservations d). 0 \<le> rs_maximum r \<and> (\<forall>w \<in> set AllWindows. own_text (rs_start r w))) \<and>
     (\<forall>r \<in> set (pl_spend d). 0 \<le> sp_committed r)"

lemma AllWindows_all [simp]: "w \<in> set AllWindows"
  by (cases w) (simp_all add: AllWindows_def)

lemma reserved_nonneg: "policy_ok d \<Longrightarrow> 0 \<le> reserved_at p w s d"
  by (auto simp: policy_ok_def reserved_at_def intro!: sum_list_nonneg)

lemma committed_nonneg: "policy_ok d \<Longrightarrow> 0 \<le> committed_at p w s d"
  by (auto simp: policy_ok_def committed_at_def split: option.splits dest: sql_find_Some)

lemma windowUsage_Inr:
  "windowUsage p w start d = Inr (a, b) \<Longrightarrow>
   a = reserved_at p w (rfc start) d \<and> b = committed_at p w (rfc start) d"
  by (auto simp: windowUsage_def reserved_at_def split: option.splits dest: sql_sum_Some)

lemma windowUsage_total:
  assumes "policy_ok d" "in_i64 (reserved_at p w (rfc start) d)"
  shows "windowUsage p w start d = Inr (reserved_at p w (rfc start) d, committed_at p w (rfc start) d)"
  using assms sql_sum_total[of "map rs_maximum (filter (in_period p w (rfc start)) (pl_reservations d))"]
  by (simp add: windowUsage_def reserved_at_def policy_ok_def)

section \<open>Admission\<close>

definition admits :: "time \<Rightarrow> string \<Rightarrow> budget \<Rightarrow> int \<Rightarrow> window \<Rightarrow> 'a policy_db_scheme \<Rightarrow> bool" where
  "admits now p b m w d \<longleftrightarrow> limitFor b w = 0 \<or>
     i64 (i64 (usage_at p w (rfc (periodStart w now)) d) + m) \<le> limitFor b w"

lemma reserve_loop_Inr:
  "reserve_loop now p b m ws d = (Inr u, d') \<Longrightarrow> d' = d \<and> (\<forall>w \<in> set ws. admits now p b m w d)"
proof (induction ws)
  case (Cons w ws)
  show ?case
  proof (cases "limitFor b w = 0")
    case True
    then show ?thesis using Cons by (simp add: admits_def)
  next
    case False
    obtain x where x: "windowUsage p w (periodStart w now) d = x" by simp
    with Cons.prems False obtain a c where ac: "x = Inr (a, c)" by (cases x) (auto simp: Let_def)
    then have u: "a + c = usage_at p w (rfc (periodStart w now)) d"
      using windowUsage_Inr[of p w "periodStart w now" d a c] x by (simp add: usage_at_def)
    have "i64 (i64 (a + c) + m) \<le> limitFor b w"
      using Cons.prems False x ac
      by (auto simp: Let_def split: if_splits sum.splits prod.splits)
    then show ?thesis using Cons False x ac u by (simp add: admits_def)
  qed
qed simp

lemma reserve_loop_admits:
  assumes "policy_ok d" "\<forall>w \<in> set ws. limitFor b w \<noteq> 0 \<longrightarrow> in_i64 (reserved_at p w (rfc (periodStart w now)) d)"
    "\<forall>w \<in> set ws. admits now p b m w d"
  shows "reserve_loop now p b m ws d = (Inr (), d)"
  using assms(2,3)
proof (induction ws)
  case (Cons w ws)
  then show ?case
    using windowUsage_total[OF assms(1), of p w "periodStart w now"]
    by (auto simp: Let_def admits_def usage_at_def)
qed simp

lemma ReserveSpendTx_Inr:
  assumes "ReserveSpendTx now rid p m d = (Inr r, d')"
  shows "0 \<le> m" "\<exists>st. readStateRow p d = Inr (st, budget_of p d) \<and> ps_enabled st"
    "r = \<lparr>rs_id = rid, rs_plugin = p, rs_maximum = m, rs_admitted = rfc now,
          rs_start = \<lambda>w. rfc (periodStart w now)\<rparr>"
    "rid \<notin> rs_id ` set (pl_reservations d)"
    "d' = d\<lparr>pl_reservations := pl_reservations d @ [r]\<rparr>"
    "\<forall>w. admits now p (budget_of p d) m w d"
proof -
  show m: "0 \<le> m" using assms by (auto simp: ReserveSpendTx_def split: if_splits)
  obtain st b where st: "readStateRow p d = Inr (st, b)"
    using assms m by (cases "readStateRow p d") (auto simp: ReserveSpendTx_def)
  then have b: "b = budget_of p d" by (auto simp: readStateRow_def split: option.splits)
  have en: "ps_enabled st" using assms m st by (auto simp: ReserveSpendTx_def split: if_splits)
  obtain x d1 where x: "reserve_loop now p b m AllWindows d = (x, d1)" by fastforce
  with assms m st en obtain u where u: "x = Inr u" by (cases x) (auto simp: ReserveSpendTx_def)
  note loop = reserve_loop_Inr[OF x[unfolded u]]
  show "\<exists>st. readStateRow p d = Inr (st, budget_of p d) \<and> ps_enabled st" using st b en by simp
  show "\<forall>w. admits now p (budget_of p d) m w d" using loop b by simp
  show "r = \<lparr>rs_id = rid, rs_plugin = p, rs_maximum = m, rs_admitted = rfc now,
          rs_start = \<lambda>w. rfc (periodStart w now)\<rparr>"
    "rid \<notin> rs_id ` set (pl_reservations d)" "d' = d\<lparr>pl_reservations := pl_reservations d @ [r]\<rparr>"
    using assms m st en x u loop
    by (auto simp: ReserveSpendTx_def Let_def sql_insert_def split: if_splits option.splits)
qed

lemma reserved_append:
  "reserved_at p w s (d\<lparr>pl_reservations := pl_reservations d @ [r]\<rparr>) =
   reserved_at p w s d + (if in_period p w s r then rs_maximum r else 0)"
  by (simp add: reserved_at_def)

lemma committed_reservations [simp]:
  "committed_at p w s (d\<lparr>pl_reservations := t\<rparr>) = committed_at p w s d"
  "budget_of p (d\<lparr>pl_reservations := t\<rparr>) = budget_of p d"
  by (simp_all add: committed_at_def budget_of_def)

lemma reserve_usage:
  assumes "ReserveSpendTx now rid p m d = (Inr r, d')"
  shows "usage_at q w s d' = usage_at q w s d + (if q = p \<and> s = rfc (periodStart w now) then m else 0)"
  using ReserveSpendTx_Inr(3,5)[OF assms] by (auto simp: usage_at_def reserved_append in_period_def)

section \<open>Settlement\<close>

lemma sum_delete:
  assumes "distinct (map k t)" "r \<in> set t"
  shows "sum_list (map f (filter P (sql_delete (\<lambda>x. k x = k r) t))) =
    sum_list (map f (filter P t)) - (if P r then f r else (0 :: int))"
  using assms
proof (induction t)
  case (Cons x t)
  show ?case
  proof (cases "k x = k r")
    case True
    then have "x = r" using Cons.prems by (metis distinct.simps(2) image_eqI image_set list.simps(9) set_ConsD)
    moreover have "\<forall>y \<in> set t. k y \<noteq> k r"
      using Cons.prems(1) True by (metis distinct.simps(2) image_eqI image_set list.simps(9))
    then have "sql_delete (\<lambda>x. k x = k r) t = t" by (simp add: sql_delete_def)
    ultimately show ?thesis by (simp add: sql_delete_def)
  next
    case False
    then have "r \<in> set t" using Cons.prems by auto
    with False Cons show ?thesis by (auto simp: sql_delete_def)
  qed
qed simp

lemma takeReservation_Inr:
  assumes "policy_ok d" "takeReservation rid d = (Inr (r, starts), d1)"
  shows "r \<in> set (pl_reservations d)" "rs_id r = rid" "\<forall>w. rfc (starts w) = rs_start r w"
    "d1 = d\<lparr>pl_reservations := sql_delete (\<lambda>x. rs_id x = rid) (pl_reservations d)\<rparr>"
proof -
  obtain r' where r': "sql_find (\<lambda>r. rs_id r = rid) (pl_reservations d) = Some r'"
    using assms(2) by (cases "sql_find (\<lambda>r. rs_id r = rid) (pl_reservations d)")
      (auto simp: takeReservation_def)
  note mem = sql_find_Some[OF r']
  then have own: "own_text (rs_start r' w)" for w using assms(1) by (simp add: policy_ok_def)
  have "\<exists>t. parse_time s = Some t \<and> rfc t = s" if "own_text s" for s
    using that by (auto simp: own_text_def split: option.splits)
  with own obtain h dd m where p: "parse_time (rs_start r' WindowHour) = Some h" "rfc h = rs_start r' WindowHour"
      "parse_time (rs_start r' WindowDay) = Some dd" "rfc dd = rs_start r' WindowDay"
      "parse_time (rs_start r' WindowMonth) = Some m" "rfc m = rs_start r' WindowMonth"
    by blast
  have t: "r = r'" "starts = (\<lambda>w. case w of WindowHour \<Rightarrow> h | WindowDay \<Rightarrow> dd | WindowMonth \<Rightarrow> m)"
    and d1: "d1 = d\<lparr>pl_reservations := sql_delete (\<lambda>x. rs_id x = rid) (pl_reservations d)\<rparr>"
    using assms(2) r' p by (auto simp: takeReservation_def)
  show "r \<in> set (pl_reservations d)" "rs_id r = rid" using mem t by auto
  show "d1 = d\<lparr>pl_reservations := sql_delete (\<lambda>x. rs_id x = rid) (pl_reservations d)\<rparr>" by (rule d1)
  show "\<forall>w. rfc (starts w) = rs_start r w" using t p by (simp split: window.splits)
qed

lemma take_reserved:
  assumes "policy_ok d" "takeReservation rid d = (Inr (r, starts), d1)"
  shows "reserved_at p w s d1 = reserved_at p w s d - (if in_period p w s r then rs_maximum r else 0)"
  using takeReservation_Inr[OF assms] assms(1)
    sum_delete[of rs_id "pl_reservations d" r rs_maximum "in_period p w s"]
  by (simp add: reserved_at_def policy_ok_def)

lemma spend_key_same: "spend_key p w s r \<Longrightarrow> spend_key p' w' s' r \<longleftrightarrow> p' = p \<and> w' = w \<and> s' = s"
  by (auto simp: spend_key_def)

lemma add_spend_committed:
  assumes "add_spend p w s a (pl_spend d) = Inr t"
  shows "committed_at p' w' s' (d\<lparr>pl_spend := t\<rparr>) =
    committed_at p' w' s' d + (if p' = p \<and> w' = w \<and> s' = s then a else 0)"
proof (cases "sql_find (spend_key p w s) (pl_spend d)")
  case None
  then have t: "t = pl_spend d @ [\<lparr>sp_id = p, sp_window = w, sp_period = s, sp_committed = a\<rparr>]"
    using assms by (simp add: add_spend_def)
  show ?thesis
    using None by (cases "sql_find (spend_key p' w' s') (pl_spend d)")
      (auto simp: t committed_at_def sql_find_append spend_key_def[of _ _ _ "\<lparr>sp_id = p, sp_window = w, sp_period = s, sp_committed = a\<rparr>"])
next
  case (Some r)
  let ?f = "\<lambda>r. r\<lparr>sp_committed := sp_committed r + a\<rparr>"
  have t: "t = sql_update (spend_key p w s) ?f (pl_spend d)"
    using assms Some by (simp add: add_spend_def split: if_splits)
  have find: "sql_find (spend_key p' w' s') t =
      map_option (\<lambda>r. if spend_key p w s r then ?f r else r) (sql_find (spend_key p' w' s') (pl_spend d))"
    unfolding t by (rule sql_find_update_key) (simp add: spend_key_def)
  show ?thesis
    using Some sql_find_Some[of "spend_key p' w' s'" "pl_spend d"]
    by (cases "sql_find (spend_key p' w' s') (pl_spend d)")
      (auto simp: committed_at_def find spend_key_def)
qed

lemma add_spend_nonneg:
  "add_spend p w s a t = Inr t' \<Longrightarrow> 0 \<le> a \<Longrightarrow> \<forall>r \<in> set t. 0 \<le> sp_committed r \<Longrightarrow>
   \<forall>r \<in> set t'. 0 \<le> sp_committed r"
  by (auto simp: add_spend_def set_sql_update split: option.splits if_splits)

lemma commit_loop_Inr:
  assumes "commit_loop p starts a ws d = (Inr u, d')" "distinct ws"
  shows "(\<exists>t. d' = d\<lparr>pl_spend := t\<rparr>) \<and>
    (\<forall>q w s. committed_at q w s d' = committed_at q w s d +
      (if q = p \<and> w \<in> set ws \<and> s = rfc (starts w) then a else 0)) \<and>
    (0 \<le> a \<longrightarrow> (\<forall>r \<in> set (pl_spend d). 0 \<le> sp_committed r) \<longrightarrow> (\<forall>r \<in> set (pl_spend d'). 0 \<le> sp_committed r))"
  using assms
proof (induction ws arbitrary: d)
  case Nil
  then show ?case by (auto intro: exI[of _ "pl_spend d"])
next
  case (Cons w ws)
  obtain t where t: "add_spend p w (rfc (starts w)) a (pl_spend d) = Inr t"
    using Cons.prems by (cases "add_spend p w (rfc (starts w)) a (pl_spend d)") auto
  have IH: "(\<exists>t'. d' = d\<lparr>pl_spend := t'\<rparr>)"
      "\<forall>q w' s. committed_at q w' s d' = committed_at q w' s (d\<lparr>pl_spend := t\<rparr>) +
        (if q = p \<and> w' \<in> set ws \<and> s = rfc (starts w') then a else 0)"
      "0 \<le> a \<longrightarrow> (\<forall>r \<in> set t. 0 \<le> sp_committed r) \<longrightarrow> (\<forall>r \<in> set (pl_spend d'). 0 \<le> sp_committed r)"
    using Cons.IH[of "d\<lparr>pl_spend := t\<rparr>"] Cons.prems t by auto
  have "w \<notin> set ws" using Cons.prems by simp
  then have "committed_at q w' s d' = committed_at q w' s d +
      (if q = p \<and> w' \<in> set (w # ws) \<and> s = rfc (starts w') then a else 0)" for q w' s
    using IH(2) add_spend_committed[OF t, of q w' s] by (cases "w' = w") auto
  then show ?case using IH(1,3) add_spend_nonneg[OF t] by blast
qed

lemma SettleSpendTx_Inr:
  assumes "policy_ok d" "SettleSpendTx now rid a d = (Inr u, d')"
  obtains r where "r \<in> set (pl_reservations d)" "rs_id r = rid" "0 \<le> a"
    "pl_reservations d' = sql_delete (\<lambda>x. rs_id x = rid) (pl_reservations d)"
    "pl_budget d' = pl_budget d" "\<forall>r \<in> set (pl_spend d'). 0 \<le> sp_committed r"
    "\<forall>q w s. reserved_at q w s d' = reserved_at q w s d - (if in_period q w s r then rs_maximum r else 0)"
    "\<forall>q w s. committed_at q w s d' = committed_at q w s d + (if in_period q w s r then a else 0)"
    "a \<le> rs_maximum r \<longrightarrow> pl_state d' = pl_state d \<and> pl_after d' = pl_after d"
proof -
  have a: "0 \<le> a" using assms(2) by (auto simp: SettleSpendTx_def split: if_splits)
  obtain x d1 where x: "takeReservation rid d = (x, d1)" by fastforce
  with assms(2) a obtain r starts where rs: "x = Inr (r, starts)"
    by (cases x) (auto simp: SettleSpendTx_def)
  note take = takeReservation_Inr[OF assms(1) x[unfolded rs]]
  obtain y d2 where y: "commit_loop (rs_plugin r) starts a AllWindows d1 = (y, d2)" by fastforce
  with assms(2) a x rs obtain u2 where u2: "y = Inr u2" by (cases y) (auto simp: SettleSpendTx_def)
  have "distinct AllWindows" by (simp add: AllWindows_def)
  note com = commit_loop_Inr[OF y[unfolded u2] this]
  obtain t where t: "d2 = d1\<lparr>pl_spend := t\<rparr>" using com by blast
  have d': "d' = (if a \<le> rs_maximum r then d2 else snd (overrun now r starts a d2))"
    using assms(2) a x rs y u2 by (simp add: SettleSpendTx_def split: if_splits)
  then have acc: "accounts d' = accounts d2" by simp
  have same: "pl_reservations d' = pl_reservations d1" "pl_budget d' = pl_budget d" "pl_spend d' = pl_spend d2"
    using acc t take(4) by (auto simp: accounts_def)
  have res: "reserved_at q w s d' = reserved_at q w s d - (if in_period q w s r then rs_maximum r else 0)" for q w s
    using take_reserved[OF assms(1) x[unfolded rs], of q w s] same by (simp add: reserved_at_def)
  have cm: "committed_at q w s d' = committed_at q w s d + (if in_period q w s r then a else 0)" for q w s
    using com accounts_usage[OF acc, of q w s] take(3,4) by (auto simp: in_period_def)
  have "\<forall>r \<in> set (pl_spend d1). 0 \<le> sp_committed r" using assms(1) take(4) by (simp add: policy_ok_def)
  then have nn: "\<forall>r \<in> set (pl_spend d'). 0 \<le> sp_committed r" using com a same(3) by simp
  show thesis
    using that[OF take(1,2) a _ same(2) nn] res cm same(1) take(4) t d' by simp
qed

lemma ReleaseSpendTx_Inr:
  assumes "policy_ok d" "ReleaseSpendTx rid d = (Inr u, d')"
  obtains r where "r \<in> set (pl_reservations d)" "rs_id r = rid"
    "d' = d\<lparr>pl_reservations := sql_delete (\<lambda>x. rs_id x = rid) (pl_reservations d)\<rparr>"
    "\<forall>q w s. reserved_at q w s d' = reserved_at q w s d - (if in_period q w s r then rs_maximum r else 0)"
proof -
  obtain x d1 where x: "takeReservation rid d = (x, d1)" by fastforce
  with assms(2) obtain r starts where rs: "x = Inr (r, starts)" "d' = d1"
    by (cases x) (auto simp: ReleaseSpendTx_def)
  show thesis
    using that takeReservation_Inr[OF assms(1) x[unfolded rs]] take_reserved[OF assms(1) x[unfolded rs]] rs(2)
    by blast
qed

section \<open>Periods read back\<close>

lemma year_of_days:
  assumes "days_before_year y \<le> n" "n < days_before_year (z + 1)"
  shows "y \<le> fst (civil n)" "fst (civil n) \<le> z"
proof -
  obtain y' m' d' where c: "civil n = (y', m', d')" by (cases "civil n")
  note b = civil_correct[OF c]
  show "y \<le> fst (civil n)"
    using assms(1) b(7) days_before_year_mono[of "y' + 1" y] c by fastforce
  show "fst (civil n) \<le> z"
    using assms(2) b(6) days_before_year_mono[of "z + 1" y'] c by fastforce
qed

lemma date_of_time_at:
  assumes "0 \<le> h" "h \<le> 23"
  shows "date_of (time_at y m d h 0 0 0) = civil (days_of y m d)"
proof -
  have "(days_of y m d * 86400 + h * 3600) div 86400 = days_of y m d"
    using assms by (intro int_div_pos_eq[where r = "h * 3600"]) (simp_all add: mult.commute)
  then show ?thesis by (simp add: date_of_def time_at_def sec_of_def)
qed

lemma periodStart_year_ok:
  assumes "year_ok t"
  shows "year_ok (periodStart w t)"
proof -
  obtain y m d where ymd: "date_of t = (y, m, d)" by (cases "date_of t")
  obtain h mi sc where hms: "clock t = (h, mi, sc)" by (cases "clock t")
  have y: "0 \<le> y" "y \<le> 9999" using assms ymd by (simp_all add: year_ok_def)
  note c = civil_correct[OF ymd[unfolded date_of_def]] and cb = clock_bounds[OF hms]
  have "0 \<le> days_before_month y m"
    unfolding days_before_month_def
    by (intro sum_list_nonneg) (use mlens_pos in \<open>force dest: in_set_takeD\<close>)
  then have first: "days_before_year y \<le> days_of y m 1" "days_of y m 1 \<le> days_of y m d"
    using c(4) by (simp_all add: days_of_def)
  have "year_ok (time_at y m D H 0 0 0)" if "D = d \<or> D = 1" "0 \<le> H" "H \<le> 23" for D H
  proof -
    have "days_before_year y \<le> days_of y m D" "days_of y m D < days_before_year (y + 1)"
      using that(1) first c(1,6,7) by auto
    from year_of_days[OF this] show ?thesis
      using y date_of_time_at[OF that(2,3), of y m D] by (auto simp: year_ok_def)
  qed
  then show ?thesis using ymd hms cb by (cases w) simp_all
qed

lemma own_text_rfc: "year_ok t \<Longrightarrow> own_text (rfc t)"
  by (simp add: own_text_def parse_time_rfc)

section \<open>The well-formedness invariant\<close>

lemma policy_ok_accounts:
  "policy_ok d \<Longrightarrow> accounts d' = accounts d \<Longrightarrow> map ps_id (pl_state d') = map ps_id (pl_state d) \<Longrightarrow>
   policy_ok d'"
  by (simp add: policy_ok_def accounts_def)

lemma disableTx_ids [simp]: "map ps_id (pl_state (snd (disableTx now p actor reason d))) = map ps_id (pl_state d)"
proof (cases "disableTx now p actor reason d")
  case (Pair r d')
  then show ?thesis
    using disableTx_state[OF Pair] by (auto simp: map_key_sql_update switch_off_def)
qed

lemma reserve_loop_ids [simp]:
  "map ps_id (pl_state (snd (reserve_loop now p b m ws d))) = map ps_id (pl_state d)"
proof (induction ws)
  case (Cons w ws)
  have rec: "pl_state d1 = pl_state d" if "recordBudgetExceeded now p w s l r c a d = (x, d1)" for s l r c a x d1
    using recordBudgetExceeded_frame(2)[of now p w s l r c a d] that by simp
  have dis: "map ps_id (pl_state d2) = map ps_id (pl_state d1)" if "disableTx now p ac re d1 = (x, d2)" for ac re x d1 d2
    using disableTx_ids[of now p ac re d1] that by simp
  show ?case
    using Cons by (auto simp: Let_def split: sum.splits prod.splits if_splits dest!: rec dis)
qed simp

lemma crossed_loop_state [simp]: "pl_state (snd (crossed_loop now p starts b ws d)) = pl_state d"
proof (induction ws arbitrary: d)
  case (Cons w ws)
  have rec: "pl_state d1 = pl_state d" if "recordBudgetExceeded now p w s l r c a d = (x, d1)" for s l r c a x d1
    using recordBudgetExceeded_frame(2)[of now p w s l r c a d] that by simp
  show ?case
    using Cons by (auto simp: Let_def split: sum.splits prod.splits if_splits dest!: rec)
qed simp

text \<open>What a reservation attempt leaves behind when it is refused.\<close>

lemma ReserveSpendTx_Inl:
  assumes "ReserveSpendTx now rid p m d = (Inl e, d')"
  shows "accounts d' = accounts d \<and> map ps_id (pl_state d') = map ps_id (pl_state d)"
proof (cases "m < 0 \<or> (\<exists>e. readStateRow p d = Inl e)")
  case True
  then show ?thesis using assms by (auto simp: ReserveSpendTx_def split: if_splits)
next
  case False
  then obtain st b where st: "readStateRow p d = Inr (st, b)" "\<not> m < 0"
    by (cases "readStateRow p d") auto
  obtain x d1 where x: "reserve_loop now p b m AllWindows d = (x, d1)" by fastforce
  have "d' = d \<or> d' = d1"
    using assms st x by (auto simp: ReserveSpendTx_def Let_def split: if_splits sum.splits option.splits)
  then show ?thesis
    using reserve_loop_accounts[of now p b m AllWindows d] reserve_loop_ids[of now p b m AllWindows d] x by auto
qed

lemma ReserveSpendTx_ok:
  assumes "policy_ok d" "year_ok now" "ReserveSpendTx now rid p m d = (r, d')"
  shows "policy_ok d'"
proof (cases r)
  case (Inl e)
  then show ?thesis
    using ReserveSpendTx_Inl[of now rid p m d e d'] policy_ok_accounts[OF assms(1), of d'] assms(3) by auto
next
  case (Inr x)
  note R = ReserveSpendTx_Inr[OF assms(3)[unfolded Inr]]
  have "own_text (rfc (periodStart w now))" for w
    by (rule own_text_rfc[OF periodStart_year_ok[OF assms(2)]])
  then show ?thesis using assms(1) R by (auto simp: policy_ok_def)
qed

lemma overrun_ids: "map ps_id (pl_state (snd (overrun now r starts a d))) = map ps_id (pl_state d)"
proof -
  let ?i = "policy_event ''core.plugin.accounting_invariant_failed'' (rs_plugin r)
             [(''plugin'', JStr (rs_plugin r)), (''reservationId'', JStr (rs_id r)),
              (''reservedMaximum'', JNum (rs_maximum r)), (''actualCost'', JNum a)]"
  let ?d = "d\<lparr>pl_state := sql_update (is_plugin (rs_plugin r))
                 (\<lambda>s. s\<lparr>ps_failed_at := Some (rfc now)\<rparr>) (pl_state d)\<rparr>"
  obtain x d1 where x: "PublishTx now ?i ?d = (x, d1)" by fastforce
  have a1: "map ps_id (pl_state d1) = map ps_id (pl_state d)"
    using PublishTx_policy(1)[of now ?i ?d] by (simp add: x map_key_sql_update)
  obtain y d2 where y: "disableTx now (rs_plugin r) ''system'' ''accounting_invariant_failed'' d1 = (y, d2)"
    by fastforce
  have a2: "map ps_id (pl_state d2) = map ps_id (pl_state d)"
    using disableTx_ids[of now "rs_plugin r" "''system''" "''accounting_invariant_failed''" d1] a1
    by (simp add: y)
  show ?thesis using a1 a2 by (simp add: overrun_def x y split: sum.splits prod.splits)
qed

lemma commit_loop_state [simp]: "pl_state (snd (commit_loop p starts a ws d)) = pl_state d"
  by (induction ws arbitrary: d) (auto split: sum.splits)

lemma SettleSpendTx_ids: "map ps_id (pl_state (snd (SettleSpendTx now rid a d))) = map ps_id (pl_state d)"
proof -
  obtain x d1 where x: "takeReservation rid d = (x, d1)" by fastforce
  have s1: "pl_state d1 = pl_state d"
    using x by (auto simp: takeReservation_def split: option.splits)
  have com: "pl_state d2 = pl_state d" if "commit_loop p starts a ws d1 = (y, d2)" for p starts ws y d2
    using commit_loop_state[of p starts a ws d1] that s1 by simp
  show ?thesis
    using s1 by (auto simp: SettleSpendTx_def x overrun_ids split: sum.splits prod.splits dest!: com)
qed

lemma SettleSpendTx_ok:
  assumes "policy_ok d" "SettleSpendTx now rid a d = (Inr u, d')"
  shows "policy_ok d'"
proof (rule SettleSpendTx_Inr[OF assms])
  fix r
  assume "pl_reservations d' = sql_delete (\<lambda>x. rs_id x = rid) (pl_reservations d)"
    "\<forall>r \<in> set (pl_spend d'). 0 \<le> sp_committed r"
  then show "policy_ok d'"
    using assms SettleSpendTx_ids[of now rid a d] by (simp add: policy_ok_def distinct_sql_delete)
qed

lemma ReleaseSpendTx_ok:
  assumes "policy_ok d" "ReleaseSpendTx rid d = (Inr u, d')"
  shows "policy_ok d'"
proof (rule ReleaseSpendTx_Inr[OF assms])
  fix r
  assume "d' = d\<lparr>pl_reservations := sql_delete (\<lambda>x. rs_id x = rid) (pl_reservations d)\<rparr>"
  then show "policy_ok d'" using assms(1) by (simp add: policy_ok_def distinct_sql_delete)
qed

section \<open>The enabled state\<close>

definition switch_on :: "state_row \<Rightarrow> state_row" where
  "switch_on r = r\<lparr>ps_enabled := True, ps_disabled_at := None, ps_disabled_by := [],
     ps_disabled_reason := [], ps_failed_at := None\<rparr>"

lemma readStateRow_Inr:
  "readStateRow p d = Inr (st, b) \<Longrightarrow> st \<in> set (pl_state d) \<and> ps_id st = p \<and> b = budget_of p d"
  by (auto simp: readStateRow_def is_plugin_def split: option.splits dest: sql_find_Some)

lemma row_unique:
  assumes "policy_ok d" "readStateRow p d = Inr (st, b)" "x \<in> set (pl_state d)" "ps_id x = p"
  shows "x = st"
  using assms readStateRow_Inr[OF assms(2)] unfolding policy_ok_def by (metis distinct_map inj_onD)

lemma readStateRow_update:
  assumes "readStateRow p d = Inr (st, b)" "pl_state d' = sql_update (is_plugin p) f (pl_state d)"
    "\<And>r. ps_id (f r) = ps_id r"
  shows "readStateRow p d' = Inr (f st, budget_of p d')"
proof -
  have "sql_find (is_plugin p) (pl_state d') =
      map_option (\<lambda>r. if is_plugin p r then f r else r) (sql_find (is_plugin p) (pl_state d))"
    unfolding assms(2) by (rule sql_find_update_key) (simp add: is_plugin_def assms(3))
  then show ?thesis
    using assms(1) sql_find_Some[of "is_plugin p" "pl_state d"]
    by (auto simp: readStateRow_def split: option.splits)
qed

lemma Enable_cases:
  assumes "Enable now p actor reason d = (r, d')"
  obtains (same) "d' = d" "r = Inr () \<Longrightarrow> \<exists>st b. readStateRow p d = Inr (st, b) \<and> ps_enabled st"
  | (on) st b where "readStateRow p d = Inr (st, b)" "\<not> ps_enabled st"
      "\<not> (ps_automated st \<and> bg_daily b = 0)" "accounts d' = accounts d" "r = Inr ()"
      "pl_state d' = sql_update (is_plugin p) switch_on (pl_state d)"
      "pl_after d' = pl_after d @ [(p, True)]"
proof (cases "readStateRow p d")
  case (Inl e)
  then show thesis using assms same by (auto simp: Enable_def run_tx_def)
next
  case (Inr sb)
  obtain st b where sb: "sb = (st, b)" by (cases sb)
  have so: "(\<lambda>r. r\<lparr>ps_enabled := True, ps_disabled_at := None, ps_disabled_by := [],
      ps_disabled_reason := [], ps_failed_at := None\<rparr>) = switch_on"
    by (simp add: switch_on_def fun_eq_iff)
  show thesis
  proof (cases "ps_enabled st \<or> ps_automated st \<and> bg_daily b = 0")
    case True
    then have "d' = d" "r = Inr () \<longrightarrow> ps_enabled st"
      using assms Inr sb by (auto simp: Enable_def run_tx_def split: if_splits)
    then show thesis using same Inr sb by blast
  next
    case False
    let ?i = "policy_event ''core.plugin.enabled'' p
       [(''plugin'', JStr p), (''actor'', JStr actor), (''reason'', JStr reason)]"
    let ?d = "d\<lparr>pl_state := sql_update (is_plugin p) switch_on (pl_state d)\<rparr>"
    show thesis
    proof (cases "fst (PublishTx now ?i ?d)")
      case (Inl e)
      then have "d' = d" "r \<noteq> Inr ()"
        using assms Inr sb False by (auto simp: Enable_def run_tx_def publish_case so)
      then show thesis using same by blast
    next
      case pub: (Inr n)
      then have "r = Inr ()" "d' = snd (PublishTx now ?i ?d)\<lparr>pl_after := pl_after d @ [(p, True)]\<rparr>"
        using assms Inr sb False by (auto simp: Enable_def run_tx_def publish_case so)
      then show thesis using on[OF Inr[unfolded sb]] False by (simp add: accounts_def)
    qed
  qed
qed

lemma Disable_cases:
  assumes "Disable now p actor reason d = (r, d')"
  obtains (same) "d' = d" "r = Inr () \<Longrightarrow> \<exists>st b. readStateRow p d = Inr (st, b) \<and> \<not> ps_enabled st"
  | (off) st b where "readStateRow p d = Inr (st, b)" "ps_enabled st" "accounts d' = accounts d" "r = Inr ()"
      "pl_state d' = sql_update (is_plugin p) (switch_off now actor reason) (pl_state d)"
      "pl_after d' = pl_after d @ [(p, False)]"
proof -
  obtain x d1 where x: "disableTx now p actor reason d = (x, d1)" by fastforce
  have e: "r = x" "d' = (case x of Inl _ \<Rightarrow> d | Inr _ \<Rightarrow> d1)"
    using assms x by (auto simp: Disable_def run_tx_def split: sum.splits)
  show thesis
  proof (cases x)
    case (Inl e')
    then show thesis using same e by auto
  next
    case (Inr u)
    then have "r = Inr ()" "d' = d1" using e by simp_all
    then show thesis using disableTx_state[OF x] same off e(1) by auto
  qed
qed

definition norm_budget :: "budget \<Rightarrow> budget" where
  "norm_budget b = (if bg_on_exceed b = [] then b\<lparr>bg_on_exceed := ExceedReject\<rparr> else b)"

lemma norm_budget_limit [simp]: "limitFor (norm_budget b) w = limitFor b w" "bg_daily (norm_budget b) = bg_daily b"
  by (cases w) (simp_all add: norm_budget_def)

lemma budget_check_Inr:
  "budget_check now p b ws d = Inr u \<Longrightarrow> \<forall>w \<in> set ws. limitFor b w = 0 \<or>
     i64 (usage_at p w (rfc (periodStart w now)) d) \<le> limitFor b w"
proof (induction ws)
  case (Cons w ws)
  then show ?case
    using windowUsage_Inr[of p w "periodStart w now" d]
    by (fastforce simp: usage_at_def split: if_splits sum.splits prod.splits)
qed simp

lemma SetBudget_cases:
  assumes "SetBudget now p b d = (r, d')"
  obtains (same) "d' = d" "r \<noteq> Inr ()"
  | (set) st b0 where "readStateRow p d = Inr (st, b0)" "r = Inr ()"
      "\<not> (ps_enabled st \<and> ps_automated st \<and> bg_daily b = 0)"
      "\<forall>w. 0 \<le> limitFor b w \<and> (limitFor b w = 0 \<or> i64 (usage_at p w (rfc (periodStart w now)) d) \<le> limitFor b w)"
      "pl_state d' = pl_state d" "pl_spend d' = pl_spend d" "pl_reservations d' = pl_reservations d"
      "\<And>q. budget_of q d' = (if q = p then norm_budget b else budget_of q d)" "pl_after d' = pl_after d"
proof (cases "bg_hourly b < 0 \<or> bg_daily b < 0 \<or> bg_monthly b < 0 \<or>
    \<not> exceed_valid (bg_on_exceed (norm_budget b)) \<or> (\<exists>e. readStateRow p d = Inl e)")
  case True
  then show thesis using assms same
    by (auto simp: SetBudget_def norm_budget_def[symmetric] run_tx_def Let_def split: if_splits)
next
  case False
  then obtain st b0 where st: "readStateRow p d = Inr (st, b0)" by (cases "readStateRow p d") auto
  have nn: "0 \<le> limitFor b w" for w using False by (cases w) auto
  show thesis
  proof (cases "ps_enabled st \<and> ps_automated st \<and> bg_daily b = 0 \<or>
      (\<exists>e. budget_check now p (norm_budget b) AllWindows d = Inl e)")
    case True
    then obtain e where "(if ps_enabled st \<and> ps_automated st \<and> bg_daily b = 0 then Inl ErrAutomatedNeedsBudget
        else budget_check now p (norm_budget b) AllWindows d) = Inl e"
      by (cases "ps_enabled st \<and> ps_automated st \<and> bg_daily b = 0") auto
    then have "d' = d" "r = Inl e" using assms False st
      by (simp_all add: SetBudget_def norm_budget_def[symmetric] run_tx_def Let_def split: if_splits)
    then show thesis using same by simp
  next
    case ok: False
    then have chk: "budget_check now p (norm_budget b) AllWindows d = Inr ()"
      by (cases "budget_check now p (norm_budget b) AllWindows d") auto
    let ?t = "case sql_find (\<lambda>r. br_id r = p) (pl_budget d) of
                None \<Rightarrow> pl_budget d @ [\<lparr>br_id = p, br_budget = norm_budget b\<rparr>]
              | Some _ \<Rightarrow> sql_update (\<lambda>r. br_id r = p) (\<lambda>r. r\<lparr>br_budget := norm_budget b\<rparr>) (pl_budget d)"
    have d': "r = Inr ()" "d' = d\<lparr>pl_budget := ?t\<rparr>"
      using assms False st ok chk
      by (auto simp: SetBudget_def norm_budget_def[symmetric] run_tx_def Let_def)
    have find: "sql_find (\<lambda>r. br_id r = q) (sql_update (\<lambda>r. br_id r = p) (\<lambda>r. r\<lparr>br_budget := norm_budget b\<rparr>) t) =
        map_option (\<lambda>r. if br_id r = p then r\<lparr>br_budget := norm_budget b\<rparr> else r) (sql_find (\<lambda>r. br_id r = q) t)" for q t
      by (rule sql_find_update_key) simp
    have "budget_of q d' = (if q = p then norm_budget b else budget_of q d)" for q
    proof (cases "sql_find (\<lambda>r. br_id r = p) (pl_budget d)")
      case None
      then have "pl_budget d' = pl_budget d @ [\<lparr>br_id = p, br_budget = norm_budget b\<rparr>]" by (simp add: d'(2))
      then show ?thesis
        using None by (cases "sql_find (\<lambda>r. br_id r = q) (pl_budget d)") (auto simp: budget_of_def sql_find_append)
    next
      case (Some x)
      then have b': "pl_budget d' = sql_update (\<lambda>r. br_id r = p) (\<lambda>r. r\<lparr>br_budget := norm_budget b\<rparr>) (pl_budget d)"
        by (simp add: d'(2))
      show ?thesis
      proof (cases "sql_find (\<lambda>r. br_id r = q) (pl_budget d)")
        case None
        with Some show ?thesis unfolding budget_of_def b' find by (cases "q = p") simp_all
      next
        case (Some y)
        then have "br_id y = q" using sql_find_Some[OF Some] by simp
        with Some show ?thesis unfolding budget_of_def b' find by simp
      qed
    qed
    then show thesis
      using set[OF st d'(1)] ok nn budget_check_Inr[OF chk] d'(2) by simp
  qed
qed

lemma Register_cases:
  assumes "Register now p auto d = (r, d')"
  obtains (same) "d' = d"
  | (new) "readStateRow p d = Inl ErrUnknownPlugin" "p \<notin> ps_id ` set (pl_state d)"
      "\<exists>row. pl_state d' = pl_state d @ [row] \<and> ps_id row = p \<and> \<not> ps_enabled row"
      "pl_spend d' = pl_spend d" "pl_reservations d' = pl_reservations d" "pl_after d' = pl_after d"
      "\<And>q. budget_of q d' = budget_of q d"
  | (change) st b d1 where "readStateRow p d = Inr (st, b)" "accounts d1 = accounts d"
      "pl_state d1 = sql_update (is_plugin p) (\<lambda>r. r\<lparr>ps_automated := auto\<rparr>) (pl_state d)"
      "if auto \<and> ps_enabled st \<and> bg_daily b = 0
       then disableTx now p ''system'' ''automated_without_daily_budget'' d1 = (Inr (), d') else d' = d1"
proof (cases "validPluginID p")
  case False
  then show thesis using assms same by (simp add: Register_def)
next
  case valid: True
  show thesis
  proof (cases "readStateRow p d")
    case (Inl e)
    then have e: "e = ErrUnknownPlugin" "sql_find (is_plugin p) (pl_state d) = None"
      by (auto simp: readStateRow_def split: option.splits)
    then have fresh: "p \<notin> ps_id ` set (pl_state d)" by (auto simp: sql_find_None is_plugin_def)
    show thesis
    proof (cases "p \<in> br_id ` set (pl_budget d)")
      case True
      then show thesis using assms valid Inl e fresh same
        by (auto simp: Register_def run_tx_def sql_insert_def)
    next
      case False
      then have nb: "sql_find (\<lambda>b. br_id b = p) (pl_budget d) = None" by (auto simp: sql_find_None)
      have d': "d' = d\<lparr>pl_state := pl_state d @ [\<lparr>ps_id = p, ps_enabled = False, ps_automated = auto,
                     ps_disabled_at = Some (rfc now), ps_disabled_by = ''system'',
                     ps_disabled_reason = ''awaiting_configuration'', ps_failed_at = None\<rparr>],
                   pl_budget := pl_budget d @ [\<lparr>br_id = p, br_budget = no_budget\<rparr>]\<rparr>"
        using assms valid Inl e fresh False by (auto simp: Register_def run_tx_def sql_insert_def)
      have "budget_of q d' = budget_of q d" for q
        using nb by (cases "sql_find (\<lambda>b. br_id b = q) (pl_budget d)") (auto simp: d' budget_of_def sql_find_append)
      then show thesis using new[OF Inl[unfolded e(1)] fresh] d' by simp
    qed
  next
    case (Inr sb)
    obtain st b where sb: "sb = (st, b)" by (cases sb)
    let ?d1 = "d\<lparr>pl_state := sql_update (is_plugin p) (\<lambda>r. r\<lparr>ps_automated := auto\<rparr>) (pl_state d)\<rparr>"
    show thesis
    proof (cases "ps_automated st = auto")
      case True
      then show thesis using assms valid Inr sb same by (auto simp: Register_def run_tx_def)
    next
      case diff: False
      obtain x d2 where x: "disableTx now p ''system'' ''automated_without_daily_budget'' ?d1 = (x, d2)" by fastforce
      show thesis
        using assms valid Inr sb diff x change[OF Inr[unfolded sb], of ?d1] same
        by (cases x) (auto simp: Register_def run_tx_def Let_def accounts_def split: if_splits)
    qed
  qed
qed

section \<open>Sequences of operations\<close>

definition spend_tx :: "('d \<Rightarrow> (policy_error + 'a) \<times> 'd) \<Rightarrow> 'd \<Rightarrow> (policy_error + 'a) \<times> 'd" where
  \<comment> \<open>the transaction a caller of \<^verbatim>\<open>ReserveSpendTx\<close> runs, as the comment of
     \<^verbatim>\<open>IsDomainRejection\<close> prescribes: a rejection commits its events\<close>
  "spend_tx f d = (case f d of
      (Inl e, d') \<Rightarrow> (Inl e, if IsDomainRejection e then d' else d)
    | (Inr a, d') \<Rightarrow> (Inr a, d'))"

datatype pol_op =
    OpReserve time string string int
  | OpSettle time string int
  | OpRelease string
  | OpOrphans time
  | OpRegister time string bool
  | OpEnable time string string string
  | OpDisable time string string string
  | OpSetBudget time string budget

fun pol_exec :: "pol_op \<Rightarrow> 'a policy_db_scheme \<Rightarrow> 'a policy_db_scheme" where
  "pol_exec (OpReserve now rid p m) d = snd (spend_tx (ReserveSpendTx now rid p m) d)"
| "pol_exec (OpSettle now rid a) d = snd (run_tx (SettleSpendTx now rid a) d)"
| "pol_exec (OpRelease rid) d = snd (run_tx (ReleaseSpendTx rid) d)"
| "pol_exec (OpOrphans now) d = snd (SettleOrphanedReservations now d)"
| "pol_exec (OpRegister now p a) d = snd (Register now p a d)"
| "pol_exec (OpEnable now p actor reason) d = snd (Enable now p actor reason d)"
| "pol_exec (OpDisable now p actor reason) d = snd (Disable now p actor reason d)"
| "pol_exec (OpSetBudget now p b) d = snd (SetBudget now p b d)"

fun op_time_ok :: "pol_op \<Rightarrow> bool" where
  \<comment> \<open>the clock shows a four-digit year when a reservation is admitted\<close>
  "op_time_ok (OpReserve now _ _ _) = year_ok now"
| "op_time_ok _ = True"

definition capped :: "'a policy_db_scheme \<Rightarrow> bool" where
  "capped d \<longleftrightarrow> (\<forall>r \<in> set (pl_state d). ps_enabled r \<and> ps_automated r \<longrightarrow> bg_daily (budget_of (ps_id r) d) \<noteq> 0)"

lemma capped_update:
  assumes "capped d" "policy_ok d" "readStateRow p d = Inr (st, b)"
    "pl_state d' = sql_update (is_plugin p) f (pl_state d)" "pl_budget d' = pl_budget d"
    "\<And>r. ps_id (f r) = ps_id r" "ps_enabled (f st) \<and> ps_automated (f st) \<longrightarrow> bg_daily b \<noteq> 0"
  shows "capped d'"
proof -
  have bud: "budget_of q d' = budget_of q d" for q using assms(5) by (simp add: budget_of_def)
  show ?thesis
    unfolding capped_def
  proof (intro ballI impI)
    fix r assume r: "r \<in> set (pl_state d')" "ps_enabled r \<and> ps_automated r"
    then obtain x where x: "x \<in> set (pl_state d)" "r = (if is_plugin p x then f x else x)"
      using in_sql_update[of r "is_plugin p" f "pl_state d"] assms(4) by auto
    show "bg_daily (budget_of (ps_id r) d') \<noteq> 0"
    proof (cases "is_plugin p x")
      case True
      then have "x = st" using row_unique[OF assms(2,3) x(1)] by (simp add: is_plugin_def)
      then show ?thesis
        using True r x assms(6,7) readStateRow_Inr[OF assms(3)] by (simp add: bud is_plugin_def)
    next
      case False
      then show ?thesis using r x assms(1) by (auto simp: capped_def bud)
    qed
  qed
qed

lemma capped_same: "capped d \<Longrightarrow> pl_state d' = pl_state d \<Longrightarrow> pl_budget d' = pl_budget d \<Longrightarrow> capped d'"
  by (simp add: capped_def budget_of_def)

lemma capped_weaken:
  assumes "capped d" "pl_state d' = sql_update P f (pl_state d)" "pl_budget d' = pl_budget d"
    "\<And>r. ps_id (f r) = ps_id r \<and> (ps_enabled (f r) \<and> ps_automated (f r) \<longrightarrow> ps_enabled r \<and> ps_automated r)"
  shows "capped d'"
  unfolding capped_def
proof (intro ballI impI)
  fix r assume r: "r \<in> set (pl_state d')" "ps_enabled r \<and> ps_automated r"
  then obtain x where x: "x \<in> set (pl_state d)" "r = (if P x then f x else x)"
    using in_sql_update[of r P f "pl_state d"] assms(2) by auto
  then have "ps_id r = ps_id x" "ps_enabled x \<and> ps_automated x" using r(2) assms(4)[of x] by (auto split: if_splits)
  then show "bg_daily (budget_of (ps_id r) d') \<noteq> 0"
    using x(1) assms(1,3) by (simp add: capped_def budget_of_def)
qed

lemma disableTx_capped:
  assumes "capped d" "disableTx now p actor reason d = (r, d')"
  shows "capped d'"
proof -
  have acc: "pl_budget d' = pl_budget d" using disableTx_state[OF assms(2)] by (simp add: accounts_def)
  consider "d' = d" | "pl_state d' = sql_update (is_plugin p) (switch_off now actor reason) (pl_state d)"
    using disableTx_state[OF assms(2)] by blast
  then show ?thesis
  proof cases
    case 2
    then show ?thesis using capped_weaken[OF assms(1) 2 acc] by (simp add: switch_off_def)
  qed (use assms(1) in simp)
qed

lemma recordBudgetExceeded_capped:
  assumes "capped d" "recordBudgetExceeded now p w s l r c a d = (x, d')"
  shows "capped d'"
  using capped_same[OF assms(1), of d'] recordBudgetExceeded_frame(1,2)[of now p w s l r c a d] assms(2)
  by (simp add: accounts_def)

lemma reserve_loop_capped: "capped d \<Longrightarrow> capped (snd (reserve_loop now p b m ws d))"
proof (induction ws)
  case (Cons w ws)
  then show ?case
    by (auto simp: Let_def split: sum.splits prod.splits if_splits
        dest: recordBudgetExceeded_capped disableTx_capped)
qed simp

lemma ReserveSpendTx_capped:
  assumes "capped d" "ReserveSpendTx now rid p m d = (r, d')"
  shows "capped d'"
proof (cases "m < 0 \<or> (\<exists>e. readStateRow p d = Inl e)")
  case True
  then show ?thesis using assms by (auto simp: ReserveSpendTx_def split: if_splits)
next
  case False
  then obtain st b where st: "readStateRow p d = Inr (st, b)" "\<not> m < 0"
    by (cases "readStateRow p d") auto
  obtain x d1 where x: "reserve_loop now p b m AllWindows d = (x, d1)" by fastforce
  then have "capped d1" using reserve_loop_capped[OF assms(1), of now p b m AllWindows] by simp
  moreover have "d' = d \<or> d' = d1 \<or> (\<exists>t. d' = d1\<lparr>pl_reservations := t\<rparr>)"
    using assms st x by (auto simp: ReserveSpendTx_def Let_def split: if_splits sum.splits option.splits)
  ultimately show ?thesis using assms(1) by (auto intro: capped_same)
qed

lemma crossed_loop_capped: "capped d \<Longrightarrow> capped (snd (crossed_loop now p starts b ws d))"
  using capped_same[of d "snd (crossed_loop now p starts b ws d)"] crossed_loop_accounts[of now p starts b ws d]
  by (simp add: accounts_def)

lemma overrun_capped:
  assumes "capped d"
  shows "capped (snd (overrun now r starts a d))"
proof -
  let ?i = "policy_event ''core.plugin.accounting_invariant_failed'' (rs_plugin r)
             [(''plugin'', JStr (rs_plugin r)), (''reservationId'', JStr (rs_id r)),
              (''reservedMaximum'', JNum (rs_maximum r)), (''actualCost'', JNum a)]"
  let ?d = "d\<lparr>pl_state := sql_update (is_plugin (rs_plugin r))
                 (\<lambda>s. s\<lparr>ps_failed_at := Some (rfc now)\<rparr>) (pl_state d)\<rparr>"
  obtain x d1 where x: "PublishTx now ?i ?d = (x, d1)" by fastforce
  have "capped ?d"
    by (rule capped_weaken[OF assms, where P = "is_plugin (rs_plugin r)"
          and f = "\<lambda>s. s\<lparr>ps_failed_at := Some (rfc now)\<rparr>"]) simp_all
  then have c1: "capped d1" using capped_same[of ?d d1] PublishTx_policy(1,2)[of now ?i ?d] by (simp add: x)
  show ?thesis
    using c1 by (auto simp: overrun_def x crossed_loop_capped split: sum.splits prod.splits
        dest: disableTx_capped)
qed

lemma SettleSpendTx_capped:
  assumes "capped d" "SettleSpendTx now rid a d = (Inr u, d')"
  shows "capped d'"
proof -
  obtain x d1 where x: "takeReservation rid d = (x, d1)" by fastforce
  have s1: "pl_state d1 = pl_state d" "pl_budget d1 = pl_budget d"
    using x by (auto simp: takeReservation_def split: option.splits)
  have com: "capped d2" if "commit_loop p starts a AllWindows d1 = (Inr y, d2)" for p starts y d2
    using commit_loop_Inr[OF that] capped_same[OF assms(1), of d2] s1 by (auto simp: AllWindows_def)
  show ?thesis
    using assms(2) by (auto simp: SettleSpendTx_def x split: sum.splits prod.splits if_splits
        dest!: com dest: overrun_capped) (metis overrun_capped snd_conv)
qed

definition pol_inv :: "'a policy_db_scheme \<Rightarrow> bool" where
  "pol_inv d \<longleftrightarrow> policy_ok d \<and> capped d"

lemma settle_inv: "pol_inv d \<Longrightarrow> pol_inv (snd (run_tx (SettleSpendTx now rid a) d))"
  by (rule rtx.tx_keeps) (auto simp: pol_inv_def intro: SettleSpendTx_ok SettleSpendTx_capped)

lemma settle_orphans_inv: "pol_inv d \<Longrightarrow> pol_inv (snd (settle_orphans now os d))"
proof (induction os arbitrary: d)
  case (Cons orp os)
  obtain rid m where o: "orp = (rid, m)" by (cases orp)
  obtain x d1 where x: "run_tx (SettleSpendTx now rid m) d = (x, d1)" by fastforce
  then have "pol_inv d1" using settle_inv[OF Cons.prems, of now rid m] by simp
  then show ?case using Cons.IH by (simp add: o x split: sum.splits)
qed simp

lemma Enable_inv:
  assumes "pol_inv d" shows "pol_inv (snd (Enable now p actor reason d))"
proof -
  obtain r d' where e: "Enable now p actor reason d = (r, d')" by fastforce
  from e show ?thesis
  proof (cases rule: Enable_cases)
    case (on st b)
    have "policy_ok d'"
      using assms on by - (rule policy_ok_accounts[of d], simp_all add: pol_inv_def map_key_sql_update switch_on_def)
    moreover have "capped d'"
      using assms on by - (rule capped_update[OF _ _ on(1) on(6)], auto simp: pol_inv_def accounts_def switch_on_def)
    ultimately show ?thesis by (simp add: e pol_inv_def)
  qed (use assms e in simp)
qed

lemma Disable_inv:
  assumes "pol_inv d" shows "pol_inv (snd (Disable now p actor reason d))"
  unfolding Disable_def
proof (rule rtx.tx_keeps[where I = pol_inv, OF assms])
  fix a d' assume e: "disableTx now p actor reason d = (Inr a, d')"
  then have "policy_ok d'"
    using policy_ok_accounts[of d d'] disableTx_accounts[of now p actor reason d]
      disableTx_ids[of now p actor reason d] assms by (simp add: pol_inv_def)
  then show "pol_inv d'" using disableTx_capped[OF _ e] assms by (simp add: pol_inv_def)
qed

lemma SetBudget_inv:
  assumes "pol_inv d" shows "pol_inv (snd (SetBudget now p b d))"
proof -
  obtain r d' where e: "SetBudget now p b d = (r, d')" by fastforce
  from e show ?thesis
  proof (cases rule: SetBudget_cases)
    case (set st b0)
    have "policy_ok d'" using assms set by (simp add: pol_inv_def policy_ok_def)
    moreover have "capped d'"
      unfolding capped_def
    proof (intro ballI impI)
      fix r assume r: "r \<in> set (pl_state d')" "ps_enabled r \<and> ps_automated r"
      then have "r = st" if "ps_id r = p" using row_unique[OF _ set(1), of r] that assms set(5) by (simp add: pol_inv_def)
      then show "bg_daily (budget_of (ps_id r) d') \<noteq> 0"
        using r set assms by (auto simp: pol_inv_def capped_def)
    qed
    ultimately show ?thesis by (simp add: e pol_inv_def)
  qed (use assms e in simp)
qed

lemma Register_inv:
  assumes "pol_inv d" shows "pol_inv (snd (Register now p auto d))"
proof -
  obtain r d' where e: "Register now p auto d = (r, d')" by fastforce
  from e show ?thesis
  proof (cases rule: Register_cases)
    case new
    then show ?thesis using assms e by (auto simp: pol_inv_def policy_ok_def capped_def)
  next
    case (change st b d1)
    let ?f = "\<lambda>r. r\<lparr>ps_automated := auto\<rparr>"
    have bud: "pl_budget d1 = pl_budget d" using change(2) by (simp add: accounts_def)
    have ok1: "policy_ok d1"
      using assms change by - (rule policy_ok_accounts[of d], simp_all add: pol_inv_def map_key_sql_update)
    show ?thesis
    proof (cases "auto \<and> ps_enabled st \<and> bg_daily b = 0")
      case False
      then have "d' = d1" using change(4) by simp
      moreover have "capped d1"
        using assms False by - (rule capped_update[OF _ _ change(1,3) bud], auto simp: pol_inv_def)
      ultimately show ?thesis using ok1 by (simp add: e pol_inv_def)
    next
      case True
      then have dis: "disableTx now p ''system'' ''automated_without_daily_budget'' d1 = (Inr (), d')"
        using change(4) by simp
      have r1: "readStateRow p d1 = Inr (?f st, budget_of p d1)"
        by (rule readStateRow_update[OF change(1,3)]) simp
      then have s': "pl_state d' = sql_update (is_plugin p)
            (switch_off now ''system'' ''automated_without_daily_budget'') (pl_state d1)"
        using disableTx_state[OF dis] True by auto
      have "pl_state d' = sql_update (is_plugin p)
            (switch_off now ''system'' ''automated_without_daily_budget'' \<circ> ?f) (pl_state d)"
        unfolding s' change(3) by (simp add: sql_update_def is_plugin_def switch_off_def)
      moreover have acc: "accounts d' = accounts d1" using disableTx_state[OF dis] by simp
      ultimately have "capped d'"
        using capped_update[OF _ _ change(1), of d'] assms bud
        by (simp add: pol_inv_def accounts_def switch_off_def)
      moreover have "map ps_id (pl_state d') = map ps_id (pl_state d1)"
        unfolding s' by (simp add: map_key_sql_update switch_off_def)
      then have "policy_ok d'" by (rule policy_ok_accounts[OF ok1 acc])
      ultimately show ?thesis by (simp add: e pol_inv_def)
    qed
  qed (use assms e in simp)
qed

lemma pol_exec_inv:
  assumes "pol_inv d" "op_time_ok oper"
  shows "pol_inv (pol_exec oper d)"
proof (cases oper)
  case (OpReserve now rid p m)
  obtain r d' where r: "ReserveSpendTx now rid p m d = (r, d')" by fastforce
  then have "pol_inv d'"
    using assms OpReserve ReserveSpendTx_ok[OF _ _ r] ReserveSpendTx_capped[OF _ r] by (simp add: pol_inv_def)
  then show ?thesis using assms(1) OpReserve r by (auto simp: spend_tx_def split: sum.splits)
next
  case (OpSettle now rid a)
  then show ?thesis using settle_inv[OF assms(1)] by simp
next
  case (OpRelease rid)
  have "pol_inv (snd (run_tx (ReleaseSpendTx rid) d))"
  proof (rule rtx.tx_keeps[where I = pol_inv, OF assms(1)])
    fix a d' assume e: "ReleaseSpendTx rid d = (Inr a, d')"
    have ok: "policy_ok d" using assms(1) by (simp add: pol_inv_def)
    show "pol_inv d'"
    proof (rule ReleaseSpendTx_Inr[OF ok e])
      fix r assume "d' = d\<lparr>pl_reservations := sql_delete (\<lambda>x. rs_id x = rid) (pl_reservations d)\<rparr>"
      then show ?thesis
        using ReleaseSpendTx_ok[OF ok e] capped_same[of d d'] assms(1) by (simp add: pol_inv_def)
    qed
  qed
  then show ?thesis using OpRelease by simp
next
  case (OpOrphans now)
  then show ?thesis
    using settle_orphans_inv[OF assms(1)] by (auto simp: SettleOrphanedReservations_def Let_def split: sum.splits prod.splits) (metis snd_conv)+
qed (use assms Register_inv Enable_inv Disable_inv SetBudget_inv in simp_all)

end
