(* ===== verification/Policy_Budget.thy ===== *)
theory Policy_Budget
  imports Policy_Laws
begin

text \<open>
  The guarantees of \<^verbatim>\<open>internal/core/policy\<close>: a budget is never overdrawn by any sequence of
  operations, admission is exact, settlement keeps exact accounts, a crash never undercounts,
  a disabled plugin is denied, and an enabled automated plugin has a daily limit.
\<close>

section \<open>The budget cap\<close>

definition within :: "string \<Rightarrow> budget \<Rightarrow> 'a policy_db_scheme \<Rightarrow> bool" where
  "within p b d \<longleftrightarrow> budget_of p d = b \<and> (\<forall>w s. limitFor b w \<noteq> 0 \<longrightarrow> usage_at p w s d \<le> limitFor b w)"

fun lawful :: "string \<Rightarrow> pol_op \<Rightarrow> 'a policy_db_scheme \<Rightarrow> bool" where
  \<comment> \<open>amounts are far below the 64-bit range, an adapter never charges more than it reserved, and
     the budget of \<open>p\<close> itself is not replaced\<close>
  "lawful p (OpReserve now rid q m) d \<longleftrightarrow> year_ok now \<and> m < 2 ^ 62"
| "lawful p (OpSettle now rid a) d \<longleftrightarrow> list_all (\<lambda>r. rs_id r = rid \<longrightarrow> a \<le> rs_maximum r) (pl_reservations d)"
| "lawful p (OpSetBudget now q b) d \<longleftrightarrow> q \<noteq> p"
| "lawful p _ d \<longleftrightarrow> True"

fun lawful_run :: "string \<Rightarrow> pol_op list \<Rightarrow> 'a policy_db_scheme \<Rightarrow> bool" where
  "lawful_run p [] d \<longleftrightarrow> True"
| "lawful_run p (x # xs) d \<longleftrightarrow> lawful p x d \<and> lawful_run p xs (pol_exec x d)"

lemma lawful_time: "lawful p x d \<Longrightarrow> op_time_ok x"
  by (cases x) simp_all

lemma within_accounts: "within p b d \<Longrightarrow> accounts d' = accounts d \<Longrightarrow> within p b d'"
  using accounts_usage[of d' d] by (simp add: within_def)

lemma within_less:
  "within p b d \<Longrightarrow> budget_of p d' = budget_of p d \<Longrightarrow> (\<And>w s. usage_at p w s d' \<le> usage_at p w s d) \<Longrightarrow> within p b d'"
  unfolding within_def by (metis order_trans)

lemma i64_small:
  assumes "0 \<le> u" "u \<le> 2 ^ 62" "0 \<le> m" "m < 2 ^ 62"
  shows "i64 (i64 u + m) = u + m"
proof -
  have "in_i64 u" "in_i64 (u + m)" using assms by (simp_all add: in_i64_def int64_min_def int64_max_def)
  then show ?thesis by simp
qed

lemma usage_nonneg: "policy_ok d \<Longrightarrow> 0 \<le> usage_at p w s d"
  using reserved_nonneg[of d] committed_nonneg[of d] by (simp add: usage_at_def)

lemma reserve_within:
  assumes "within p b d" "policy_ok d" "\<forall>w. limitFor b w \<le> 2 ^ 62" "m < 2 ^ 62"
    "ReserveSpendTx now rid q m d = (Inr r, d')"
  shows "within p b d'"
proof -
  note R = ReserveSpendTx_Inr[OF assms(5)]
  have bud: "budget_of p d' = b" using R(5) assms(1) by (simp add: within_def)
  have "usage_at p w s d' \<le> limitFor b w" if w: "limitFor b w \<noteq> 0" for w s
  proof (cases "p = q \<and> s = rfc (periodStart w now)")
    case False
    then show ?thesis using reserve_usage[OF assms(5), of p w s] assms(1) w by (auto simp: within_def)
  next
    case True
    have u: "usage_at p w s d \<le> limitFor b w" using assms(1) w by (simp add: within_def)
    then have "i64 (i64 (usage_at p w s d) + m) = usage_at p w s d + m"
      using i64_small[OF usage_nonneg[OF assms(2)] _ R(1) assms(4)] assms(3)[rule_format, of w] by (meson order_trans)
    moreover have "admits now p b m w d" using R(6) True assms(1) by (simp add: within_def)
    ultimately show ?thesis
      using reserve_usage[OF assms(5), of p w s] True w by (simp add: admits_def)
  qed
  then show ?thesis using bud by (simp add: within_def)
qed

lemma settle_within:
  assumes "within p b d" "policy_ok d" "\<forall>r \<in> set (pl_reservations d). rs_id r = rid \<longrightarrow> a \<le> rs_maximum r"
    "SettleSpendTx now rid a d = (Inr u, d')"
  shows "within p b d'"
proof (rule SettleSpendTx_Inr[OF assms(2,4)])
  fix r
  assume r: "r \<in> set (pl_reservations d)" "rs_id r = rid" "pl_budget d' = pl_budget d"
    "\<forall>q w s. reserved_at q w s d' = reserved_at q w s d - (if in_period q w s r then rs_maximum r else 0)"
    "\<forall>q w s. committed_at q w s d' = committed_at q w s d + (if in_period q w s r then a else 0)"
  show "within p b d'"
    by (rule within_less[OF assms(1)]) (use r assms(3) in \<open>auto simp: usage_at_def budget_of_def\<close>)
qed

lemma release_within:
  assumes "within p b d" "policy_ok d" "ReleaseSpendTx rid d = (Inr u, d')"
  shows "within p b d'"
proof (rule ReleaseSpendTx_Inr[OF assms(2,3)])
  fix r
  assume r: "r \<in> set (pl_reservations d)"
    "d' = d\<lparr>pl_reservations := sql_delete (\<lambda>x. rs_id x = rid) (pl_reservations d)\<rparr>"
    "\<forall>q w s. reserved_at q w s d' = reserved_at q w s d - (if in_period q w s r then rs_maximum r else 0)"
  have "0 \<le> rs_maximum r" using r(1) assms(2) by (simp add: policy_ok_def)
  then have "usage_at p w s d' \<le> usage_at p w s d" for w s using r(2,3) by (simp add: usage_at_def)
  moreover have "budget_of p d' = budget_of p d" using r(2) by simp
  ultimately show "within p b d'" using within_less[OF assms(1)] by blast
qed

section \<open>Orphaned reservations\<close>

lemma settle_orphans_Inr:
  assumes "settle_orphans now os d = (Inr u, d')" "policy_ok d" "distinct (map fst os)"
    "set os \<subseteq> (\<lambda>r. (rs_id r, rs_maximum r)) ` set (pl_reservations d)"
  shows "policy_ok d' \<and> pl_reservations d' = filter (\<lambda>r. rs_id r \<notin> fst ` set os) (pl_reservations d) \<and>
    pl_budget d' = pl_budget d \<and> (\<forall>p w s. usage_at p w s d' = usage_at p w s d)"
  using assms
proof (induction os arbitrary: d)
  case Nil
  then show ?case by simp
next
  case (Cons orp os)
  obtain rid m where orp: "orp = (rid, m)" by (cases orp)
  obtain x d1 where x: "run_tx (SettleSpendTx now rid m) d = (x, d1)" by fastforce
  with Cons.prems(1) orp obtain v where v: "x = Inr v" by (cases x) auto
  then have st: "SettleSpendTx now rid m d = (Inr v, d1)" using x by (simp add: run_tx_iff)
  obtain r0 where r0: "r0 \<in> set (pl_reservations d)" "rs_id r0 = rid" "rs_maximum r0 = m"
    using Cons.prems(4) orp by auto
  have res: "pl_reservations d1 = sql_delete (\<lambda>x. rs_id x = rid) (pl_reservations d)"
    and use: "\<forall>p w s. usage_at p w s d1 = usage_at p w s d" and bud: "pl_budget d1 = pl_budget d"
  proof -
    have "pl_reservations d1 = sql_delete (\<lambda>x. rs_id x = rid) (pl_reservations d) \<and>
        (\<forall>p w s. usage_at p w s d1 = usage_at p w s d) \<and> pl_budget d1 = pl_budget d"
    proof (rule SettleSpendTx_Inr[OF Cons.prems(2) st])
      fix r
      assume r: "r \<in> set (pl_reservations d)" "rs_id r = rid"
        "pl_reservations d1 = sql_delete (\<lambda>x. rs_id x = rid) (pl_reservations d)" "pl_budget d1 = pl_budget d"
        "\<forall>q w s. reserved_at q w s d1 = reserved_at q w s d - (if in_period q w s r then rs_maximum r else 0)"
        "\<forall>q w s. committed_at q w s d1 = committed_at q w s d + (if in_period q w s r then m else 0)"
      have "r = r0" using r(1,2) r0(1,2) Cons.prems(2) unfolding policy_ok_def by (metis distinct_map inj_onD)
      then show ?thesis using r r0(3) by (simp add: usage_at_def)
    qed
    then show "pl_reservations d1 = sql_delete (\<lambda>x. rs_id x = rid) (pl_reservations d)"
      "\<forall>p w s. usage_at p w s d1 = usage_at p w s d" "pl_budget d1 = pl_budget d" by blast+
  qed
  have sub: "set os \<subseteq> (\<lambda>r. (rs_id r, rs_maximum r)) ` set (pl_reservations d1)"
    using Cons.prems(3,4) orp by (force simp: res)
  have run: "settle_orphans now os d1 = (Inr u, d')" using Cons.prems(1) orp x v by simp
  have "distinct (map fst os)" using Cons.prems(3) by simp
  from Cons.IH[OF run SettleSpendTx_ok[OF Cons.prems(2) st] this sub]
  show ?case using res use bud orp by (auto simp: sql_delete_def intro!: filter_cong)
qed

lemma settle_step_within:
  assumes "within p b d" "policy_ok d" "\<forall>r \<in> set (pl_reservations d). rs_id r = rid \<longrightarrow> a \<le> rs_maximum r"
    "run_tx (SettleSpendTx now rid a) d = (x, d1)"
  shows "within p b d1 \<and> policy_ok d1 \<and> set (pl_reservations d1) \<subseteq> set (pl_reservations d)"
proof (cases x)
  case (Inl e)
  then show ?thesis using assms by (simp add: run_tx_iff)
next
  case (Inr u)
  then have st: "SettleSpendTx now rid a d = (Inr u, d1)" using assms(4) by (simp add: run_tx_iff)
  have "set (pl_reservations d1) \<subseteq> set (pl_reservations d)"
    by (rule SettleSpendTx_Inr[OF assms(2) st]) auto
  then show ?thesis using settle_within[OF assms(1-3) st] SettleSpendTx_ok[OF assms(2) st] by simp
qed

lemma settle_orphans_within:
  assumes "within p b d" "policy_ok d"
    "\<forall>o1 \<in> set os. \<forall>r \<in> set (pl_reservations d). rs_id r = fst o1 \<longrightarrow> snd o1 \<le> rs_maximum r"
  shows "within p b (snd (settle_orphans now os d))"
  using assms
proof (induction os arbitrary: d)
  case (Cons orp os)
  obtain rid m where orp: "orp = (rid, m)" by (cases orp)
  obtain x d1 where x: "run_tx (SettleSpendTx now rid m) d = (x, d1)" by fastforce
  have s: "within p b d1" "policy_ok d1" "set (pl_reservations d1) \<subseteq> set (pl_reservations d)"
    using settle_step_within[OF Cons.prems(1,2) _ x] Cons.prems(3) orp by auto
  then have "within p b (snd (settle_orphans now os d1))"
    using Cons.prems(3) by (intro Cons.IH) auto
  then show ?case using s by (simp add: orp x split: sum.splits)
qed simp

lemma exec_within:
  assumes "within p b d" "pol_inv d" "\<forall>w. limitFor b w \<le> 2 ^ 62" "lawful p x d"
  shows "within p b (pol_exec x d)"
proof -
  have ok: "policy_ok d" using assms(2) by (simp add: pol_inv_def)
  show ?thesis
  proof (cases x)
    case (OpReserve now rid q m)
    obtain r d' where r: "ReserveSpendTx now rid q m d = (r, d')" by fastforce
    have "within p b d'"
    proof (cases r)
      case (Inl e)
      then show ?thesis using ReserveSpendTx_Inl within_accounts[OF assms(1)] r by blast
    next
      case (Inr a)
      then show ?thesis using reserve_within[OF assms(1) ok assms(3), of m now rid q a d'] r assms(4) OpReserve by simp
    qed
    then show ?thesis using OpReserve r assms(1) by (auto simp: spend_tx_def split: sum.splits)
  next
    case (OpSettle now rid a)
    obtain y d1 where y: "run_tx (SettleSpendTx now rid a) d = (y, d1)" by fastforce
    show ?thesis
      using settle_step_within[OF assms(1) ok _ y] assms(4) OpSettle y by (simp add: list_all_iff)
  next
    case (OpRelease rid)
    have "within p b (snd (run_tx (ReleaseSpendTx rid) d))"
      by (rule rtx.tx_keeps[where I = "within p b", OF assms(1)]) (rule release_within[OF assms(1) ok])
    then show ?thesis using OpRelease by simp
  next
    case (OpOrphans now)
    have uniq: "rs_maximum r' = rs_maximum r"
      if "r \<in> set (pl_reservations d)" "r' \<in> set (pl_reservations d)" "rs_id r = rs_id r'" for r r'
      using that ok unfolding policy_ok_def by (metis distinct_map inj_onD)
    have "within p b (snd (settle_orphans now
        (map (\<lambda>r. (rs_id r, rs_maximum r)) (sort_key rs_admitted (pl_reservations d))) d))"
      by (rule settle_orphans_within[OF assms(1) ok]) (auto dest: uniq)
    then show ?thesis
      using OpOrphans by (auto simp: SettleOrphanedReservations_def Let_def split: sum.splits prod.splits)
  next
    case (OpRegister now q a)
    obtain r d' where e: "Register now q a d = (r, d')" by fastforce
    from e have "within p b d'"
    proof (cases rule: Register_cases)
      case new
      then show ?thesis
        using assms(1) by (simp add: within_def usage_at_def reserved_at_def committed_at_def)
    next
      case (change st b0 d1)
      then have "accounts d' = accounts d"
        using disableTx_state[of now q "''system''" "''automated_without_daily_budget''" d1 "Inr ()" d']
        by (auto split: if_splits)
      then show ?thesis by (rule within_accounts[OF assms(1)])
    qed (use assms(1) in simp)
    then show ?thesis using OpRegister e by simp
  next
    case (OpEnable now q actor reason)
    obtain r d' where e: "Enable now q actor reason d = (r, d')" by fastforce
    from e have "accounts d' = accounts d" by (cases rule: Enable_cases) simp_all
    then show ?thesis using OpEnable e within_accounts[OF assms(1)] by simp
  next
    case (OpDisable now q actor reason)
    obtain r d' where e: "Disable now q actor reason d = (r, d')" by fastforce
    from e have "accounts d' = accounts d" by (cases rule: Disable_cases) simp_all
    then show ?thesis using OpDisable e within_accounts[OF assms(1)] by simp
  next
    case (OpSetBudget now q b')
    obtain r d' where e: "SetBudget now q b' d = (r, d')" by fastforce
    from e have "within p b d'"
    proof (cases rule: SetBudget_cases)
      case (set st b0)
      then show ?thesis
        using assms(1,4) OpSetBudget by (simp add: within_def usage_at_def reserved_at_def committed_at_def)
    qed (use assms(1) in simp)
    then show ?thesis using OpSetBudget e by simp
  qed
qed

lemma run_within:
  assumes "within p b d" "pol_inv d" "\<forall>w. limitFor b w \<le> 2 ^ 62" "lawful_run p xs d"
  shows "within p b (fold pol_exec xs d) \<and> pol_inv (fold pol_exec xs d)"
  using assms
proof (induction xs arbitrary: d)
  case (Cons x xs)
  then have l: "lawful p x d" by simp
  show ?case
    using exec_within[OF Cons.prems(1,2,3) l] pol_exec_inv[OF Cons.prems(2) lawful_time[OF l]]
      Cons.IH[of "pol_exec x d"] Cons.prems by simp
qed simp

section \<open>Properties\<close>

definition w_budget :: budget where
  "w_budget = \<lparr>bg_hourly = 100, bg_daily = 500, bg_monthly = 0, bg_on_exceed = ExceedReject\<rparr>"

definition w_pol :: policy_db where
  \<comment> \<open>a registered, configured and enabled automated plugin\<close>
  "w_pol = empty_policy_db\<lparr>
     pl_state := [\<lparr>ps_id = ''a'', ps_enabled = True, ps_automated = True, ps_disabled_at = None,
                   ps_disabled_by = [], ps_disabled_reason = [], ps_failed_at = None\<rparr>],
     pl_budget := [\<lparr>br_id = ''a'', br_budget = w_budget\<rparr>]\<rparr>"

lemma w_pol_empty: "pl_reservations w_pol = []" "pl_spend w_pol = []"
  by code_simp+

lemma w_pol_state: "ps_enabled (hd (pl_state w_pol))" "map ps_id (pl_state w_pol) = [''a'']"
  "budget_of ''a'' w_pol = w_budget"
  by code_simp+

lemma w_pol_inv: "pol_inv w_pol"
  by (simp add: pol_inv_def policy_ok_def capped_def empty_policy_db_def w_pol_def budget_of_def w_budget_def)

lemma w_pol_usage: "usage_at p w s w_pol = 0"
  by (simp add: usage_at_def reserved_at_def committed_at_def w_pol_empty)

lemma w_pol_within: "within ''a'' w_budget w_pol"
proof -
  have "0 \<le> limitFor w_budget w" for w by (cases w) (simp_all add: w_budget_def)
  then show ?thesis by (simp add: within_def w_pol_usage w_pol_state)
qed

lemma w_budget_small: "\<forall>w. limitFor w_budget w \<le> 2 ^ 62"
proof
  fix w show "limitFor w_budget w \<le> 2 ^ 62" by (cases w) (simp_all add: w_budget_def)
qed





text \<open>
  C27. Settlement keeps exact accounts: settling a reservation removes it and moves precisely the
  actual cost into the committed spend of the three periods the reservation pinned, whatever the
  cost and the time of settlement; releasing it only gives the reserved amount back.
\<close>

theorem settlement_exact:
  assumes "policy_ok d" "SettleSpendTx now rid actual d = (Inr (), d')"
  shows "\<exists>r \<in> set (pl_reservations d). rs_id r = rid \<and>
    pl_reservations d' = sql_delete (\<lambda>x. rs_id x = rid) (pl_reservations d) \<and>
    (\<forall>p w s. reserved_at p w s d' = reserved_at p w s d - (if rs_plugin r = p \<and> rs_start r w = s then rs_maximum r else 0) \<and>
       committed_at p w s d' = committed_at p w s d + (if rs_plugin r = p \<and> rs_start r w = s then actual else 0)) \<and>
    (\<exists>d''. ReleaseSpendTx rid d = (Inr (), d'') \<and>
       (\<forall>p w s. reserved_at p w s d'' = reserved_at p w s d' \<and> committed_at p w s d'' = committed_at p w s d))"
proof (rule SettleSpendTx_Inr[OF assms])
  fix r
  assume r: "r \<in> set (pl_reservations d)" "rs_id r = rid"
    "pl_reservations d' = sql_delete (\<lambda>x. rs_id x = rid) (pl_reservations d)"
    "\<forall>q w s. reserved_at q w s d' = reserved_at q w s d - (if in_period q w s r then rs_maximum r else 0)"
    "\<forall>q w s. committed_at q w s d' = committed_at q w s d + (if in_period q w s r then actual else 0)"
  obtain x d1 where x: "takeReservation rid d = (x, d1)" by fastforce
  with assms(2) obtain y where y: "x = Inr y" by (cases x) (auto simp: SettleSpendTx_def split: if_splits)
  then have rel: "ReleaseSpendTx rid d = (Inr (), d1)" using x by (simp add: ReleaseSpendTx_def)
  have d1: "d1 = d\<lparr>pl_reservations := sql_delete (\<lambda>x. rs_id x = rid) (pl_reservations d)\<rparr>"
    using takeReservation_Inr(4)[OF assms(1)] x y by (cases y) auto
  then have "reserved_at p w s d1 = reserved_at p w s d' \<and> committed_at p w s d1 = committed_at p w s d" for p w s
    using r(3) by (simp add: reserved_at_def)
  then show ?thesis using r rel unfolding in_period_def by blast
qed

lemma w_reserve_time: "op_time_ok (OpReserve 5 ''r1'' ''a'' 60)"
  by code_simp

theorem settlement_exact_witness:
  "committed_at ''a'' WindowHour (rfc 0)
     (pol_exec (OpSettle 7 ''r1'' 50) (pol_exec (OpReserve 5 ''r1'' ''a'' 60) w_pol)) = 50"
proof -
  let ?d = "pol_exec (OpReserve 5 ''r1'' ''a'' 60) w_pol"
  have "policy_ok ?d"
    using pol_exec_inv[OF w_pol_inv w_reserve_time] by (simp only: pol_inv_def)
  moreover have "fst (SettleSpendTx 7 ''r1'' 50 ?d) = Inr ()" by code_simp
  then have s: "SettleSpendTx 7 ''r1'' 50 ?d = (Inr (), snd (SettleSpendTx 7 ''r1'' 50 ?d))"
    by (metis prod.collapse)
  ultimately obtain r where r: "r \<in> set (pl_reservations ?d)" "rs_id r = ''r1''"
      "committed_at ''a'' WindowHour (rfc 0) (snd (SettleSpendTx 7 ''r1'' 50 ?d)) =
       committed_at ''a'' WindowHour (rfc 0) ?d +
        (if rs_plugin r = ''a'' \<and> rs_start r WindowHour = rfc 0 then 50 else 0)"
    using settlement_exact[of ?d 7 "''r1''" 50] by blast
  have "list_all (\<lambda>r. rs_plugin r = ''a'' \<and> rs_start r WindowHour = rfc 0) (pl_reservations ?d)"
    "committed_at ''a'' WindowHour (rfc 0) ?d = 0" by code_simp+
  then have "committed_at ''a'' WindowHour (rfc 0) (snd (SettleSpendTx 7 ''r1'' 50 ?d)) = 50"
    using r by (simp add: list_all_iff)
  moreover have "pol_exec (OpSettle 7 ''r1'' 50) ?d = snd (SettleSpendTx 7 ''r1'' 50 ?d)"
    unfolding pol_exec.simps(2) by (subst rtx.tx_Inr[where f = "SettleSpendTx 7 ''r1'' 50" and d = ?d, THEN iffD2, OF s]) (rule snd_conv)
  ultimately show ?thesis by simp
qed

text \<open>
  A crash never undercounts: settling the reservations a previous run left behind removes
  them all and leaves the usage of every plugin, window and period as it was, now as committed spend.
\<close>

theorem orphans_keep_usage:
  assumes "policy_ok d" "SettleOrphanedReservations now d = (Inr n, d')"
  shows "n = length (pl_reservations d) \<and> pl_reservations d' = [] \<and>
    (\<forall>p w s. committed_at p w s d' = usage_at p w s d)"
proof -
  let ?os = "map (\<lambda>r. (rs_id r, rs_maximum r)) (sort_key rs_admitted (pl_reservations d))"
  obtain x d1 where x: "settle_orphans now ?os d = (x, d1)" by fastforce
  then obtain u where u: "x = Inr u" "d' = d1" "n = length ?os"
    using assms(2) by (cases x) (auto simp: SettleOrphanedReservations_def Let_def)
  have "distinct (map rs_id (sort_key rs_admitted (pl_reservations d)))"
    using assms(1) by (simp add: policy_ok_def distinct_map)
  then have dist: "distinct (map fst ?os)" by (simp add: comp_def)
  have sub: "set ?os \<subseteq> (\<lambda>r. (rs_id r, rs_maximum r)) ` set (pl_reservations d)" by simp
  note S = settle_orphans_Inr[OF x[unfolded u(1)] assms(1) dist sub]
  then have e: "pl_reservations d' = []" using u(2) by (simp add: image_image filter_empty_conv)
  then have "committed_at p w s d' = usage_at p w s d" for p w s
    using S u(2) by (auto simp: usage_at_def reserved_at_def)
  then show ?thesis using u(3) e by simp
qed

theorem orphans_keep_usage_witness:
  "pl_reservations (pol_exec (OpOrphans 9) (pol_exec (OpReserve 5 ''r1'' ''a'' 60) w_pol)) = []"
proof -
  let ?d = "pol_exec (OpReserve 5 ''r1'' ''a'' 60) w_pol"
  have "policy_ok ?d"
    using pol_exec_inv[OF w_pol_inv w_reserve_time] by (simp only: pol_inv_def)
  moreover have "fst (SettleOrphanedReservations 9 ?d) = Inr 1" by code_simp
  then have "SettleOrphanedReservations 9 ?d = (Inr 1, snd (SettleOrphanedReservations 9 ?d))" by (metis prod.collapse)
  ultimately show ?thesis using orphans_keep_usage[of ?d 9 1] by simp
qed

text \<open>
  Unattended work is always capped: whatever sequence of operations runs, in every reachable
  state an enabled automated plugin has a nonzero daily limit, and the tables stay well formed.
\<close>

theorem automated_always_capped:
  assumes "pol_inv d" "list_all op_time_ok ops"
  shows "\<forall>r \<in> set (pl_state (fold pol_exec ops d)). ps_enabled r \<and> ps_automated r \<longrightarrow>
    bg_daily (budget_of (ps_id r) (fold pol_exec ops d)) \<noteq> 0"
proof -
  have "pol_inv (fold pol_exec ops d)"
    using assms by (induction ops arbitrary: d) (simp_all add: pol_exec_inv)
  then show ?thesis by (simp add: pol_inv_def capped_def)
qed

theorem automated_always_capped_witness:
  "\<not> list_ex (\<lambda>r. ps_enabled r \<and> ps_automated r \<and>
      bg_daily (budget_of (ps_id r) (fold pol_exec [OpSetBudget 1 ''a'' no_budget, OpRegister 2 ''b'' True] w_pol)) = 0)
     (pl_state (fold pol_exec [OpSetBudget 1 ''a'' no_budget, OpRegister 2 ''b'' True] w_pol))"
  using automated_always_capped[OF w_pol_inv, of "[OpSetBudget 1 ''a'' no_budget, OpRegister 2 ''b'' True]"]
  by (simp del: pol_exec.simps add: list_ex_iff)

text \<open>
  A disabled plugin is shut out: after \<^verbatim>\<open>Disable\<close> returned without error, work is denied,
  every reservation is refused without a write, the accounts are untouched, and repeating the
  disable changes nothing (no second event, no second notification); the watchers are told exactly when the
  plugin was enabled before.
\<close>

theorem disabled_is_denied:
  assumes "Disable now p actor reason d = (Inr (), d')"
  shows "CheckWorkTx p d' = Inl ErrPluginDisabled \<and>
    (\<exists>e. ReserveSpendTx now' rid p m d' = (Inl e, d') \<and> (e = ErrPluginDisabled \<or> e = ErrNegativeAmount)) \<and>
    accounts d' = accounts d \<and> Disable now'' p actor' reason' d' = (Inr (), d') \<and>
    pl_after d' = pl_after d @ (if CheckWorkTx p d = Inr () then [(p, False)] else [])"
proof -
  have row: "\<exists>st b. readStateRow p d' = Inr (st, b) \<and> \<not> ps_enabled st" and acc: "accounts d' = accounts d"
    and after: "pl_after d' = pl_after d @ (if CheckWorkTx p d = Inr () then [(p, False)] else [])"
  proof (atomize (full), rule Disable_cases[OF assms])
    assume "d' = d" "Inr () = Inr () \<Longrightarrow> \<exists>st b. readStateRow p d = Inr (st, b) \<and> \<not> ps_enabled st"
    then show "(\<exists>st b. readStateRow p d' = Inr (st, b) \<and> \<not> ps_enabled st) \<and> accounts d' = accounts d \<and>
        pl_after d' = pl_after d @ (if CheckWorkTx p d = Inr () then [(p, False)] else [])"
      by (auto simp: CheckWorkTx_def)
  next
    fix st b
    assume off: "readStateRow p d = Inr (st, b)" "ps_enabled st" "accounts d' = accounts d"
      "pl_state d' = sql_update (is_plugin p) (switch_off now actor reason) (pl_state d)"
      "pl_after d' = pl_after d @ [(p, False)]"
    have "readStateRow p d' = Inr (switch_off now actor reason st, budget_of p d')"
      by (rule readStateRow_update[OF off(1,4)]) (simp add: switch_off_def)
    then show "(\<exists>st b. readStateRow p d' = Inr (st, b) \<and> \<not> ps_enabled st) \<and> accounts d' = accounts d \<and>
        pl_after d' = pl_after d @ (if CheckWorkTx p d = Inr () then [(p, False)] else [])"
      using off by (simp add: switch_off_def CheckWorkTx_def)
  qed
  obtain st b where st: "readStateRow p d' = Inr (st, b)" "\<not> ps_enabled st" using row by blast
  have "CheckWorkTx p d' = Inl ErrPluginDisabled" using st by (simp add: CheckWorkTx_def)
  moreover have "\<exists>e. ReserveSpendTx now' rid p m d' = (Inl e, d') \<and> (e = ErrPluginDisabled \<or> e = ErrNegativeAmount)"
    using st by (simp add: ReserveSpendTx_def)
  moreover have "Disable now'' p actor' reason' d' = (Inr (), d')"
    using st by (simp add: Disable_def disableTx_def run_tx_def)
  ultimately show ?thesis using acc after by blast
qed

theorem disabled_is_denied_witness:
  "CheckWorkTx ''a'' (pol_exec (OpDisable 3 ''a'' ''x'' ''y'') w_pol) = Inl ErrPluginDisabled"
proof -
  let ?r = "Disable 3 ''a'' ''x'' ''y'' w_pol"
  have "fst ?r = Inr ()" by code_simp
  then have e: "?r = (Inr (), snd ?r)" by (metis prod.collapse)
  show ?thesis unfolding pol_exec.simps(7) by (rule disabled_is_denied[OF e, THEN conjunct1])
qed

text \<open>
  Alerts do not flood: once the crossing of a budget was recorded for a plugin, window and
  period, recording it again, whatever the amounts, publishes nothing and writes nothing.
\<close>

theorem budget_alert_once:
  assumes "recordBudgetExceeded now p w start limit reserved committed action d = (Inr (), d')"
  shows "recordBudgetExceeded now' p w start limit' reserved' committed' action' d' = (Inr (), d')"
proof (cases "sql_find (event_key p w (rfc start)) (pl_budget_events d)")
  case (Some r)
  then have "d' = d" using assms by (simp add: recordBudgetExceeded_def)
  then show ?thesis using Some by (simp add: recordBudgetExceeded_def)
next
  case None
  have k: "event_key p w (rfc start) \<lparr>be_id = p, be_window = w, be_period = rfc start, be_event = n\<rparr>" for n
    by (simp add: event_key_def)
  have "\<exists>r. sql_find (event_key p w (rfc start)) (pl_budget_events d') = Some r"
    using assms None by (auto simp: recordBudgetExceeded_def publish_case sql_find_append k split: sum.splits)
  then show ?thesis by (auto simp: recordBudgetExceeded_def)
qed

theorem budget_alert_once_witness:
  "let d = snd (recordBudgetExceeded 1 ''a'' WindowDay 0 100 90 20 ''reject'' w_pol) in
   recordBudgetExceeded 2 ''a'' WindowDay 0 100 90 30 ''reject'' d = (Inr (), d)"
proof -
  let ?r = "recordBudgetExceeded 1 ''a'' WindowDay 0 100 90 20 ''reject'' w_pol"
  have "fst ?r = Inr ()" by code_simp
  then have e: "?r = (Inr (), snd ?r)" by (metis prod.collapse)
  show ?thesis unfolding Let_def by (rule budget_alert_once[OF e])
qed

text \<open>
  C39. The admission sum is taken in 64-bit arithmetic, and it wraps: with one micro-dollar already used,
  a request for the largest representable maximum is admitted although the hourly limit is a hundred.
\<close>

theorem admission_overflow:
  "\<exists>d :: policy_db. policy_ok d \<and> limitFor (budget_of ''a'' d) WindowHour = 100 \<and>
     usage_at ''a'' WindowHour (rfc 0) d = 1 \<and>
     (\<exists>r. fst (ReserveSpendTx 5 ''r'' ''a'' 9223372036854775807 d) = Inr r)"
proof -
  let ?d = "w_pol\<lparr>pl_spend := [\<lparr>sp_id = ''a'', sp_window = WindowHour, sp_period = rfc 0, sp_committed = 1\<rparr>,
     \<lparr>sp_id = ''a'', sp_window = WindowDay, sp_period = rfc 0, sp_committed = 1\<rparr>]\<rparr>"
  have ok: "policy_ok ?d" using w_pol_inv by (simp add: pol_inv_def policy_ok_def)
  have u: "limitFor (budget_of ''a'' ?d) WindowHour = 100" "usage_at ''a'' WindowHour (rfc 0) ?d = 1"
    by (simp_all add: budget_of_def w_pol_def w_budget_def usage_at_def reserved_at_def committed_at_def
        empty_policy_db_def spend_key_def)
  have "case fst (ReserveSpendTx 5 ''r'' ''a'' 9223372036854775807 ?d) of Inr _ \<Rightarrow> True | Inl _ \<Rightarrow> False"
    by code_simp
  then have "\<exists>r. fst (ReserveSpendTx 5 ''r'' ''a'' 9223372036854775807 ?d) = Inr r"
    by (auto split: sum.splits)
  with ok u show ?thesis by blast
qed

end
