(* ===== verification/Jobs_Cron.thy ===== *)
theory Jobs_Cron
  imports CC_Time
begin

unbundle bit_operations_syntax

text \<open>
  The schedule language of \<^verbatim>\<open>internal/core/jobs/cron.go\<close>: five-field cron expressions, compiled to
  64-bit sets and matched against wall-clock minutes. A field set is a \<open>64 word\<close> as in the code;
  the step addition of \<^verbatim>\<open>parsePart\<close> wraps at 64 bits, and a negative shift count is a panic.

  The reference meaning (\<open>cron_spec\<close>) reads the same text as sets of numbers; the compiled
  schedule is shown to match exactly the minutes of the reference meaning.
\<close>

section \<open>Compiling\<close>

datatype cron_error = CronFields | CronBad | CronPanic

type_synonym cron_field = "64 word"

definition has :: "cron_field \<Rightarrow> int \<Rightarrow> bool" where
  "has f n \<longleftrightarrow> f AND push_bit (nat n) 1 \<noteq> 0"

record cronSched =
  cs_min :: cron_field
  cs_hour :: cron_field
  cs_dom :: cron_field
  cs_month :: cron_field
  cs_dow :: cron_field
  cs_domStar :: bool
  cs_dowStar :: bool

function part_loop :: "int \<Rightarrow> int \<Rightarrow> int \<Rightarrow> cron_field \<Rightarrow> cron_error + cron_field" where
  \<comment> \<open>\<^verbatim>\<open>for n := start; n <= end; n += step\<close>; a sum that wrapped is negative, so the loop goes on and
     \<^verbatim>\<open>1 << n\<close> panics\<close>
  "part_loop n fin step f =
     (if n \<le> fin then
        (let f' = f OR push_bit (nat n) 1; n' = i64 (n + step) in
         if n' \<le> n then Inl CronPanic else part_loop n' fin step f')
      else Inr f)"
  by pat_completeness auto
termination
  by (relation "measure (\<lambda>(n, fin, step, f). nat (fin + 1 - n))") auto

declare part_loop.simps [simp del]

definition part_range :: "string \<Rightarrow> int \<Rightarrow> int \<Rightarrow> (int \<times> int) option" where
  "part_range r lo hi =
     (if r = ''*'' then Some (lo, hi)
      else case cut CHR ''-'' r of
             Some (a, b) \<Rightarrow>
               (case atoi a of None \<Rightarrow> None
                | Some s \<Rightarrow> (case atoi b of None \<Rightarrow> None | Some e \<Rightarrow> Some (s, e)))
           | None \<Rightarrow> (case atoi r of None \<Rightarrow> None | Some n \<Rightarrow> Some (n, n)))"

definition part_step :: "string \<Rightarrow> (string \<times> int) option" where
  "part_step s =
     (case cut CHR ''/'' s of
        None \<Rightarrow> Some (s, 1)
      | Some (r, t) \<Rightarrow>
          (case atoi t of None \<Rightarrow> None | Some n \<Rightarrow> if n \<le> 0 then None else Some (r, n)))"

definition parsePart :: "string \<Rightarrow> int \<Rightarrow> int \<Rightarrow> cron_field \<Rightarrow> cron_error + cron_field" where
  "parsePart s lo hi f =
     (case part_step s of
        None \<Rightarrow> Inl CronBad
      | Some (r, step) \<Rightarrow>
          (case part_range r lo hi of
             None \<Rightarrow> Inl CronBad
           | Some (start, fin) \<Rightarrow>
               if start < lo \<or> hi < fin \<or> fin < start then Inl CronBad
               else part_loop start fin step f))"

fun field_loop :: "string list \<Rightarrow> int \<Rightarrow> int \<Rightarrow> cron_field \<Rightarrow> cron_error + cron_field" where
  "field_loop [] lo hi f = Inr f"
| "field_loop (p # ps) lo hi f =
     (case parsePart p lo hi f of Inl e \<Rightarrow> Inl e | Inr f' \<Rightarrow> field_loop ps lo hi f')"

definition parseField :: "string \<Rightarrow> int \<Rightarrow> int \<Rightarrow> cron_error + cron_field" where
  "parseField s lo hi = field_loop (split_on CHR '','' s) lo hi 0"

definition fold_sunday :: "cron_field \<Rightarrow> cron_field" where
  "fold_sunday f = (if has f 7 then (f OR push_bit 0 1) AND NOT (push_bit 7 1) else f)"

definition parseCron :: "string \<Rightarrow> cron_error + cronSched" where
  "parseCron expr =
     (case CC_Prelude.fields expr of
        [mi, ho, dm, mo, dw] \<Rightarrow>
          (case parseField mi 0 59 of Inl e \<Rightarrow> Inl e | Inr fmi \<Rightarrow>
          (case parseField ho 0 23 of Inl e \<Rightarrow> Inl e | Inr fho \<Rightarrow>
          (case parseField dm 1 31 of Inl e \<Rightarrow> Inl e | Inr fdm \<Rightarrow>
          (case parseField mo 1 12 of Inl e \<Rightarrow> Inl e | Inr fmo \<Rightarrow>
          (case parseField dw 0 7 of Inl e \<Rightarrow> Inl e | Inr fdw \<Rightarrow>
             Inr \<lparr>cs_min = fmi, cs_hour = fho, cs_dom = fdm, cs_month = fmo, cs_dow = fold_sunday fdw,
                  cs_domStar = (dm = ''*''), cs_dowStar = (dw = ''*'')\<rparr>)))))
      | _ \<Rightarrow> Inl CronFields)"

section \<open>Matching\<close>

record wall =
  wl_minute :: int
  wl_hour :: int
  wl_day :: int
  wl_month :: int
  wl_weekday :: int

definition wall_of :: "time \<Rightarrow> wall" where
  \<comment> \<open>the wall fields of a local time given as the UTC time with the same fields; 0001-01-01 was a Monday\<close>
  "wall_of t = (case (date_of t, clock t) of ((y, m, d), (h, mi, s)) \<Rightarrow>
     \<lparr>wl_minute = mi, wl_hour = h, wl_day = d, wl_month = m,
      wl_weekday = (sec_of t div 86400 + 1) mod 7\<rparr>)"

definition cron_matches :: "cronSched \<Rightarrow> wall \<Rightarrow> bool" where
  "cron_matches c t =
     (if \<not> has (cs_min c) (wl_minute t) \<or> \<not> has (cs_hour c) (wl_hour t) \<or> \<not> has (cs_month c) (wl_month t)
      then False
      else
        (let dom = has (cs_dom c) (wl_day t); dow = has (cs_dow c) (wl_weekday t) in
         if cs_domStar c \<and> cs_dowStar c then True
         else if cs_domStar c then dow
         else if cs_dowStar c then dom
         else dom \<or> dow))"

section \<open>The reference meaning\<close>

definition in_part :: "string \<Rightarrow> int \<Rightarrow> int \<Rightarrow> int \<Rightarrow> bool" where
  \<comment> \<open>\<open>a-b/k\<close>: every \<open>k\<close>-th number from \<open>a\<close> up to \<open>b\<close>\<close>
  "in_part s lo hi n \<longleftrightarrow> (\<exists>r k a b. part_step s = Some (r, k) \<and> part_range r lo hi = Some (a, b) \<and>
     a \<le> n \<and> n \<le> b \<and> k dvd (n - a))"

definition in_field :: "string \<Rightarrow> int \<Rightarrow> int \<Rightarrow> int \<Rightarrow> bool" where
  "in_field s lo hi n \<longleftrightarrow> (\<exists>p \<in> set (split_on CHR '','' s). in_part p lo hi n)"

definition cron_spec :: "string \<Rightarrow> wall \<Rightarrow> bool" where
  "cron_spec expr t \<longleftrightarrow> (\<exists>mi ho dm mo dw. CC_Prelude.fields expr = [mi, ho, dm, mo, dw] \<and>
     in_field mi 0 59 (wl_minute t) \<and> in_field ho 0 23 (wl_hour t) \<and> in_field mo 1 12 (wl_month t) \<and>
     (let dom = in_field dm 1 31 (wl_day t);
          dow = in_field dw 0 7 (wl_weekday t) \<or> (wl_weekday t = 0 \<and> in_field dw 0 7 7)
      in (dm = ''*'' \<or> dw = ''*'' \<or> dom \<or> dow) \<and> (dm \<noteq> ''*'' \<and> dw = ''*'' \<longrightarrow> dom) \<and>
         (dm = ''*'' \<and> dw \<noteq> ''*'' \<longrightarrow> dow)))"

section \<open>Compiled fields\<close>

lemma has_bit: "has f n \<longleftrightarrow> bit f (nat n)"
  by (simp add: has_def bit_iff_and_push_bit_not_eq_0)

lemma has_0 [simp]: "\<not> has 0 n"
  by (simp add: has_bit)

lemma bit_shift: "bit (push_bit i 1 :: 64 word) j \<longleftrightarrow> i < 64 \<and> j = i"
  by (auto simp: bit_exp_iff possible_bit_word)

lemma has_set:
  assumes "0 \<le> m" "m < 64" "0 \<le> n"
  shows "has (f OR push_bit (nat m) 1) n \<longleftrightarrow> has f n \<or> n = m"
  using assms unfolding has_bit bit_or_iff bit_shift by auto

lemma step_no_wrap:
  assumes "0 \<le> n" "n < 64" "in_i64 k" "n < i64 (n + k)"
  shows "i64 (n + k) = n + k"
proof (rule ccontr)
  assume "i64 (n + k) \<noteq> n + k"
  then have "\<not> in_i64 (n + k)" using i64_id by blast
  then have "2 ^ 63 \<le> n + k" "n + k < 2 ^ 63 + 64"
    using assms(1-3) by (auto simp: in_i64_def int64_min_def int64_max_def)
  moreover have "n + k + 2 ^ 63 = (n + k - 2 ^ 63) + 2 ^ 64" by simp
  ultimately have "(n + k + 2 ^ 63) mod 2 ^ 64 = n + k - 2 ^ 63"
    by (simp only: mod_add_self2) (rule mod_pos_pos_trivial, simp_all)
  then have "i64 (n + k) = n + k - 2 ^ 64" by (simp add: i64_def)
  then show False using assms(1,2,4) \<open>n + k < 2 ^ 63 + 64\<close> by simp
qed

lemma step_members:
  assumes "(0 :: int) < k"
  shows "x = n \<or> (n + k \<le> x \<and> k dvd (x - (n + k))) \<longleftrightarrow> n \<le> x \<and> k dvd (x - n)"
proof -
  have "k dvd (x - (n + k)) \<longleftrightarrow> k dvd (x - n)" by (metis diff_diff_eq dvd_refl dvd_diff_right_iff dvd_diff_left_iff)
  moreover have "x = n \<or> n + k \<le> x" if "n \<le> x" "k dvd (x - n)"
    using zdvd_imp_le[OF that(2)] that(1) by force
  ultimately show ?thesis using assms by auto
qed

lemma part_loop_Inr:
  "part_loop n fin k f = Inr f' \<Longrightarrow> 0 \<le> n \<Longrightarrow> fin < 64 \<Longrightarrow> 0 < k \<Longrightarrow> in_i64 k \<Longrightarrow> 0 \<le> x \<Longrightarrow>
   has f' x \<longleftrightarrow> has f x \<or> (n \<le> x \<and> x \<le> fin \<and> k dvd (x - n))"
proof (induction n fin k f rule: part_loop.induct)
  case (1 n fin k f)
  show ?case
  proof (cases "n \<le> fin")
    case False
    then show ?thesis using "1.prems"(1) by (auto simp: part_loop.simps)
  next
    case True
    let ?n' = "i64 (n + k)" and ?f = "f OR push_bit (nat n) 1"
    have run: "n < ?n'" "part_loop ?n' fin k ?f = Inr f'"
      using "1.prems"(1) True part_loop.simps[of n fin k f] by (auto simp: Let_def split: if_splits)
    have e: "?n' = n + k" using step_no_wrap "1.prems" True run(1) by simp
    have "has f' x \<longleftrightarrow> has ?f x \<or> (?n' \<le> x \<and> x \<le> fin \<and> k dvd (x - ?n'))"
      using "1.IH"[OF True refl refl] run "1.prems" by simp
    moreover have "has ?f x \<longleftrightarrow> has f x \<or> x = n" using "1.prems" True by (intro has_set) auto
    ultimately show ?thesis using step_members[OF "1.prems"(4), of x n] True unfolding e by auto
  qed
qed

lemma atoi_range: "atoi s = Some n \<Longrightarrow> in_i64 n"
  by (auto simp: atoi_def Let_def split: option.splits if_splits)

lemma part_step_pos: "part_step s = Some (r, k) \<Longrightarrow> 0 < k \<and> in_i64 k"
  by (auto simp: part_step_def in_i64_def int64_min_def int64_max_def
      split: option.splits prod.splits if_splits dest: atoi_range)

lemma parsePart_Inr:
  assumes "parsePart s lo hi f = Inr f'" "0 \<le> lo" "hi < 64" "0 \<le> x"
  shows "has f' x \<longleftrightarrow> has f x \<or> in_part s lo hi x"
proof -
  obtain r k where rk: "part_step s = Some (r, k)"
    using assms(1) by (auto simp: parsePart_def split: option.splits)
  obtain a b where ab: "part_range r lo hi = Some (a, b)"
    using assms(1) rk by (auto simp: parsePart_def split: option.splits)
  have c: "lo \<le> a" "b \<le> hi" "part_loop a b k f = Inr f'"
    using assms(1) rk ab by (auto simp: parsePart_def split: if_splits)
  show ?thesis
    using part_loop_Inr[OF c(3), of x] part_step_pos[OF rk] c(1,2) assms(2-4) rk ab by (auto simp: in_part_def)
qed

lemma field_loop_Inr:
  assumes "field_loop ps lo hi f = Inr f'" "0 \<le> lo" "hi < 64" "0 \<le> x"
  shows "has f' x \<longleftrightarrow> has f x \<or> (\<exists>p \<in> set ps. in_part p lo hi x)"
  using assms(1)
proof (induction ps arbitrary: f)
  case (Cons p ps)
  then obtain f1 where f1: "parsePart p lo hi f = Inr f1" "field_loop ps lo hi f1 = Inr f'"
    by (auto split: sum.splits)
  show ?case using Cons.IH[OF f1(2)] parsePart_Inr[OF f1(1) assms(2-4)] by auto
qed simp

lemma parseField_Inr:
  "parseField s lo hi = Inr f \<Longrightarrow> 0 \<le> lo \<Longrightarrow> hi < 64 \<Longrightarrow> 0 \<le> x \<Longrightarrow> has f x \<longleftrightarrow> in_field s lo hi x"
  using field_loop_Inr[of "split_on CHR '','' s" lo hi 0 f x] by (simp add: parseField_def in_field_def)

lemma fold_sunday_has:
  assumes "0 \<le> x" "x < 7"
  shows "has (fold_sunday f) x \<longleftrightarrow> has f x \<or> (x = 0 \<and> has f 7)"
proof (cases "has f 7")
  case True
  have "bit (NOT (push_bit 7 1) :: 64 word) (nat x)"
    using assms by (simp only: bit_not_iff bit_shift possible_bit_word) auto
  moreover have "bit (push_bit 0 1 :: 64 word) (nat x) \<longleftrightarrow> x = 0"
    using assms by (simp only: bit_shift) auto
  ultimately show ?thesis using True by (auto simp: fold_sunday_def has_bit bit_and_iff bit_or_iff)
next
  case False
  then show ?thesis by (auto simp: fold_sunday_def)
qed

definition wall_ok :: "wall \<Rightarrow> bool" where
  "wall_ok t \<longleftrightarrow> 0 \<le> wl_minute t \<and> 0 \<le> wl_hour t \<and> 0 \<le> wl_day t \<and> 0 \<le> wl_month t \<and>
     0 \<le> wl_weekday t \<and> wl_weekday t < 7"

lemma wall_of_ok: "wall_ok (wall_of t)"
proof -
  obtain y m d where ymd: "date_of t = (y, m, d)" by (cases "date_of t")
  obtain h mi s where hms: "clock t = (h, mi, s)" by (cases "clock t")
  show ?thesis
    using civil_correct(2,4)[OF ymd[unfolded date_of_def]] clock_bounds[OF hms]
    by (simp add: wall_ok_def wall_of_def ymd hms)
qed

section \<open>Properties\<close>

text \<open>
  C31. The compiled schedule means what the expression says: whenever a cron expression compiles, the
  bit-set matcher accepts a wall-clock minute if and only if the reference meaning does (lists, ranges and
  steps as sets of numbers, Sunday as 0 or 7, and day-of-month or day-of-week when both are restricted).
\<close>

theorem cron_compiles_correctly:
  assumes "parseCron expr = Inr c"
  shows "cron_matches c (wall_of t) \<longleftrightarrow> cron_spec expr (wall_of t)"
proof -
  obtain mi ho dm mo dw where parts: "CC_Prelude.fields expr = [mi, ho, dm, mo, dw]"
    using assms by (auto simp: parseCron_def split: list.splits)
  obtain fmi fho fdm fmo fdw where f: "parseField mi 0 59 = Inr fmi" "parseField ho 0 23 = Inr fho"
      "parseField dm 1 31 = Inr fdm" "parseField mo 1 12 = Inr fmo" "parseField dw 0 7 = Inr fdw"
      "c = \<lparr>cs_min = fmi, cs_hour = fho, cs_dom = fdm, cs_month = fmo, cs_dow = fold_sunday fdw,
            cs_domStar = (dm = ''*''), cs_dowStar = (dw = ''*'')\<rparr>"
    using assms by (auto simp: parseCron_def parts split: sum.splits)
  let ?w = "wall_of t"
  have ok: "0 \<le> wl_minute ?w" "0 \<le> wl_hour ?w" "0 \<le> wl_day ?w" "0 \<le> wl_month ?w"
      "0 \<le> wl_weekday ?w" "wl_weekday ?w < 7"
    using wall_of_ok[of t] by (simp_all add: wall_ok_def)
  have "has fmi (wl_minute ?w) \<longleftrightarrow> in_field mi 0 59 (wl_minute ?w)"
    "has fho (wl_hour ?w) \<longleftrightarrow> in_field ho 0 23 (wl_hour ?w)"
    "has fdm (wl_day ?w) \<longleftrightarrow> in_field dm 1 31 (wl_day ?w)"
    "has fmo (wl_month ?w) \<longleftrightarrow> in_field mo 1 12 (wl_month ?w)"
    "has (fold_sunday fdw) (wl_weekday ?w) \<longleftrightarrow>
      in_field dw 0 7 (wl_weekday ?w) \<or> (wl_weekday ?w = 0 \<and> in_field dw 0 7 7)"
    using parseField_Inr[OF f(1)] parseField_Inr[OF f(2)] parseField_Inr[OF f(3)] parseField_Inr[OF f(4)]
      parseField_Inr[OF f(5)] fold_sunday_has[of "wl_weekday ?w" fdw] ok by auto
  then show ?thesis
    unfolding cron_matches_def cron_spec_def parts f(6) by (auto simp: Let_def)
qed

theorem cron_compiles_correctly_witness:
  "\<exists>c. parseCron ''*/15 9-17 * * 1-5'' = Inr c \<and>
     (cron_matches c (wall_of 0) \<longleftrightarrow> cron_spec ''*/15 9-17 * * 1-5'' (wall_of 0))"
proof -
  have "case parseCron ''*/15 9-17 * * 1-5'' of Inr _ \<Rightarrow> True | Inl _ \<Rightarrow> False" by code_simp
  then obtain c where "parseCron ''*/15 9-17 * * 1-5'' = Inr c" by (auto split: sum.splits)
  then show ?thesis using cron_compiles_correctly by blast
qed

text \<open>
  A huge step makes the compiler panic instead of reporting an error: the loop variable wraps
  to a negative number, which is still below the end of the range, and shifting by it panics.
\<close>

lemma cron_step_panics: "parseCron ''0 0 */9223372036854775807 * *'' = Inl CronPanic"
  by code_simp

end
