(* ===== verification/Jobs.thy ===== *)
theory Jobs
  imports Complex_Main Policy_Laws Jobs_Cron
begin

text \<open>
  \<^verbatim>\<open>internal/core/jobs\<close>: the durable job queue (\<^verbatim>\<open>jobs.go\<close>, \<^verbatim>\<open>queue.go\<close>, \<^verbatim>\<open>enqueue.go\<close>,
  the scheduling half of \<^verbatim>\<open>cron.go\<close>, \<^verbatim>\<open>worker.go\<close>, \<^verbatim>\<open>retention.go\<close>, \<^verbatim>\<open>scoped.go\<close>). The record
  \<open>job_db\<close> extends the tables of policy and of the event log with the three tables of the
  module. A \<open>queue\<close> holds what a process keeps in memory: its options and the registered definitions.

  Every transaction of the code is one definition, so that two processes interleave
  transaction by transaction; where an operation reads outside its transaction (\<^verbatim>\<open>finish\<close>), the row it
  read is an argument. A handler error is the record of what \<^verbatim>\<open>errors.Is\<close> and \<^verbatim>\<open>errors.As\<close> see of it.

  Parameters, collected in \<open>job_env\<close>: the time-zone database, SHA-256 and the texts of floats and
  durations in event payloads.
\<close>

section \<open>Data\<close>

datatype job_state =
    StatePending | StateRunning | StateRetryWait | StateSucceeded | StateFailed | StateDead
  | StateCancelRequested | StateCancelled

definition Terminal :: "job_state \<Rightarrow> bool" where
  "Terminal s \<longleftrightarrow> s = StateSucceeded \<or> s = StateFailed \<or> s = StateDead \<or> s = StateCancelled"

definition active :: "job_state \<Rightarrow> bool" where
  \<comment> \<open>\<^verbatim>\<open>state IN ('running', 'cancel_requested')\<close>\<close>
  "active s \<longleftrightarrow> s = StateRunning \<or> s = StateCancelRequested"

definition open_state :: "job_state \<Rightarrow> bool" where
  \<comment> \<open>\<^verbatim>\<open>state IN ('pending','running','retry_wait','cancel_requested')\<close>\<close>
  "open_state s \<longleftrightarrow> s = StatePending \<or> s = StateRunning \<or> s = StateRetryWait \<or> s = StateCancelRequested"

lemma open_not_terminal: "open_state s \<longleftrightarrow> \<not> Terminal s"
  by (cases s) (simp_all add: open_state_def Terminal_def)

datatype go_float = NaN | NegInf | PosInf | Fin rat

record job_row =
  jr_id :: int
  jr_plugin :: string
  jr_name :: string
  jr_args :: string
  jr_state :: job_state
  jr_attempt :: int
  jr_max_attempts :: int
  jr_concurrency :: int
  jr_priority :: int
  jr_key :: "string option"
  jr_run_at :: string
  jr_next_retry :: "string option"
  jr_owner :: string
  jr_lease :: "string option"
  jr_fence :: int
  jr_cancel_reason :: string
  jr_started :: "string option"
  jr_finished :: "string option"
  jr_progress :: rat
  jr_message :: string
  jr_last_error :: string
  jr_error_class :: string
  jr_created :: string

record log_row =
  lg_id :: int
  lg_job :: int
  lg_attempt :: int
  lg_fence :: int
  lg_at :: string
  lg_line :: string

record sched_row =
  sc_plugin :: string
  sc_name :: string
  sc_tz :: string
  sc_last :: string
  sc_updated :: string

record job_db = policy_db +
  jb_jobs :: "job_row list"
  jb_seq :: int
  jb_logs :: "log_row list"
  jb_log_seq :: int
  jb_schedules :: "sched_row list"

record backoff =
  bo_initial :: duration
  bo_maximum :: duration

record job_def =
  df_name :: string
  df_handler :: bool \<comment> \<open>a handler is set\<close>
  df_schedule :: string
  df_tz :: string
  df_timeout :: duration
  df_max_attempts :: int
  df_backoff :: backoff
  df_concurrency :: int

record job_env =
  je_tz :: "string \<Rightarrow> (time \<Rightarrow> duration) option" \<comment> \<open>\<^verbatim>\<open>time.LoadLocation\<close>: the UTC offset at a time\<close>
  je_sha :: "string \<Rightarrow> string" \<comment> \<open>hex of SHA-256\<close>
  je_float :: "rat \<Rightarrow> json" \<comment> \<open>a float in a payload\<close>
  je_dur :: "duration \<Rightarrow> string" \<comment> \<open>\<^verbatim>\<open>Duration.String\<close>\<close>

record queue =
  qu_owner :: string
  qu_ttl :: duration
  qu_retention :: duration
  qu_gap :: duration
  qu_defs :: "string \<rightharpoonup> job_def"

datatype job_error =
    ErrUnknownJob | ErrUnknownDef | ErrInvalidName | ErrInvalidSchedule | ErrNoHandler | ErrBackoff
  | ErrLostLease | ErrAlreadyTerminal | ErrNotCancellable | ErrPluginMismatch | ErrArgsTooLarge
  | ErrArgsMarshal | ErrSkip | ErrJobSQL | ErrJobEvents events_error | ErrGate policy_error

type_synonym ('a, 'x) jtx = "'a job_db_scheme \<Rightarrow> (job_error + 'x) \<times> 'a job_db_scheme"

section \<open>Definitions of jobs\<close>

definition defKey :: "string \<Rightarrow> string \<Rightarrow> string" where
  "defKey p n = p @ [CHR 0x00] @ n"

definition splitDefKey :: "string \<Rightarrow> string \<times> string" where
  "splitDefKey k = (case cut (CHR 0x00) k of None \<Rightarrow> (k, []) | Some (a, b) \<Rightarrow> (a, b))"

definition validName :: "string \<Rightarrow> bool" where
  "validName s = (case s of [] \<Rightarrow> False
     | c # cs \<Rightarrow> length s \<le> 64 \<and> is_lower c \<and> list_all (\<lambda>c. is_lower c \<or> is_digit c \<or> c = CHR ''_'') cs)"

definition def_defaults :: "job_def \<Rightarrow> job_def" where
  "def_defaults df =
     (let d1 = (if df_timeout df \<le> 0 then df\<lparr>df_timeout := seconds 1800\<rparr> else df);
          d2 = (if df_max_attempts d1 \<le> 0 then d1\<lparr>df_max_attempts := 3\<rparr> else d1);
          d3 = (if df_concurrency d2 \<le> 0 then d2\<lparr>df_concurrency := 1\<rparr> else d2);
          b = df_backoff d3;
          b1 = (if bo_initial b \<le> 0 then b\<lparr>bo_initial := seconds 1\<rparr> else b);
          b2 = (if bo_maximum b1 \<le> 0 then b1\<lparr>bo_maximum := seconds 300\<rparr> else b1)
      in d3\<lparr>df_backoff := b2\<rparr>)"

definition queue_Register :: "job_env \<Rightarrow> string \<Rightarrow> job_def \<Rightarrow> queue \<Rightarrow> job_error + queue" where
  "queue_Register env p df q =
     (if \<not> validName p then Inl ErrInvalidName
      else if \<not> validName (df_name df) then Inl ErrInvalidName
      else if \<not> df_handler df then Inl ErrNoHandler
      else
        (let d = def_defaults df in
         if bo_maximum (df_backoff d) < bo_initial (df_backoff d) then Inl ErrBackoff
         else if df_schedule d \<noteq> [] \<and> df_tz d = [] then Inl ErrInvalidSchedule
         else if df_schedule d \<noteq> [] \<and> je_tz env (df_tz d) = None then Inl ErrInvalidSchedule
         else if df_schedule d \<noteq> [] \<and> (case parseCron (df_schedule d) of Inl _ \<Rightarrow> True | Inr _ \<Rightarrow> False)
           then Inl ErrInvalidSchedule
         else Inr (q\<lparr>qu_defs := (qu_defs q)(defKey p (df_name d) \<mapsto> d)\<rparr>)))"

definition UnregisterAll :: "string \<Rightarrow> queue \<Rightarrow> queue" where
  "UnregisterAll p q =
     q\<lparr>qu_defs := (\<lambda>k. if has_prefix k (defKey p []) then None else qu_defs q k)\<rparr>"

definition lookupDef :: "string \<Rightarrow> string \<Rightarrow> queue \<Rightarrow> job_def option" where
  "lookupDef p n q = qu_defs q (defKey p n)"

definition backoff_delay :: "backoff \<Rightarrow> int \<Rightarrow> duration" where
  "backoff_delay b attempt = double_loop (nat (attempt - 1)) (bo_initial b) (bo_maximum b)"

section \<open>Enqueueing and cancelling\<close>

definition job_event :: "string \<Rightarrow> job_row \<Rightarrow> (string \<times> json) list \<Rightarrow> input" where
  "job_event ty j extra = \<lparr>in_type = ty, in_source = ''core.jobs'', in_subject = show_int (jr_id j),
     in_payload = Payload (JObj ([(''jobId'', JNum (jr_id j)), (''plugin'', JStr (jr_plugin j)),
       (''name'', JStr (jr_name j))] @ extra))\<rparr>"

definition publishJob :: "time \<Rightarrow> string \<Rightarrow> job_row \<Rightarrow> (string \<times> json) list \<Rightarrow> ('a, unit) jtx" where
  "publishJob now ty j extra d =
     (case PublishTx now (job_event ty j extra) d of
        (Inl e, d1) \<Rightarrow> (Inl (ErrJobEvents e), d1) | (Inr _, d1) \<Rightarrow> (Inr (), d1))"

definition marshalArgs :: "payload \<Rightarrow> job_error + string" where
  "marshalArgs a =
     (case a of NoPayload \<Rightarrow> Inr ''null''
      | Unmarshalable \<Rightarrow> Inl ErrArgsMarshal
      | Payload j \<Rightarrow>
          (let b = json_marshal j in if 262144 < int (length b) then Inl ErrArgsTooLarge else Inr b))"

record enqueue_opts =
  eo_run_at :: "time option"
  eo_key :: string
  eo_priority :: int

definition same_key :: "string \<Rightarrow> string \<Rightarrow> string \<Rightarrow> job_row \<Rightarrow> bool" where
  "same_key p n k j \<longleftrightarrow> jr_plugin j = p \<and> jr_name j = n \<and> jr_key j = Some k \<and> open_state (jr_state j)"

definition new_job :: "time \<Rightarrow> string \<Rightarrow> job_def \<Rightarrow> string \<Rightarrow> enqueue_opts \<Rightarrow> int \<Rightarrow> job_row" where
  "new_job now p df args o1 n = \<lparr>jr_id = n, jr_plugin = p, jr_name = df_name df, jr_args = args,
     jr_state = StatePending, jr_attempt = 0, jr_max_attempts = df_max_attempts df,
     jr_concurrency = df_concurrency df, jr_priority = eo_priority o1,
     jr_key = (if eo_key o1 = [] then None else Some (eo_key o1)),
     jr_run_at = rfc (case eo_run_at o1 of Some t \<Rightarrow> t | None \<Rightarrow> now), jr_next_retry = None,
     jr_owner = [], jr_lease = None, jr_fence = 0, jr_cancel_reason = [], jr_started = None,
     jr_finished = None, jr_progress = 0, jr_message = [], jr_last_error = [], jr_error_class = [],
     jr_created = rfc now\<rparr>"

definition enqueueTx ::
  "job_env \<Rightarrow> time \<Rightarrow> string \<Rightarrow> job_def \<Rightarrow> string \<Rightarrow> enqueue_opts \<Rightarrow> ('a, int) jtx" where
  "enqueueTx env now p df args o1 d =
     (case (if eo_key o1 = [] then None else sql_find (same_key p (df_name df) (eo_key o1)) (jb_jobs d)) of
        Some j \<Rightarrow> (Inr (jr_id j), d)
      | None \<Rightarrow>
          (let n = jb_seq d + 1; j = new_job now p df args o1 n;
               d1 = d\<lparr>jb_seq := n, jb_jobs := jb_jobs d @ [j]\<rparr>
           in case publishJob now ''core.job.enqueued'' j [(''argsDigest'', JStr (je_sha env args))] d1 of
                (Inl e, d2) \<Rightarrow> (Inl e, d2) | (Inr _, d2) \<Rightarrow> (Inr n, d2)))"

definition Enqueue ::
  "job_env \<Rightarrow> time \<Rightarrow> queue \<Rightarrow> string \<Rightarrow> string \<Rightarrow> payload \<Rightarrow> enqueue_opts \<Rightarrow> ('a, int) jtx" where
  "Enqueue env now q p name args o1 d =
     (case lookupDef p name q of
        None \<Rightarrow> (Inl ErrUnknownDef, d)
      | Some df \<Rightarrow>
          (case marshalArgs args of
             Inl e \<Rightarrow> (Inl e, d)
           | Inr b \<Rightarrow> run_tx (\<lambda>d. case CheckWorkTx p d of
                 Inl e \<Rightarrow> (Inl (ErrGate e), d)
               | Inr _ \<Rightarrow> enqueueTx env now p df b o1 d) d))"

definition by_id :: "int \<Rightarrow> job_row \<Rightarrow> bool" where
  "by_id n j \<longleftrightarrow> jr_id j = n"

definition readJob :: "int \<Rightarrow> 'a job_db_scheme \<Rightarrow> job_error + job_row" where
  "readJob n d = (case sql_find (by_id n) (jb_jobs d) of None \<Rightarrow> Inl ErrUnknownJob | Some j \<Rightarrow> Inr j)"

definition job_cancel :: "time \<Rightarrow> int \<Rightarrow> string \<Rightarrow> string \<Rightarrow> ('a, unit) jtx" where
  \<comment> \<open>\<^verbatim>\<open>Queue.cancel\<close>; the last string is the plugin the job must belong to, if any\<close>
  "job_cancel now n reason require = run_tx (\<lambda>d.
     case readJob n d of
       Inl e \<Rightarrow> (Inl e, d)
     | Inr j \<Rightarrow>
         if require \<noteq> [] \<and> jr_plugin j \<noteq> require then (Inl ErrPluginMismatch, d)
         else if Terminal (jr_state j) then
           (if jr_state j = StateCancelled then (Inr (), d) else (Inl ErrAlreadyTerminal, d))
         else if jr_state j = StatePending \<or> jr_state j = StateRetryWait then
           publishJob now ''core.job.cancelled'' j
             [(''attempt'', JNum (jr_attempt j)), (''reason'', JStr reason)]
             (d\<lparr>jb_jobs := sql_update (by_id n)
                 (\<lambda>j. j\<lparr>jr_state := StateCancelled, jr_cancel_reason := reason, jr_finished := Some (rfc now)\<rparr>)
                 (jb_jobs d)\<rparr>)
         else
           (Inr (), d\<lparr>jb_jobs := sql_update (by_id n)
               (\<lambda>j. j\<lparr>jr_state := StateCancelRequested, jr_cancel_reason := reason\<rparr>) (jb_jobs d)\<rparr>))"

definition scoped_Cancel :: "time \<Rightarrow> string \<Rightarrow> int \<Rightarrow> ('a, unit) jtx" where
  "scoped_Cancel now p n = job_cancel now n ''user'' p"

record job_filter =
  jf_plugin :: string
  jf_name :: string
  jf_state :: "job_state option"
  jf_limit :: int

definition job_List :: "job_filter \<Rightarrow> 'a job_db_scheme \<Rightarrow> job_row list" where
  "job_List f d =
     (let limit = (if jf_limit f \<le> 0 \<or> 500 < jf_limit f then 100 else jf_limit f)
      in take (nat limit) (sort_key (\<lambda>j. - jr_id j) (filter (\<lambda>j.
           (jf_plugin f \<noteq> [] \<longrightarrow> jr_plugin j = jf_plugin f) \<and> (jf_name f \<noteq> [] \<longrightarrow> jr_name j = jf_name f) \<and>
           (case jf_state f of None \<Rightarrow> True | Some s \<Rightarrow> jr_state j = s)) (jb_jobs d))))"

definition job_logs :: "int \<Rightarrow> nat \<Rightarrow> 'a job_db_scheme \<Rightarrow> log_row list" where
  "job_logs n limit d = take limit (sort_key lg_id (filter (\<lambda>l. lg_job l = n) (jb_logs d)))"

definition job_Get :: "int \<Rightarrow> 'a job_db_scheme \<Rightarrow> job_error + (job_row \<times> log_row list)" where
  "job_Get n d = (case readJob n d of Inl e \<Rightarrow> Inl e | Inr j \<Rightarrow> Inr (j, job_logs n 1000 d))"

definition scoped_Get :: "string \<Rightarrow> int \<Rightarrow> 'a job_db_scheme \<Rightarrow> job_error + (job_row \<times> log_row list)" where
  "scoped_Get p n d = (case job_Get n d of Inl e \<Rightarrow> Inl e
     | Inr (j, ls) \<Rightarrow> if jr_plugin j \<noteq> p then Inl ErrPluginMismatch else Inr (j, ls))"

definition scoped_List :: "string \<Rightarrow> job_filter \<Rightarrow> 'a job_db_scheme \<Rightarrow> job_row list" where
  "scoped_List p f d = job_List (f\<lparr>jf_plugin := p\<rparr>) d"

end
