(* ===== verification/Jobs_Worker.thy ===== *)
theory Jobs_Worker
  imports Jobs
begin

text \<open>
  The worker half of \<^verbatim>\<open>internal/core/jobs\<close>: claiming (\<^verbatim>\<open>claimOne\<close>, \<^verbatim>\<open>claimUntilEmpty\<close>), finishing an
  attempt (\<^verbatim>\<open>finish\<close>, \<^verbatim>\<open>finishSucceeded\<close>, \<^verbatim>\<open>finishCancelled\<close>, \<^verbatim>\<open>failAttempt\<close>), the handler's
  own writes (\<^verbatim>\<open>Progress\<close>, \<^verbatim>\<open>flushLogs\<close>, the heartbeat), schedules and retention.
\<close>

section \<open>Ending a job\<close>

record handler_err =
  he_msg :: string
  he_permanent :: bool
  he_retry_after :: "duration option"
  he_panic :: bool
  he_deadline :: bool
  he_canceled :: bool
  he_lost :: bool

definition fenceCancel :: "time \<Rightarrow> job_row \<Rightarrow> string \<Rightarrow> ('a, unit) jtx" where
  "fenceCancel now j reason d =
     publishJob now ''core.job.cancelled'' j [(''attempt'', JNum (jr_attempt j)), (''reason'', JStr reason)]
       (d\<lparr>jb_jobs := sql_update (by_id (jr_id j))
           (\<lambda>j. j\<lparr>jr_state := StateCancelled, jr_cancel_reason := reason, jr_finished := Some (rfc now),
                  jr_owner := [], jr_lease := None\<rparr>) (jb_jobs d)\<rparr>)"

definition owned :: "int \<Rightarrow> string \<Rightarrow> int \<Rightarrow> job_row \<Rightarrow> bool" where
  \<comment> \<open>\<^verbatim>\<open>id = ? AND lease_owner = ? AND fence_generation = ? AND state IN ('running', 'cancel_requested')\<close>\<close>
  "owned n owner fence j \<longleftrightarrow> jr_id j = n \<and> jr_owner j = owner \<and> jr_fence j = fence \<and> active (jr_state j)"

definition owned_update ::
  "int \<Rightarrow> string \<Rightarrow> int \<Rightarrow> (job_row \<Rightarrow> job_row) \<Rightarrow> ('a, unit) jtx" where
  \<comment> \<open>the fenced \<^verbatim>\<open>UPDATE\<close> every owner write uses: anything but one affected row is a lost lease\<close>
  "owned_update n owner fence f d =
     (if sql_count (owned n owner fence) (jb_jobs d) \<noteq> 1 then (Inl ErrLostLease, d)
      else (Inr (), d\<lparr>jb_jobs := sql_update (owned n owner fence) f (jb_jobs d)\<rparr>))"

definition fenceCancelOwned :: "time \<Rightarrow> job_row \<Rightarrow> string \<Rightarrow> int \<Rightarrow> string \<Rightarrow> ('a, unit) jtx" where
  "fenceCancelOwned now j owner fence reason d =
     (case owned_update (jr_id j) owner fence
             (\<lambda>j. j\<lparr>jr_state := StateCancelled, jr_cancel_reason := reason, jr_finished := Some (rfc now),
                    jr_owner := [], jr_lease := None\<rparr>) d of
        (Inl e, d1) \<Rightarrow> (Inl e, d1)
      | (Inr _, d1) \<Rightarrow> publishJob now ''core.job.cancelled'' j
          [(''attempt'', JNum (jr_attempt j)), (''reason'', JStr reason)] d1)"

definition finishCancelled :: "time \<Rightarrow> job_row \<Rightarrow> string \<Rightarrow> int \<Rightarrow> string \<Rightarrow> ('a, unit) jtx" where
  "finishCancelled now j owner fence reason =
     run_tx (fenceCancelOwned now j owner fence (if reason = [] then ''user'' else reason))"

definition fenceDead :: "time \<Rightarrow> job_row \<Rightarrow> string \<Rightarrow> string \<Rightarrow> ('a, unit) jtx" where
  "fenceDead now j msg class d =
     (case publishJob now ''core.job.failed'' j
             [(''attempt'', JNum (jr_attempt j)), (''errorClass'', JStr class)]
             (d\<lparr>jb_jobs := sql_update (by_id (jr_id j))
                 (\<lambda>j. j\<lparr>jr_state := StateDead, jr_last_error := msg, jr_error_class := class,
                        jr_finished := Some (rfc now), jr_owner := [], jr_lease := None\<rparr>) (jb_jobs d)\<rparr>) of
        (Inl e, d1) \<Rightarrow> (Inl e, d1)
      | (Inr _, d1) \<Rightarrow> publishJob now ''core.job.dead'' j
          [(''attempts'', JNum (jr_attempt j)), (''lastError'', JStr msg)] d1)"

definition finishSucceeded :: "job_env \<Rightarrow> time \<Rightarrow> job_row \<Rightarrow> string \<Rightarrow> int \<Rightarrow> ('a, unit) jtx" where
  "finishSucceeded env now j owner fence =
     (let started = (case jr_started j of None \<Rightarrow> 0
                     | Some s \<Rightarrow> (case parse_time s of None \<Rightarrow> 0 | Some t \<Rightarrow> t))
      in run_tx (\<lambda>d.
        case owned_update (jr_id j) owner fence
               (\<lambda>j. j\<lparr>jr_state := StateSucceeded, jr_finished := Some (rfc now), jr_progress := 1,
                      jr_owner := [], jr_lease := None\<rparr>) d of
          (Inl e, d1) \<Rightarrow> (Inl e, d1)
        | (Inr _, d1) \<Rightarrow> publishJob now ''core.job.succeeded'' j
            [(''attempt'', JNum (jr_attempt j)), (''duration'', JStr (je_dur env (now - started)))] d1))"

definition err_class :: "handler_err \<Rightarrow> string" where
  "err_class h =
     (if he_panic h then ''panic'' else if he_deadline h then ''timeout''
      else if he_permanent h then ''permanent'' else ''error'')"

definition zero_backoff :: backoff where
  "zero_backoff = \<lparr>bo_initial = 0, bo_maximum = 0\<rparr>"

definition failAttempt ::
  "time \<Rightarrow> queue \<Rightarrow> job_row \<Rightarrow> string \<Rightarrow> int \<Rightarrow> handler_err \<Rightarrow> ('a, unit) jtx" where
  "failAttempt now q j owner fence h =
     (let class = err_class h;
          b = (case lookupDef (jr_plugin j) (jr_name j) q of None \<Rightarrow> zero_backoff | Some df \<Rightarrow> df_backoff df);
          retry = (case he_retry_after h of
                     None \<Rightarrow> \<not> he_permanent h \<and> jr_attempt j < jr_max_attempts j
                   | Some _ \<Rightarrow> jr_attempt j < jr_max_attempts j);
          delay = (case he_retry_after h of None \<Rightarrow> backoff_delay b (jr_attempt j) | Some x \<Rightarrow> x)
      in run_tx (\<lambda>d.
        if retry then
          (case owned_update (jr_id j) owner fence
                  (\<lambda>j. j\<lparr>jr_state := StateRetryWait, jr_next_retry := Some (rfc (now + delay)),
                         jr_last_error := he_msg h, jr_error_class := class,
                         jr_owner := [], jr_lease := None\<rparr>) d of
             (Inl e, d1) \<Rightarrow> (Inl e, d1)
           | (Inr _, d1) \<Rightarrow> publishJob now ''core.job.failed'' j
               [(''attempt'', JNum (jr_attempt j)), (''errorClass'', JStr class)] d1)
        else
          (let state = (if he_permanent h then StateFailed else StateDead) in
           case owned_update (jr_id j) owner fence
                  (\<lambda>j. j\<lparr>jr_state := state, jr_last_error := he_msg h, jr_error_class := class,
                         jr_finished := Some (rfc now), jr_owner := [], jr_lease := None\<rparr>) d of
             (Inl e, d1) \<Rightarrow> (Inl e, d1)
           | (Inr _, d1) \<Rightarrow>
               (case publishJob now ''core.job.failed'' j
                       [(''attempt'', JNum (jr_attempt j)), (''errorClass'', JStr class)] d1 of
                  (Inl e, d2) \<Rightarrow> (Inl e, d2)
                | (Inr _, d2) \<Rightarrow>
                    if state = StateDead then
                      publishJob now ''core.job.dead'' j
                        [(''attempts'', JNum (jr_attempt j)), (''lastError'', JStr (he_msg h))] d2
                    else (Inr (), d2)))))"

section \<open>Claiming\<close>

definition due :: "string \<Rightarrow> job_row \<Rightarrow> bool" where
  "due nowS j \<longleftrightarrow>
     (jr_state j = StatePending \<and> jr_run_at j \<le> nowS) \<or>
     (jr_state j = StateRetryWait \<and> (case jr_next_retry j of None \<Rightarrow> False | Some s \<Rightarrow> s \<le> nowS)) \<or>
     (active (jr_state j) \<and> (case jr_lease j of None \<Rightarrow> False | Some s \<Rightarrow> s \<le> nowS))"

definition rivals :: "job_row \<Rightarrow> job_row list \<Rightarrow> nat" where
  "rivals j t = sql_count (\<lambda>r. jr_plugin r = jr_plugin j \<and> jr_name r = jr_name j \<and>
     active (jr_state r) \<and> jr_id r \<noteq> jr_id j) t"

definition slot_free :: "job_row \<Rightarrow> job_row list \<Rightarrow> bool" where
  "slot_free j t \<longleftrightarrow> int (rivals j t) < jr_concurrency j"

definition when_due :: "job_row \<Rightarrow> string" where
  "when_due j = (case jr_next_retry j of None \<Rightarrow> jr_run_at j | Some s \<Rightarrow> s)"

definition claim_before :: "job_row \<Rightarrow> job_row \<Rightarrow> bool" where
  \<comment> \<open>\<^verbatim>\<open>ORDER BY priority DESC, coalesce(next_retry_at, run_at) ASC, id ASC\<close>\<close>
  "claim_before a b \<longleftrightarrow> jr_priority b < jr_priority a \<or>
     (jr_priority a = jr_priority b \<and> (when_due a < when_due b \<or>
        (when_due a = when_due b \<and> jr_id a < jr_id b)))"

definition next_claim :: "string \<Rightarrow> job_row list \<Rightarrow> job_row option" where
  "next_claim nowS t = best_by claim_before (filter (\<lambda>j. due nowS j \<and> slot_free j t) t)"

datatype claim = ClRetry | ClDead | ClRun job_row

definition start_job :: "queue \<Rightarrow> time \<Rightarrow> job_row \<Rightarrow> job_row" where
  "start_job q now j = j\<lparr>jr_state := StateRunning, jr_attempt := jr_attempt j + 1, jr_fence := jr_fence j + 1,
     jr_owner := qu_owner q, jr_lease := Some (rfc (now + qu_ttl q)),
     jr_started := (case jr_started j of None \<Rightarrow> Some (rfc now) | Some s \<Rightarrow> Some s),
     jr_cancel_reason := [], jr_last_error := [], jr_error_class := []\<rparr>"

definition claimed_row :: "queue \<Rightarrow> job_row \<Rightarrow> job_row" where
  \<comment> \<open>what the worker keeps of the claimed row: the scanned columns with the four it sets\<close>
  "claimed_row q j = j\<lparr>jr_state := StateRunning, jr_attempt := jr_attempt j + 1, jr_fence := jr_fence j + 1,
     jr_owner := qu_owner q\<rparr>"

definition claim_tx :: "time \<Rightarrow> queue \<Rightarrow> ('a, claim) jtx" where
  "claim_tx now q d =
     (case next_claim (rfc now) (jb_jobs d) of
        None \<Rightarrow> (Inl ErrSkip, d)
      | Some j \<Rightarrow>
          if jr_state j = StateCancelRequested then
            (case fenceCancel now j (if jr_cancel_reason j = [] then ''user'' else jr_cancel_reason j) d of
               (Inl e, d1) \<Rightarrow> (Inl e, d1) | (Inr _, d1) \<Rightarrow> (Inr ClRetry, d1))
          else case CheckWorkTx (jr_plugin j) d of
                 Inl e \<Rightarrow>
                   if denies e then
                     (case fenceCancel now j ''plugin_disabled'' d of
                        (Inl e, d1) \<Rightarrow> (Inl e, d1) | (Inr _, d1) \<Rightarrow> (Inr ClRetry, d1))
                   else (Inl (ErrGate e), d)
               | Inr _ \<Rightarrow>
                   if jr_max_attempts j < jr_attempt j + 1 then
                     (case fenceDead now j ''lease expired with no attempts remaining'' ''error'' d of
                        (Inl e, d1) \<Rightarrow> (Inl e, d1) | (Inr _, d1) \<Rightarrow> (Inr ClDead, d1))
                   else if sql_count (by_id (jr_id j)) (jb_jobs d) \<noteq> 1 then (Inl ErrSkip, d)
                   else
                     (let j' = claimed_row q j;
                          d1 = d\<lparr>jb_jobs := sql_update (by_id (jr_id j)) (start_job q now) (jb_jobs d)\<rparr>
                      in case publishJob now ''core.job.started'' j'
                                [(''attempt'', JNum (jr_attempt j')), (''fenceGeneration'', JNum (jr_fence j'))] d1 of
                           (Inl e, d2) \<Rightarrow> (Inl e, d2) | (Inr _, d2) \<Rightarrow> (Inr (ClRun j'), d2)))"

definition zero_job :: job_row where
  "zero_job = \<lparr>jr_id = 0, jr_plugin = [], jr_name = [], jr_args = [], jr_state = StatePending, jr_attempt = 0,
     jr_max_attempts = 0, jr_concurrency = 0, jr_priority = 0, jr_key = None, jr_run_at = [],
     jr_next_retry = None, jr_owner = [], jr_lease = None, jr_fence = 0, jr_cancel_reason = [],
     jr_started = None, jr_finished = None, jr_progress = 0, jr_message = [], jr_last_error = [],
     jr_error_class = [], jr_created = []\<rparr>"

definition no_handler :: "job_row \<Rightarrow> handler_err" where
  "no_handler j = \<lparr>he_msg = ''no handler registered for '' @ jr_plugin j @ ''.'' @ jr_name j, he_permanent = True,
     he_retry_after = None, he_panic = False, he_deadline = False, he_canceled = False, he_lost = False\<rparr>"

definition claimOne ::
  "time \<Rightarrow> queue \<Rightarrow> 'a job_db_scheme \<Rightarrow> (job_error + bool) \<times> job_row option \<times> 'a job_db_scheme" where
  \<comment> \<open>the second component is the attempt whose handler is started, if any; after the dead branch the
     code goes on with a zero row, for which nothing is registered\<close>
  "claimOne now q d =
     (let go = (\<lambda>j owner d1.
        case lookupDef (jr_plugin j) (jr_name j) q of
          None \<Rightarrow> (Inr True, None, snd (failAttempt now q j owner (jr_fence j) (no_handler j) d1))
        | Some _ \<Rightarrow> (Inr True, Some j, d1))
      in case run_tx (claim_tx now q) d of
           (Inl ErrSkip, d1) \<Rightarrow> (Inr False, None, d1)
         | (Inl e, d1) \<Rightarrow> (Inl e, None, d1)
         | (Inr ClRetry, d1) \<Rightarrow> (Inr True, None, d1)
         | (Inr ClDead, d1) \<Rightarrow> go zero_job [] d1
         | (Inr (ClRun j), d1) \<Rightarrow> go j (qu_owner q) d1)"

fun claimUntilEmpty ::
  "nat \<Rightarrow> time \<Rightarrow> queue \<Rightarrow> 'a job_db_scheme \<Rightarrow> (job_row list \<times> 'a job_db_scheme) option" where
  \<comment> \<open>the loop with fuel, at a fixed clock; the list is the attempts started\<close>
  "claimUntilEmpty 0 now q d = None"
| "claimUntilEmpty (Suc n) now q d =
     (case claimOne now q d of
        (Inl e, _, d1) \<Rightarrow> Some ([], d1)
      | (Inr False, _, d1) \<Rightarrow> Some ([], d1)
      | (Inr True, js, d1) \<Rightarrow>
          (case claimUntilEmpty n now q d1 of
             None \<Rightarrow> None
           | Some (started, d2) \<Rightarrow> Some ((case js of None \<Rightarrow> [] | Some j \<Rightarrow> [j]) @ started, d2)))"

section \<open>Finishing an attempt\<close>

datatype finish_plan =
    PlanNone | PlanCancel string | PlanSucceed | PlanFail handler_err | PlanRecheck handler_err

definition plan_finish ::
  "string \<Rightarrow> int \<Rightarrow> handler_err option \<Rightarrow> bool \<Rightarrow> job_row \<Rightarrow> finish_plan" where
  \<comment> \<open>what \<^verbatim>\<open>finish\<close> decides from the row it read\<close>
  "plan_finish owner fence herr timedOut current =
     (if jr_state current = StateCancelRequested \<or>
         (jr_state current = StateRunning \<and> jr_cancel_reason current \<noteq> [])
      then PlanCancel (if jr_cancel_reason current = [] then ''user'' else jr_cancel_reason current)
      else if jr_owner current \<noteq> owner \<or> jr_fence current \<noteq> fence then PlanNone
      else case herr of
             None \<Rightarrow> PlanSucceed
           | Some h \<Rightarrow>
               if timedOut \<or> he_deadline h then PlanFail (h\<lparr>he_msg := ''timeout: '' @ he_msg h\<rparr>)
               else if he_canceled h \<or> he_lost h then PlanRecheck h
               else PlanFail h)"

definition plan_recheck :: "handler_err \<Rightarrow> (job_error + job_row) \<Rightarrow> finish_plan" where
  "plan_recheck h current =
     (case current of
        Inr j \<Rightarrow> if jr_state j = StateCancelRequested then PlanCancel (jr_cancel_reason j)
                 else if he_lost h then PlanNone else PlanFail h
      | Inl _ \<Rightarrow> if he_lost h then PlanNone else PlanFail h)"

definition run_plan ::
  "job_env \<Rightarrow> time \<Rightarrow> queue \<Rightarrow> job_row \<Rightarrow> string \<Rightarrow> int \<Rightarrow> finish_plan \<Rightarrow> 'a job_db_scheme \<Rightarrow> 'a job_db_scheme" where
  "run_plan env now q j owner fence p d =
     (case p of
        PlanNone \<Rightarrow> d
      | PlanCancel reason \<Rightarrow> snd (finishCancelled now j owner fence reason d)
      | PlanSucceed \<Rightarrow> snd (finishSucceeded env now j owner fence d)
      | PlanFail h \<Rightarrow> snd (failAttempt now q j owner fence h d)
      | PlanRecheck h \<Rightarrow>
          (case plan_recheck h (readJob (jr_id j) d) of
             PlanCancel reason \<Rightarrow> snd (finishCancelled now j owner fence reason d)
           | PlanFail h' \<Rightarrow> snd (failAttempt now q j owner fence h' d)
           | _ \<Rightarrow> d))"

definition finish ::
  "job_env \<Rightarrow> time \<Rightarrow> queue \<Rightarrow> job_row \<Rightarrow> string \<Rightarrow> int \<Rightarrow> handler_err option \<Rightarrow> bool \<Rightarrow>
   'a job_db_scheme \<Rightarrow> 'a job_db_scheme" where
  "finish env now q j owner fence herr timedOut d =
     (case readJob (jr_id j) d of
        Inl _ \<Rightarrow> d
      | Inr current \<Rightarrow> run_plan env now q j owner fence (plan_finish owner fence herr timedOut current) d)"

section \<open>The handler's writes\<close>

definition heartbeat :: "time \<Rightarrow> queue \<Rightarrow> int \<Rightarrow> string \<Rightarrow> int \<Rightarrow> ('a, unit) jtx" where
  "heartbeat now q n owner fence =
     run_tx (owned_update n owner fence (\<lambda>j. j\<lparr>jr_lease := Some (rfc (now + qu_ttl q))\<rparr>))"

definition clamp :: "go_float \<Rightarrow> rat option" where
  \<comment> \<open>\<^const>\<open>None\<close>: not a number, which SQLite stores as \<^verbatim>\<open>NULL\<close> and the column refuses\<close>
  "clamp x = (case x of NaN \<Rightarrow> None | NegInf \<Rightarrow> Some 0 | PosInf \<Rightarrow> Some 1
     | Fin r \<Rightarrow> Some (if r < 0 then 0 else if 1 < r then 1 else r))"

definition Progress ::
  "job_env \<Rightarrow> time \<Rightarrow> job_row \<Rightarrow> string \<Rightarrow> int \<Rightarrow> bool \<Rightarrow> go_float \<Rightarrow> string \<Rightarrow> ('a, unit) jtx" where
  \<comment> \<open>the flag: the last progress event is at least the minimum gap ago\<close>
  "Progress env now j owner fence emit fraction msg = run_tx (\<lambda>d.
     case clamp fraction of
       None \<Rightarrow> (Inl ErrJobSQL, d)
     | Some x \<Rightarrow>
         (case owned_update (jr_id j) owner fence (\<lambda>j. j\<lparr>jr_progress := x, jr_message := msg\<rparr>) d of
            (Inl e, d1) \<Rightarrow> (Inl e, d1)
          | (Inr _, d1) \<Rightarrow>
              if \<not> emit then (Inr (), d1)
              else publishJob now ''core.job.progressed'' j
                     [(''fraction'', je_float env x), (''message'', JStr msg)] d1))"

fun log_rows :: "time \<Rightarrow> job_row \<Rightarrow> int \<Rightarrow> int \<Rightarrow> int \<Rightarrow> string list \<Rightarrow> log_row list" where
  "log_rows now j attempt fence n [] = []"
| "log_rows now j attempt fence n (l # ls) =
     \<lparr>lg_id = n + 1, lg_job = jr_id j, lg_attempt = attempt, lg_fence = fence, lg_at = rfc now, lg_line = l\<rparr>
     # log_rows now j attempt fence (n + 1) ls"

definition flushLogs ::
  "time \<Rightarrow> job_row \<Rightarrow> string \<Rightarrow> int \<Rightarrow> int \<Rightarrow> string list \<Rightarrow> ('a, unit) jtx" where
  "flushLogs now j owner fence attempt lines d0 =
     (if lines = [] then (Inr (), d0)
      else run_tx (\<lambda>d.
        case readJob (jr_id j) d of
          Inl e \<Rightarrow> (Inl e, d)
        | Inr c \<Rightarrow>
            if jr_owner c \<noteq> owner \<or> jr_fence c \<noteq> fence then (Inl ErrLostLease, d)
            else if \<not> active (jr_state c) then (Inl ErrLostLease, d)
            else
              (let n = jb_log_seq d + int (length lines) in
               publishJob now ''core.job.logged'' j [(''throughLogId'', JNum n)]
                 (d\<lparr>jb_logs := jb_logs d @ log_rows now j attempt fence (jb_log_seq d) lines,
                    jb_log_seq := n\<rparr>))) d0)"

section \<open>Schedules\<close>

definition scheduleSlot :: "time \<Rightarrow> (time \<Rightarrow> duration) \<Rightarrow> time \<times> string" where
  \<comment> \<open>the wall-clock minute, and its text \<^verbatim>\<open>2006-01-02T15:04\<close>\<close>
  "scheduleSlot now offset =
     (let local = now + offset now in
      case (date_of local, clock local) of ((y, m, d), (h, mi, s)) \<Rightarrow>
        (time_at y m d h mi 0 0,
         fmt_date (y, m, d) @ ''T'' @ pad 2 h @ '':'' @ pad 2 mi))"

definition sched_key :: "string \<Rightarrow> string \<Rightarrow> sched_row \<Rightarrow> bool" where
  "sched_key p n r \<longleftrightarrow> sc_plugin r = p \<and> sc_name r = n"

definition put_schedule :: "sched_row \<Rightarrow> sched_row list \<Rightarrow> sched_row list" where
  "put_schedule r t =
     (case sql_find (sched_key (sc_plugin r) (sc_name r)) t of
        None \<Rightarrow> t @ [r]
      | Some _ \<Rightarrow> sql_update (sched_key (sc_plugin r) (sc_name r))
          (\<lambda>x. x\<lparr>sc_last := sc_last r, sc_tz := sc_tz r, sc_updated := sc_updated r\<rparr>) t)"

definition cron_opts :: "string \<Rightarrow> enqueue_opts" where
  "cron_opts slot = \<lparr>eo_run_at = None, eo_key = ''cron:'' @ slot, eo_priority = 0\<rparr>"

definition slot_body :: "job_env \<Rightarrow> time \<Rightarrow> string \<Rightarrow> job_def \<Rightarrow> string \<Rightarrow> ('a, bool) jtx" where
  \<comment> \<open>the transaction of \<^verbatim>\<open>considerSlot\<close> for a slot not yet considered\<close>
  "slot_body env now p df slotKey d =
     (case (case CheckWorkTx p d of Inr _ \<Rightarrow> Inr True | Inl e \<Rightarrow> if denies e then Inr False else Inl e) of
        Inl e \<Rightarrow> (Inl (ErrGate e), d)
      | Inr admit \<Rightarrow>
          (let d1 = d\<lparr>jb_schedules := put_schedule \<lparr>sc_plugin = p, sc_name = df_name df, sc_tz = df_tz df,
                 sc_last = slotKey, sc_updated = rfc now\<rparr> (jb_schedules d)\<rparr>
           in if \<not> admit then (Inr False, d1)
              else case enqueueTx env now p df ''{}'' (cron_opts slotKey) d1 of
                     (Inl e, d2) \<Rightarrow> (Inl e, d2) | (Inr _, d2) \<Rightarrow> (Inr True, d2)))"

definition considerSlot :: "job_env \<Rightarrow> time \<Rightarrow> string \<Rightarrow> job_def \<Rightarrow> ('a, bool) jtx" where
  \<comment> \<open>the flag: a job was enqueued\<close>
  "considerSlot env now p df d0 =
     (case je_tz env (df_tz df) of
        None \<Rightarrow> (Inl ErrInvalidSchedule, d0)
      | Some offset \<Rightarrow>
          (case parseCron (df_schedule df) of
             Inl _ \<Rightarrow> (Inl ErrInvalidSchedule, d0)
           | Inr cr \<Rightarrow>
               (case scheduleSlot now offset of (slot, slotKey) \<Rightarrow>
                  if \<not> cron_matches cr (wall_of slot) then (Inr False, d0)
                  else run_tx (\<lambda>d.
                    case sql_find (sched_key p (df_name df)) (jb_schedules d) of
                      Some r \<Rightarrow>
                        if sc_last r = slotKey then (Inr False, d)
                        else slot_body env now p df slotKey d
                    | None \<Rightarrow> slot_body env now p df slotKey d) d0)))"

fun tickCron :: "job_env \<Rightarrow> time \<Rightarrow> queue \<Rightarrow> string list \<Rightarrow> 'a job_db_scheme \<Rightarrow> 'a job_db_scheme" where
  \<comment> \<open>the list is the order in which Go's map iteration visits the registered keys\<close>
  "tickCron env now q [] d = d"
| "tickCron env now q (k # ks) d =
     (case qu_defs q k of
        None \<Rightarrow> tickCron env now q ks d
      | Some df \<Rightarrow>
          if df_schedule df = [] then tickCron env now q ks d
          else tickCron env now q ks (snd (considerSlot env now (fst (splitDefKey k)) df d)))"

fun catch_up :: "job_env \<Rightarrow> time \<Rightarrow> string \<Rightarrow> sched_row list \<Rightarrow> ('a, unit) jtx" where
  "catch_up env now p [] d = (Inr (), d)"
| "catch_up env now p (r # rs) d =
     (case je_tz env (sc_tz r) of
        None \<Rightarrow> (Inl ErrInvalidSchedule, d)
      | Some offset \<Rightarrow>
          catch_up env now p rs (d\<lparr>jb_schedules := sql_update (sched_key p (sc_name r))
            (\<lambda>x. x\<lparr>sc_last := snd (scheduleSlot now offset), sc_updated := rfc now\<rparr>) (jb_schedules d)\<rparr>))"

definition CatchUpSchedules :: "job_env \<Rightarrow> time \<Rightarrow> string \<Rightarrow> ('a, unit) jtx" where
  "CatchUpSchedules env now p =
     run_tx (\<lambda>d. catch_up env now p (filter (\<lambda>r. sc_plugin r = p) (jb_schedules d)) d)"

section \<open>Retention\<close>

definition expired_job :: "string \<Rightarrow> job_row \<Rightarrow> bool" where
  "expired_job cutoff j \<longleftrightarrow> Terminal (jr_state j) \<and>
     (case jr_finished j of None \<Rightarrow> jr_created j | Some s \<Rightarrow> if s = [] then jr_created j else s) < cutoff"

definition job_RunRetention ::
  "time \<Rightarrow> queue \<Rightarrow> 'a job_db_scheme \<Rightarrow> (nat \<times> nat) \<times> 'a job_db_scheme" where
  "job_RunRetention now q d =
     (let cutoff = rfc (now - qu_retention q);
          doomed = map jr_id (filter (expired_job cutoff) (jb_jobs d));
          gone = (\<lambda>l. lg_job l \<in> set doomed)
      in ((sql_count (expired_job cutoff) (jb_jobs d), sql_count gone (jb_logs d)),
          d\<lparr>jb_logs := sql_delete gone (jb_logs d),
            jb_jobs := sql_delete (expired_job cutoff) (jb_jobs d)\<rparr>))"

end
