(* ===== verification/Jobs_Laws.thy ===== *)
theory Jobs_Laws
  imports Jobs_Worker
begin

text \<open>
  The laws of the job queue. The abstract specification is the life cycle of one row (\<open>row_step\<close>):
  which fields are fixed for ever, which states follow each other, how the attempt counter and the
  fence move. Every operation of the queue refines it: it moves each row along the life cycle, appends
  a fresh pending row, or deletes terminal rows (\<open>table_step\<close>). The invariants follow from the
  specification alone.
\<close>

section \<open>The life cycle of a row\<close>

definition ident :: "job_row \<Rightarrow> (int \<times> string \<times> string \<times> string) \<times> (int \<times> int \<times> int) \<times> string option \<times> string \<times> string" where
  "ident j = ((jr_id j, jr_plugin j, jr_name j, jr_args j), (jr_max_attempts j, jr_concurrency j, jr_priority j),
     jr_key j, jr_run_at j, jr_created j)"

definition edge :: "job_state \<Rightarrow> job_state \<Rightarrow> bool" where
  "edge s s' \<longleftrightarrow> s' = s \<or>
     ((s = StatePending \<or> s = StateRetryWait) \<and> (s' = StateCancelled \<or> s' = StateDead)) \<or>
     (active s \<and> s' \<noteq> StatePending \<and> (s' = StateRunning \<longrightarrow> s = StateRunning))"

definition row_step :: "job_row \<Rightarrow> job_row \<Rightarrow> bool" where
  "row_step j j' \<longleftrightarrow> ident j' = ident j \<and>
     (j' = j \<or>
      (\<not> Terminal (jr_state j) \<and>
       ((jr_state j \<noteq> StateCancelRequested \<and> jr_state j' = StateRunning \<and>
         jr_attempt j' = jr_attempt j + 1 \<and> jr_attempt j' \<le> jr_max_attempts j \<and> jr_fence j' = jr_fence j + 1) \<or>
        (jr_attempt j' = jr_attempt j \<and> jr_fence j' = jr_fence j \<and> edge (jr_state j) (jr_state j')))))"

lemma row_step_refl [simp]: "row_step j j"
  by (simp add: row_step_def)

lemma row_step_ident: "row_step j j' \<Longrightarrow> ident j' = ident j"
  by (simp add: row_step_def)

lemma row_step_terminal: "row_step j j' \<Longrightarrow> Terminal (jr_state j) \<Longrightarrow> j' = j"
  by (auto simp: row_step_def)

lemma row_step_fence: "row_step j j' \<Longrightarrow> jr_fence j \<le> jr_fence j'"
  by (auto simp: row_step_def)

lemma row_step_attempt:
  "row_step j j' \<Longrightarrow> jr_attempt j \<le> jr_max_attempts j \<Longrightarrow> jr_attempt j' \<le> jr_max_attempts j'"
  by (auto simp: row_step_def ident_def)

lemma row_step_open: "row_step j j' \<Longrightarrow> open_state (jr_state j') \<Longrightarrow> open_state (jr_state j)"
  by (auto simp: row_step_def open_not_terminal)

definition table_step :: "job_row list \<Rightarrow> int \<Rightarrow> job_row list \<Rightarrow> int \<Rightarrow> bool" where
  "table_step t n t' n' \<longleftrightarrow>
     (\<exists>u. list_all2 row_step t u \<and>
        ((t' = u \<and> n' = n) \<or>
         (n' = n + 1 \<and> (\<exists>j. t' = u @ [j] \<and> jr_id j = n + 1 \<and> jr_state j = StatePending \<and> jr_attempt j = 0 \<and>
            jr_fence j = 0 \<and>
            (\<forall>k. jr_key j = Some k \<longrightarrow> (\<forall>i \<in> set t. \<not> same_key (jr_plugin j) (jr_name j) k i)))) \<or>
         (n' = n \<and> (\<exists>P. t' = sql_delete P u \<and> (\<forall>j. P j \<longrightarrow> Terminal (jr_state j))))))"

definition refines :: "'a job_db_scheme \<Rightarrow> 'a job_db_scheme \<Rightarrow> bool" where
  "refines d d' \<longleftrightarrow> table_step (jb_jobs d) (jb_seq d) (jb_jobs d') (jb_seq d')"

lemma rows_refl: "list_all2 row_step t t"
  by (rule list_all2_refl) simp

lemma refines_rows:
  "list_all2 row_step (jb_jobs d) (jb_jobs d') \<Longrightarrow> jb_seq d' = jb_seq d \<Longrightarrow> refines d d'"
  by (auto simp: refines_def table_step_def)

lemma refines_refl [simp]: "refines d d"
  by (rule refines_rows) (simp_all add: rows_refl)

lemma rows_update:
  assumes "\<And>j. j \<in> set t \<Longrightarrow> P j \<Longrightarrow> row_step j (f j)"
  shows "list_all2 row_step t (sql_update P f t)"
  using assms by (induction t) (auto simp: sql_update_def)

text \<open>Publishing keeps the tables of the queue.\<close>

lemma PublishTx_jobs [simp]:
  "jb_jobs (snd (PublishTx now i d)) = jb_jobs d"
  "jb_seq (snd (PublishTx now i d)) = jb_seq d"
  "jb_logs (snd (PublishTx now i d)) = jb_logs d"
  "jb_schedules (snd (PublishTx now i d)) = jb_schedules d"
  by (simp_all add: PublishTx_def Let_def split: sum.splits)

lemma publishJob_jobs [simp]:
  "jb_jobs (snd (publishJob now ty j ex d)) = jb_jobs d"
  "jb_seq (snd (publishJob now ty j ex d)) = jb_seq d"
  "jb_logs (snd (publishJob now ty j ex d)) = jb_logs d"
  "jb_schedules (snd (publishJob now ty j ex d)) = jb_schedules d"
proof -
  obtain r d1 where r: "PublishTx now (job_event ty j ex) d = (r, d1)" by fastforce
  have e: "jb_jobs d1 = jb_jobs d" "jb_seq d1 = jb_seq d" "jb_logs d1 = jb_logs d" "jb_schedules d1 = jb_schedules d"
    using PublishTx_jobs[of now "job_event ty j ex" d] by (simp_all add: r)
  show "jb_jobs (snd (publishJob now ty j ex d)) = jb_jobs d"
    "jb_seq (snd (publishJob now ty j ex d)) = jb_seq d"
    "jb_logs (snd (publishJob now ty j ex d)) = jb_logs d"
    "jb_schedules (snd (publishJob now ty j ex d)) = jb_schedules d"
    using e by (simp_all add: publishJob_def r split: sum.splits)
qed

lemma publishJob_frame:
  "publishJob now ty j ex d = (r, d') \<Longrightarrow> jb_jobs d' = jb_jobs d \<and> jb_seq d' = jb_seq d \<and> jb_schedules d' = jb_schedules d"
  using publishJob_jobs[of now ty j ex d] by simp

section \<open>The queue invariant\<close>

definition keys_unique :: "job_row list \<Rightarrow> bool" where
  "keys_unique t \<longleftrightarrow> (\<forall>a \<in> set t. \<forall>b \<in> set t. jr_key a \<noteq> None \<and> jr_key a = jr_key b \<and> jr_plugin a = jr_plugin b \<and>
     jr_name a = jr_name b \<and> open_state (jr_state a) \<and> open_state (jr_state b) \<longrightarrow> jr_id a = jr_id b)"

definition jobs_ok :: "job_row list \<Rightarrow> int \<Rightarrow> bool" where
  "jobs_ok t n \<longleftrightarrow> distinct (map jr_id t) \<and> (\<forall>j \<in> set t. 0 < jr_id j \<and> jr_id j \<le> n) \<and> 0 \<le> n \<and>
     (\<forall>j \<in> set t. jr_attempt j \<le> max 0 (jr_max_attempts j)) \<and> keys_unique t"

lemma rows_ids: "list_all2 row_step t u \<Longrightarrow> map jr_id u = map jr_id t"
  by (induction rule: list_all2_induct) (auto dest: row_step_ident simp: ident_def)

lemma rows_back: "list_all2 row_step t u \<Longrightarrow> b \<in> set u \<Longrightarrow> \<exists>a \<in> set t. row_step a b"
  by (induction rule: list_all2_induct) auto

lemma rows_forth: "list_all2 row_step t u \<Longrightarrow> a \<in> set t \<Longrightarrow> \<exists>b \<in> set u. row_step a b"
  by (induction rule: list_all2_induct) auto

lemma keys_uniqueD:
  "keys_unique t \<Longrightarrow> a \<in> set t \<Longrightarrow> b \<in> set t \<Longrightarrow> jr_key a = Some k \<Longrightarrow> jr_key b = Some k \<Longrightarrow>
   jr_plugin a = jr_plugin b \<Longrightarrow> jr_name a = jr_name b \<Longrightarrow> open_state (jr_state a) \<Longrightarrow> open_state (jr_state b) \<Longrightarrow>
   jr_id a = jr_id b"
  unfolding keys_unique_def
  by (drule bspec[where x = a], assumption, drule bspec[where x = b], assumption, erule mp) simp

lemma keys_uniqueI:
  assumes "\<And>a b k. a \<in> set t \<Longrightarrow> b \<in> set t \<Longrightarrow> jr_key a = Some k \<Longrightarrow> jr_key b = Some k \<Longrightarrow>
   jr_plugin a = jr_plugin b \<Longrightarrow> jr_name a = jr_name b \<Longrightarrow> open_state (jr_state a) \<Longrightarrow> open_state (jr_state b) \<Longrightarrow>
   jr_id a = jr_id b"
  shows "keys_unique t"
  unfolding keys_unique_def
proof (intro ballI impI, elim conjE)
  fix a b
  assume ab: "a \<in> set t" "b \<in> set t" "jr_key a \<noteq> None" "jr_key a = jr_key b" "jr_plugin a = jr_plugin b"
    "jr_name a = jr_name b" "open_state (jr_state a)" "open_state (jr_state b)"
  then obtain k where "jr_key a = Some k" by auto
  then show "jr_id a = jr_id b" using assms[OF ab(1,2), of k] ab by simp
qed

lemma keys_unique_subset:
  assumes "keys_unique t" "set u \<subseteq> set t"
  shows "keys_unique u"
proof (rule keys_uniqueI)
  fix a b k
  assume ab: "a \<in> set u" "b \<in> set u" "jr_key a = Some k" "jr_key b = Some k" "jr_plugin a = jr_plugin b"
    "jr_name a = jr_name b" "open_state (jr_state a)" "open_state (jr_state b)"
  show "jr_id a = jr_id b"
    by (rule keys_uniqueD[OF assms(1) subsetD[OF assms(2) ab(1)] subsetD[OF assms(2) ab(2)] ab(3-8)])
qed

lemma keys_unique_rows:
  assumes "list_all2 row_step t u" "keys_unique t"
  shows "keys_unique u"
proof (rule keys_uniqueI)
  fix a b k
  assume ab: "a \<in> set u" "b \<in> set u" "jr_key a = Some k" "jr_key b = Some k" "jr_plugin a = jr_plugin b"
    "jr_name a = jr_name b" "open_state (jr_state a)" "open_state (jr_state b)"
  obtain x where x: "x \<in> set t" "row_step x a" using rows_back[OF assms(1) ab(1)] by auto
  obtain y where y: "y \<in> set t" "row_step y b" using rows_back[OF assms(1) ab(2)] by auto
  have i: "ident a = ident x" "ident b = ident y" "open_state (jr_state x)" "open_state (jr_state y)"
    using ab row_step_ident[OF x(2)] row_step_ident[OF y(2)] row_step_open[OF x(2)] row_step_open[OF y(2)] by auto
  have "jr_id x = jr_id y"
    by (rule keys_uniqueD[OF assms(2) x(1) y(1), where k = k]) (use i ab in \<open>simp_all add: ident_def\<close>)
  then show "jr_id a = jr_id b" using i by (simp add: ident_def)
qed

lemma jobs_ok_rows:
  assumes "list_all2 row_step t u" "jobs_ok t n"
  shows "jobs_ok u n"
proof -
  have "0 < jr_id b \<and> jr_id b \<le> n \<and> jr_attempt b \<le> max 0 (jr_max_attempts b)" if m: "b \<in> set u" for b
  proof -
    obtain a where a: "a \<in> set t" "row_step a b" using rows_back[OF assms(1) m] by auto
    then have "0 < jr_id a \<and> jr_id a \<le> n" "jr_attempt a \<le> max 0 (jr_max_attempts a)" using assms(2) by (auto simp: jobs_ok_def)
    then show ?thesis using a(2) by (auto simp: row_step_def ident_def)
  qed
  then show ?thesis
    using assms keys_unique_rows rows_ids[OF assms(1)] by (auto simp: jobs_ok_def)
qed

lemma jobs_ok_step:
  assumes "table_step t n t' n'" "jobs_ok t n"
  shows "jobs_ok t' n'"
proof -
  obtain u where u: "list_all2 row_step t u" and c: "(t' = u \<and> n' = n) \<or>
         (n' = n + 1 \<and> (\<exists>j. t' = u @ [j] \<and> jr_id j = n + 1 \<and> jr_state j = StatePending \<and> jr_attempt j = 0 \<and>
            jr_fence j = 0 \<and> (\<forall>k. jr_key j = Some k \<longrightarrow> (\<forall>i \<in> set t. \<not> same_key (jr_plugin j) (jr_name j) k i)))) \<or>
         (n' = n \<and> (\<exists>P. t' = sql_delete P u \<and> (\<forall>j. P j \<longrightarrow> Terminal (jr_state j))))"
    using assms(1) by (auto simp: table_step_def)
  have ok: "jobs_ok u n" using jobs_ok_rows[OF u assms(2)] .
  from c show ?thesis
  proof (elim disjE exE conjE)
    assume "t' = u" "n' = n"
    then show ?thesis using ok by simp
  next
    fix j
    assume j: "n' = n + 1" "t' = u @ [j]" "jr_id j = n + 1" "jr_attempt j = 0"
      "\<forall>k. jr_key j = Some k \<longrightarrow> (\<forall>i \<in> set t. \<not> same_key (jr_plugin j) (jr_name j) k i)"
    have no: "\<not> (jr_key b = jr_key j \<and> jr_plugin b = jr_plugin j \<and> jr_name b = jr_name j \<and> open_state (jr_state b))"
      if m: "b \<in> set u" "jr_key j \<noteq> None" for b
    proof
      assume b: "jr_key b = jr_key j \<and> jr_plugin b = jr_plugin j \<and> jr_name b = jr_name j \<and> open_state (jr_state b)"
      obtain a where a: "a \<in> set t" "row_step a b" using rows_back[OF u m(1)] by auto
      have "same_key (jr_plugin j) (jr_name j) (the (jr_key j)) a"
        using a(2) b m(2) row_step_ident[OF a(2)] row_step_open[OF a(2)] by (auto simp: same_key_def ident_def)
      then show False using j(5) m(2) a(1) by auto
    qed
    have fresh: "\<forall>b \<in> set u. jr_id b < jr_id j" using ok j(3) by (auto simp: jobs_ok_def)
    have "keys_unique t'"
    proof (rule keys_uniqueI)
      fix a b k
      assume ab: "a \<in> set t'" "b \<in> set t'" "jr_key a = Some k" "jr_key b = Some k" "jr_plugin a = jr_plugin b"
        "jr_name a = jr_name b" "open_state (jr_state a)" "open_state (jr_state b)"
      have "a = j \<and> b = j \<or> a \<in> set u \<and> b \<in> set u"
        using ab j(2) no[of a] no[of b] by auto
      then show "jr_id a = jr_id b"
      proof
        assume u: "a \<in> set u \<and> b \<in> set u"
        have "keys_unique u" using ok by (simp add: jobs_ok_def)
        then show ?thesis by (rule keys_uniqueD[where k = k]) (use u ab in simp_all)
      qed simp
    qed
    then show ?thesis using ok fresh j unfolding jobs_ok_def by auto
  next
    fix P assume "n' = n" "t' = sql_delete P u"
    moreover have "keys_unique (sql_delete P u)"
      by (rule keys_unique_subset[of u]) (use ok in \<open>auto simp: jobs_ok_def\<close>)
    ultimately show ?thesis using ok by (auto simp: jobs_ok_def distinct_sql_delete)
  qed
qed

section \<open>The operations refine the specification\<close>

lemma refines_run_tx: "refines d (snd (f d)) \<Longrightarrow> refines d (snd (run_tx f d))"
  by (auto simp: run_tx_def split: prod.splits sum.splits)

lemma refines_same: "jb_jobs d' = jb_jobs d \<Longrightarrow> jb_seq d' = jb_seq d \<Longrightarrow> refines d d'"
  by (rule refines_rows) (simp_all add: rows_refl)

lemma refines_update:
  assumes "jb_jobs d' = sql_update P f (jb_jobs d)" "jb_seq d' = jb_seq d"
    "\<And>j. j \<in> set (jb_jobs d) \<Longrightarrow> P j \<Longrightarrow> row_step j (f j)"
  shows "refines d d'"
  by (rule refines_rows) (use assms rows_update in auto)

text \<open>What an owner may write: it keeps the identity, the attempt and the fence of its active row.\<close>

definition owner_write :: "(job_row \<Rightarrow> job_row) \<Rightarrow> bool" where
  "owner_write f \<longleftrightarrow> (\<forall>j. active (jr_state j) \<longrightarrow> ident (f j) = ident j \<and> jr_attempt (f j) = jr_attempt j \<and>
     jr_fence (f j) = jr_fence j \<and> edge (jr_state j) (jr_state (f j)))"

lemma owner_write_step: "owner_write f \<Longrightarrow> active (jr_state j) \<Longrightarrow> row_step j (f j)"
  by (auto simp: owner_write_def row_step_def active_def Terminal_def)

lemma owned_update_cases:
  obtains (lost) "owned_update n ow fe f d = (Inl ErrLostLease, d)" "sql_count (owned n ow fe) (jb_jobs d) \<noteq> 1"
  | (kept) "owned_update n ow fe f d = (Inr (), d\<lparr>jb_jobs := sql_update (owned n ow fe) f (jb_jobs d)\<rparr>)"
      "sql_count (owned n ow fe) (jb_jobs d) = 1"
  by (auto simp: owned_update_def split: if_splits)

lemma owned_update_rows:
  assumes "owned_update n ow fe f d = (r, d')" "owner_write f"
  shows "list_all2 row_step (jb_jobs d) (jb_jobs d') \<and> jb_seq d' = jb_seq d"
proof (cases rule: owned_update_cases[of n ow fe f d])
  case lost
  then show ?thesis using assms(1) by (simp add: rows_refl)
next
  case kept
  have "list_all2 row_step (jb_jobs d) (sql_update (owned n ow fe) f (jb_jobs d))"
    by (rule rows_update) (auto simp: owned_def intro: owner_write_step[OF assms(2)])
  then show ?thesis using assms(1) kept by auto
qed

lemma owned_update_refines: "owner_write f \<Longrightarrow> refines d (snd (owned_update n ow fe f d))"
  using owned_update_rows[of n ow fe f d] by (cases "owned_update n ow fe f d") (auto intro: refines_rows)

lemma owned_then_publish:
  assumes "owner_write f"
    and "\<And>d1. jb_jobs (snd (g d1)) = jb_jobs d1 \<and> jb_seq (snd (g d1)) = jb_seq d1"
  shows "refines d (snd (case owned_update n ow fe f d of (Inl e, d1) \<Rightarrow> (Inl e, d1) | (Inr _, d1) \<Rightarrow> g d1))"
proof (cases rule: owned_update_cases[of n ow fe f d])
  case lost
  then show ?thesis by simp
next
  case kept
  then show ?thesis
    using owned_update_rows[OF kept(1) assms(1)] assms(2) by (auto intro!: refines_rows)
qed

lemma edge_simps [simp]:
  "active s \<Longrightarrow> edge s StateCancelled" "active s \<Longrightarrow> edge s StateSucceeded" "active s \<Longrightarrow> edge s StateFailed"
  "active s \<Longrightarrow> edge s StateDead" "active s \<Longrightarrow> edge s StateRetryWait" "edge s s"
  by (auto simp: edge_def active_def)

lemma fenceCancelOwned_refines: "refines d (snd (fenceCancelOwned now j ow fe reason d))"
  unfolding fenceCancelOwned_def
  by (rule owned_then_publish) (simp_all add: owner_write_def ident_def)

lemma finishCancelled_refines: "refines d (snd (finishCancelled now j ow fe reason d))"
  unfolding finishCancelled_def by (rule refines_run_tx) (rule fenceCancelOwned_refines)

lemma finishSucceeded_refines: "refines d (snd (finishSucceeded env now j ow fe d))"
  unfolding finishSucceeded_def Let_def
  by (rule refines_run_tx, rule owned_then_publish) (simp_all add: owner_write_def ident_def)

lemma heartbeat_refines: "refines d (snd (heartbeat now q n ow fe d))"
  unfolding heartbeat_def
  by (rule refines_run_tx, rule owned_update_refines) (simp add: owner_write_def ident_def)

lemma Progress_refines: "refines d (snd (Progress env now j ow fe emit fraction msg d))"
  unfolding Progress_def
proof (rule refines_run_tx, cases "clamp fraction")
  case (Some x)
  show "refines d (snd (case clamp fraction of None \<Rightarrow> (Inl ErrJobSQL, d) | Some x \<Rightarrow>
    (case owned_update (jr_id j) ow fe (\<lambda>j. j\<lparr>jr_progress := x, jr_message := msg\<rparr>) d of
       (Inl e, d1) \<Rightarrow> (Inl e, d1)
     | (Inr _, d1) \<Rightarrow> if \<not> emit then (Inr (), d1) else publishJob now ''core.job.progressed'' j
         [(''fraction'', je_float env x), (''message'', JStr msg)] d1)))"
    unfolding Some option.case
    by (rule owned_then_publish) (simp_all add: owner_write_def ident_def)
qed simp

lemma failAttempt_refines: "refines d (snd (failAttempt now q j ow fe h d))"
proof -
  have two: "jb_jobs (snd (case publishJob now a j x d1 of (Inl e, d2) \<Rightarrow> (Inl e, d2)
      | (Inr _, d2) \<Rightarrow> if c then publishJob now b j y d2 else (Inr (), d2))) = jb_jobs d1 \<and>
    jb_seq (snd (case publishJob now a j x d1 of (Inl e, d2) \<Rightarrow> (Inl e, d2)
      | (Inr _, d2) \<Rightarrow> if c then publishJob now b j y d2 else (Inr (), d2))) = jb_seq d1"
    for a x c b y and d1 :: "'a job_db_scheme"
    using publishJob_jobs[of now a j x d1]
    by (cases "publishJob now a j x d1") (simp split: sum.splits)
  show ?thesis
    unfolding failAttempt_def Let_def
  proof (rule refines_run_tx, split if_split, intro conjI impI, goal_cases)
    case 1
    show ?case by (rule owned_then_publish) (simp_all add: owner_write_def ident_def)
  next
    case 2
    show ?case
      by (rule owned_then_publish) (simp add: owner_write_def ident_def, rule two)
  qed
qed

lemma run_plan_refines: "refines d (run_plan env now q j ow fe p d)"
  by (auto simp: run_plan_def finishCancelled_refines finishSucceeded_refines failAttempt_refines
      split: finish_plan.splits)

lemma finish_refines: "refines d (finish env now q j ow fe herr timedOut d)"
  by (simp add: finish_def run_plan_refines split: sum.splits)

lemma flushLogs_refines: "refines d (snd (flushLogs now j ow fe attempt lines d))"
proof (cases "lines = []")
  case False
  show ?thesis
    unfolding flushLogs_def Let_def using False
    by (simp, intro refines_run_tx) (auto intro!: refines_same split: sum.splits)
qed (simp add: flushLogs_def)

lemma refines_insert:
  assumes "jb_jobs d' = jb_jobs d @ [j]" "jb_seq d' = jb_seq d + 1" "jr_id j = jb_seq d + 1"
    "jr_state j = StatePending" "jr_attempt j = 0" "jr_fence j = 0"
    "\<And>k i. jr_key j = Some k \<Longrightarrow> i \<in> set (jb_jobs d) \<Longrightarrow> \<not> same_key (jr_plugin j) (jr_name j) k i"
  shows "refines d d'"
  unfolding refines_def table_step_def
  by (rule exI[of _ "jb_jobs d"]) (use assms rows_refl in auto)

lemma enqueueTx_refines: "refines d (snd (enqueueTx env now p df args o1 d))"
proof (cases "if eo_key o1 = [] then None else sql_find (same_key p (df_name df) (eo_key o1)) (jb_jobs d)")
  case (Some j)
  then show ?thesis by (simp add: enqueueTx_def)
next
  case None
  define j where "j = new_job now p df args o1 (jb_seq d + 1)"
  define d1 where "d1 = d\<lparr>jb_seq := jb_seq d + 1, jb_jobs := jb_jobs d @ [j]\<rparr>"
  have r: "refines d d2" if "jb_jobs d2 = jb_jobs d1" "jb_seq d2 = jb_seq d1" for d2
    by (rule refines_insert[where j = j])
      (use that None in \<open>auto simp: j_def d1_def new_job_def sql_find_None split: if_splits\<close>)
  have "jb_jobs (snd (enqueueTx env now p df args o1 d)) = jb_jobs d1 \<and> jb_seq (snd (enqueueTx env now p df args o1 d)) = jb_seq d1"
    unfolding enqueueTx_def None Let_def j_def[symmetric] d1_def[symmetric]
    by (auto split: prod.splits sum.splits dest: publishJob_frame)
  then show ?thesis by (simp add: r)
qed

lemma Enqueue_refines: "refines d (snd (Enqueue env now q p name args o1 d))"
  by (auto simp: Enqueue_def enqueueTx_refines intro!: refines_run_tx split: option.splits sum.splits)

text \<open>An \<^verbatim>\<open>UPDATE ... WHERE id = ?\<close> writes the row that was read when ids are unique.\<close>

lemma by_id_unique:
  "distinct (map jr_id t) \<Longrightarrow> j \<in> set t \<Longrightarrow> i \<in> set t \<Longrightarrow> by_id (jr_id j) i \<Longrightarrow> i = j"
  by (auto simp: by_id_def distinct_map inj_on_def)

lemma refines_by_id:
  assumes "jb_jobs d' = sql_update (by_id (jr_id j)) f (jb_jobs d)" "jb_seq d' = jb_seq d"
    "distinct (map jr_id (jb_jobs d))" "j \<in> set (jb_jobs d)" "row_step j (f j)"
  shows "refines d d'"
proof (rule refines_update[OF assms(1,2)])
  fix i assume "i \<in> set (jb_jobs d)" "by_id (jr_id j) i"
  then show "row_step i (f i)" using by_id_unique[OF assms(3,4)] assms(5) by blast
qed

lemma readJob_mem: "readJob n d = Inr j \<Longrightarrow> j \<in> set (jb_jobs d) \<and> jr_id j = n"
  by (auto simp: readJob_def by_id_def split: option.splits dest: sql_find_Some)

lemma job_cancel_refines:
  assumes "distinct (map jr_id (jb_jobs d))"
  shows "refines d (snd (job_cancel now n reason require d))"
  unfolding job_cancel_def
proof (rule refines_run_tx, cases "readJob n d")
  case (Inr j)
  note m = readJob_mem[OF Inr]
  have c: "refines d (snd (publishJob now ty j ex (d\<lparr>jb_jobs := sql_update (by_id n) f (jb_jobs d)\<rparr>)))"
    if "row_step j (f j)" for f ty ex
    by (rule refines_by_id[of _ j f]) (use m that assms in auto)
  have u: "refines d (d\<lparr>jb_jobs := sql_update (by_id n) f (jb_jobs d)\<rparr>)" if "row_step j (f j)" for f
    by (rule refines_by_id[of _ j f]) (use m that assms in auto)
  show "refines d (snd (case readJob n d of Inl e \<Rightarrow> (Inl e, d) | Inr j \<Rightarrow>
         if require \<noteq> [] \<and> jr_plugin j \<noteq> require then (Inl ErrPluginMismatch, d)
         else if Terminal (jr_state j) then
           (if jr_state j = StateCancelled then (Inr (), d) else (Inl ErrAlreadyTerminal, d))
         else if jr_state j = StatePending \<or> jr_state j = StateRetryWait then
           publishJob now ''core.job.cancelled'' j
             [(''attempt'', JNum (jr_attempt j)), (''reason'', JStr reason)]
             (d\<lparr>jb_jobs := sql_update (by_id n)
                 (\<lambda>j. j\<lparr>jr_state := StateCancelled, jr_cancel_reason := reason, jr_finished := Some (rfc now)\<rparr>)
                 (jb_jobs d)\<rparr>)
         else
           (Inr (), d\<lparr>jb_jobs := sql_update (by_id n)
               (\<lambda>j. j\<lparr>jr_state := StateCancelRequested, jr_cancel_reason := reason\<rparr>) (jb_jobs d)\<rparr>)))"
    unfolding Inr sum.case
    by (cases "jr_state j")
      (auto simp: row_step_def ident_def edge_def active_def Terminal_def intro!: c u)
qed simp

lemma job_RunRetention_refines: "refines d (snd (job_RunRetention now q d))"
  unfolding refines_def table_step_def job_RunRetention_def Let_def
  by (rule exI[of _ "jb_jobs d"]) (use rows_refl in \<open>auto simp: expired_job_def intro!: exI[of _ "expired_job (rfc (now - qu_retention q))"]\<close>)

lemma put_schedule_frame:
  "refines d d' \<Longrightarrow> refines (d\<lparr>jb_schedules := s\<rparr>) d' \<and> refines d (d'\<lparr>jb_schedules := s\<rparr>)"
  by (simp add: refines_def)

lemma slot_body_refines: "refines d (snd (slot_body env now p df slot d))"
proof -
  have e: "refines d d2" if "enqueueTx env now p df a o1 (d\<lparr>jb_schedules := s\<rparr>) = (r, d2)" for a o1 s r and d2 :: "'a job_db_scheme"
    using enqueueTx_refines[of "d\<lparr>jb_schedules := s\<rparr>" env now p df a o1] that by (simp add: refines_def)
  show ?thesis
    unfolding slot_body_def Let_def
    by (auto split: sum.splits prod.splits if_splits intro: e refines_same)
qed

lemma considerSlot_refines: "refines d (snd (considerSlot env now p df d))"
  unfolding considerSlot_def
  by (auto split: option.splits sum.splits prod.splits intro!: refines_run_tx slot_body_refines)

lemma catch_up_frame:
  "jb_jobs (snd (catch_up env now p rs d)) = jb_jobs d \<and> jb_seq (snd (catch_up env now p rs d)) = jb_seq d"
  by (induction env now p rs d rule: catch_up.induct) (auto split: option.splits)

lemma CatchUpSchedules_refines: "refines d (snd (CatchUpSchedules env now p d))"
  unfolding CatchUpSchedules_def
  by (rule refines_run_tx, rule refines_same) (simp_all add: catch_up_frame)

section \<open>Claims\<close>

lemma claim_before_irrefl: "\<not> claim_before a a"
  by (simp add: claim_before_def)

lemma claim_before_trans: "claim_before a b \<Longrightarrow> claim_before b c \<Longrightarrow> claim_before a c"
  by (auto simp: claim_before_def)

lemma claim_before_total: "jr_id a \<noteq> jr_id b \<Longrightarrow> claim_before a b \<or> claim_before b a"
  by (auto simp: claim_before_def)

lemma next_claim_Some:
  assumes "next_claim s t = Some j"
  shows "j \<in> set t \<and> due s j \<and> slot_free j t"
  using best_by_mem[of claim_before "filter (\<lambda>j. due s j \<and> slot_free j t) t" j] assms by (auto simp: next_claim_def)

lemma due_open: "due s j \<Longrightarrow> \<not> Terminal (jr_state j)"
  by (auto simp: due_def Terminal_def active_def)

lemma ended_step:
  "\<not> Terminal (jr_state j) \<Longrightarrow> ident j' = ident j \<Longrightarrow> jr_attempt j' = jr_attempt j \<Longrightarrow> jr_fence j' = jr_fence j \<Longrightarrow>
   jr_state j' = StateCancelled \<or> jr_state j' = StateDead \<Longrightarrow> row_step j j'"
  unfolding row_step_def edge_def active_def Terminal_def by (cases "jr_state j") auto

lemma fenceCancel_refines:
  assumes "distinct (map jr_id (jb_jobs d))" "j \<in> set (jb_jobs d)" "\<not> Terminal (jr_state j)"
  shows "refines d (snd (fenceCancel now j reason d))"
  unfolding fenceCancel_def
  by (rule refines_by_id[OF _ _ assms(1,2)], simp, simp, rule ended_step[OF assms(3)])
    (simp_all add: ident_def)

lemma fenceDead_refines:
  assumes "distinct (map jr_id (jb_jobs d))" "j \<in> set (jb_jobs d)" "\<not> Terminal (jr_state j)"
  shows "refines d (snd (fenceDead now j msg class d))"
proof (rule refines_by_id[OF _ _ assms(1,2)])
  show "row_step j (j\<lparr>jr_state := StateDead, jr_last_error := msg, jr_error_class := class,
      jr_finished := Some (rfc now), jr_owner := [], jr_lease := None\<rparr>)"
    by (rule ended_step[OF assms(3)]) (simp_all add: ident_def)
qed (auto simp: fenceDead_def split: prod.splits sum.splits dest!: publishJob_frame)

lemma start_refines:
  assumes "distinct (map jr_id (jb_jobs d))" "j \<in> set (jb_jobs d)" "\<not> Terminal (jr_state j)"
    "jr_state j \<noteq> StateCancelRequested" "jr_attempt j + 1 \<le> jr_max_attempts j"
    "jb_jobs d' = sql_update (by_id (jr_id j)) (start_job q now) (jb_jobs d)" "jb_seq d' = jb_seq d"
  shows "refines d d'"
  by (rule refines_by_id[OF assms(6,7,1,2)])
    (use assms(3-5) in \<open>simp add: row_step_def start_job_def ident_def\<close>)

text \<open>The claim transaction, outcome by outcome.\<close>

lemma publishJob_result: "publishJob now ty j ex d = (r, d') \<Longrightarrow> (\<exists>e. r = Inl (ErrJobEvents e)) \<or> r = Inr ()"
  by (auto simp: publishJob_def split: prod.splits sum.splits)

lemma fenceCancel_result: "fenceCancel now j reason d = (Inl e, d') \<Longrightarrow> \<exists>e'. e = ErrJobEvents e'"
  by (auto simp: fenceCancel_def dest: publishJob_result)

lemma fenceDead_result: "fenceDead now j msg cl d = (Inl e, d') \<Longrightarrow> \<exists>e'. e = ErrJobEvents e'"
  by (auto simp: fenceDead_def split: prod.splits sum.splits dest: publishJob_result)

lemma claim_tx_cases:
  assumes "claim_tx now q d = (r, d')"
  obtains (none) "next_claim (rfc now) (jb_jobs d) = None" "r = Inl ErrSkip" "d' = d"
  | (cancel) j reason where "next_claim (rfc now) (jb_jobs d) = Some j"
      "jr_state j = StateCancelRequested \<or> (\<exists>e. CheckWorkTx (jr_plugin j) d = Inl e \<and> denies e)"
      "d' = snd (fenceCancel now j reason d)" "(\<exists>e. r = Inl (ErrJobEvents e)) \<or> r = Inr ClRetry"
  | (gate) j e where "next_claim (rfc now) (jb_jobs d) = Some j" "CheckWorkTx (jr_plugin j) d = Inl e" "r = Inl (ErrGate e)" "d' = d"
  | (dead) j where "next_claim (rfc now) (jb_jobs d) = Some j" "jr_max_attempts j < jr_attempt j + 1"
      "d' = snd (fenceDead now j ''lease expired with no attempts remaining'' ''error'' d)"
      "(\<exists>e. r = Inl (ErrJobEvents e)) \<or> r = Inr ClDead"
  | (vanished) j where "next_claim (rfc now) (jb_jobs d) = Some j" "sql_count (by_id (jr_id j)) (jb_jobs d) \<noteq> 1"
      "r = Inl ErrSkip" "d' = d"
  | (run) j where "next_claim (rfc now) (jb_jobs d) = Some j" "jr_state j \<noteq> StateCancelRequested"
      "CheckWorkTx (jr_plugin j) d = Inr ()" "jr_attempt j + 1 \<le> jr_max_attempts j"
      "jb_jobs d' = sql_update (by_id (jr_id j)) (start_job q now) (jb_jobs d)" "jb_seq d' = jb_seq d"
      "(\<exists>e. r = Inl (ErrJobEvents e)) \<or> r = Inr (ClRun (claimed_row q j))"
proof (cases "next_claim (rfc now) (jb_jobs d)")
  case None
  have "r = Inl ErrSkip \<and> d' = d" using assms None by (simp add: claim_tx_def)
  then show ?thesis using none[OF None] by blast
next
  case (Some j)
  note a = assms[unfolded claim_tx_def Some option.case]
  show ?thesis
  proof (cases "jr_state j = StateCancelRequested")
    case True
    define reason where "reason = (if jr_cancel_reason j = [] then ''user'' else jr_cancel_reason j)"
    have "d' = snd (fenceCancel now j reason d) \<and> ((\<exists>e. r = Inl (ErrJobEvents e)) \<or> r = Inr ClRetry)"
      using a True by (auto simp: reason_def split: prod.splits sum.splits dest: fenceCancel_result)
    then show ?thesis using cancel[OF Some, of reason] True by blast
  next
    case alive: False
    show ?thesis
    proof (cases "CheckWorkTx (jr_plugin j) d")
      case (Inl e)
      show ?thesis
      proof (cases "denies e")
        case True
        have "d' = snd (fenceCancel now j ''plugin_disabled'' d) \<and> ((\<exists>e. r = Inl (ErrJobEvents e)) \<or> r = Inr ClRetry)"
          using a alive Inl True by (auto split: prod.splits sum.splits dest: fenceCancel_result)
        then show ?thesis using cancel[OF Some, of "''plugin_disabled''"] Inl True by blast
      next
        case False
        then show ?thesis using a alive Inl gate[OF Some Inl] by simp
      qed
    next
      case (Inr u)
      have ok: "CheckWorkTx (jr_plugin j) d = Inr ()" using Inr by simp
      consider "jr_max_attempts j < jr_attempt j + 1" | "\<not> jr_max_attempts j < jr_attempt j + 1" "sql_count (by_id (jr_id j)) (jb_jobs d) \<noteq> 1"
        | "\<not> jr_max_attempts j < jr_attempt j + 1" "sql_count (by_id (jr_id j)) (jb_jobs d) = 1" by auto
      then show ?thesis
      proof cases
        case 1
        have "d' = snd (fenceDead now j ''lease expired with no attempts remaining'' ''error'' d) \<and>
            ((\<exists>e. r = Inl (ErrJobEvents e)) \<or> r = Inr ClDead)"
          using a alive ok 1 by (auto split: prod.splits sum.splits dest: fenceDead_result)
        then show ?thesis using dead[OF Some 1] by blast
      next
        case 2
        have "r = Inl ErrSkip \<and> d' = d" using a alive ok 2 by simp
        then show ?thesis using vanished[OF Some 2(2)] by blast
      next
        case 3
        have "jb_jobs d' = sql_update (by_id (jr_id j)) (start_job q now) (jb_jobs d) \<and> jb_seq d' = jb_seq d \<and>
            ((\<exists>e. r = Inl (ErrJobEvents e)) \<or> r = Inr (ClRun (claimed_row q j)))"
        proof -
          define d1 where "d1 = d\<lparr>jb_jobs := sql_update (by_id (jr_id j)) (start_job q now) (jb_jobs d)\<rparr>"
          define ex where "ex = [(''attempt'', JNum (jr_attempt (claimed_row q j))), (''fenceGeneration'', JNum (jr_fence (claimed_row q j)))]"
          obtain r2 d2 where p: "publishJob now ''core.job.started'' (claimed_row q j) ex d1 = (r2, d2)" by fastforce
          have "d' = d2" "r = (case r2 of Inl e \<Rightarrow> Inl e | Inr _ \<Rightarrow> Inr (ClRun (claimed_row q j)))"
            using a p alive ok 3 unfolding d1_def ex_def Let_def by (simp_all split: sum.splits)
          then show ?thesis
            using publishJob_frame[OF p] publishJob_result[OF p] by (auto simp: d1_def)
        qed
        then show ?thesis using run[OF Some alive ok] 3(1) not_less by blast
      qed
    qed
  qed
qed

lemma claim_tx_refines:
  assumes "distinct (map jr_id (jb_jobs d))"
  shows "refines d (snd (claim_tx now q d))"
proof -
  obtain r d' where c: "claim_tx now q d = (r, d')" by fastforce
  have o: "j \<in> set (jb_jobs d) \<and> \<not> Terminal (jr_state j)" if "next_claim (rfc now) (jb_jobs d) = Some j" for j
    using next_claim_Some[OF that] due_open by auto
  from c have "refines d d'"
  proof (cases rule: claim_tx_cases)
    case (cancel j reason)
    then show ?thesis using o fenceCancel_refines[OF assms] by simp
  next
    case (dead j)
    then show ?thesis using o fenceDead_refines[OF assms] by simp
  next
    case (run j)
    have m: "j \<in> set (jb_jobs d)" "\<not> Terminal (jr_state j)" using o[OF run(1)] by simp_all
    show ?thesis by (rule start_refines[OF assms m run(2) run(4-6)])
  qed simp_all
  then show ?thesis by (simp add: c)
qed

lemma claimOne_refines:
  assumes "distinct (map jr_id (jb_jobs d))"
  shows "\<exists>d1. refines d d1 \<and> refines d1 (snd (snd (claimOne now q d)))"
proof -
  obtain r d1 where c: "run_tx (claim_tx now q) d = (r, d1)" by fastforce
  have "refines d d1"
    using refines_run_tx[of d "claim_tx now q", OF claim_tx_refines[OF assms]] c by simp
  then show ?thesis
    unfolding claimOne_def Let_def c
    by (auto simp: failAttempt_refines split: sum.splits job_error.splits claim.splits option.splits intro!: exI[of _ d1])
qed

section \<open>Interleavings\<close>

text \<open>
  One transaction of any process: workers, schedulers, callers and retention with any arguments (a
  worker's row, owner and fence may be as stale as can be), and transactions of other modules, which
  leave the table of jobs alone.
\<close>

inductive job_op :: "'a job_db_scheme \<Rightarrow> 'a job_db_scheme \<Rightarrow> bool" where
  op_enqueue: "job_op d (snd (Enqueue env now q p name args o1 d))"
| op_cancel: "job_op d (snd (job_cancel now n reason require d))"
| op_claim: "job_op d (snd (run_tx (claim_tx now q) d))"
| op_fail: "job_op d (snd (failAttempt now q j ow fe h d))"
| op_succeed: "job_op d (snd (finishSucceeded env now j ow fe d))"
| op_cancelled: "job_op d (snd (finishCancelled now j ow fe reason d))"
| op_heartbeat: "job_op d (snd (heartbeat now q n ow fe d))"
| op_progress: "job_op d (snd (Progress env now j ow fe emit fraction msg d))"
| op_logs: "job_op d (snd (flushLogs now j ow fe attempt lines d))"
| op_slot: "job_op d (snd (considerSlot env now p df d))"
| op_catch_up: "job_op d (snd (CatchUpSchedules env now p d))"
| op_retention: "job_op d (snd (job_RunRetention now q d))"
| op_other: "jb_jobs d' = jb_jobs d \<Longrightarrow> jb_seq d' = jb_seq d \<Longrightarrow> job_op d d'"

abbreviation jobs_run :: "'a job_db_scheme \<Rightarrow> 'a job_db_scheme \<Rightarrow> bool" where
  "jobs_run \<equiv> job_op\<^sup>*\<^sup>*"

definition queue_ok :: "'a job_db_scheme \<Rightarrow> bool" where
  "queue_ok d \<longleftrightarrow> jobs_ok (jb_jobs d) (jb_seq d)"

lemma queue_ok_distinct: "queue_ok d \<Longrightarrow> distinct (map jr_id (jb_jobs d))"
  by (simp add: queue_ok_def jobs_ok_def)

lemmas op_refines =
  Enqueue_refines failAttempt_refines finishSucceeded_refines finishCancelled_refines heartbeat_refines
  Progress_refines flushLogs_refines considerSlot_refines CatchUpSchedules_refines job_RunRetention_refines

lemma job_op_refines: "job_op d d' \<Longrightarrow> queue_ok d \<Longrightarrow> refines d d'"
proof (induction rule: job_op.induct)
  case (op_cancel d)
  then show ?case by (intro job_cancel_refines queue_ok_distinct)
next
  case (op_claim d)
  then show ?case by (intro refines_run_tx claim_tx_refines queue_ok_distinct)
next
  case op_other
  then show ?case by (intro refines_same)
qed (rule op_refines)+

lemma job_op_ok: "job_op d d' \<Longrightarrow> queue_ok d \<Longrightarrow> queue_ok d'"
  using job_op_refines[of d d'] jobs_ok_step by (auto simp: queue_ok_def refines_def)

lemma jobs_run_ok: "jobs_run d d' \<Longrightarrow> queue_ok d \<Longrightarrow> queue_ok d'"
  by (induction rule: rtranclp_induct) (auto dest: job_op_ok)

text \<open>The compound operations are runs of transactions.\<close>

lemma run_plan_run: "jobs_run d (run_plan env now q j ow fe p d)"
  by (auto simp: run_plan_def split: finish_plan.splits intro!: r_into_rtranclp job_op.intros)

lemma finish_run: "jobs_run d (finish env now q j ow fe herr timedOut d)"
  by (auto simp: finish_def run_plan_run split: sum.splits)

lemma claimOne_run: "jobs_run d (snd (snd (claimOne now q d)))"
proof -
  obtain r d1 where c: "run_tx (claim_tx now q) d = (r, d1)" by fastforce
  have "job_op d d1" using op_claim[of d now q] c by simp
  moreover have "jobs_run d1 (snd (snd (claimOne now q d)))"
    unfolding claimOne_def Let_def c
    by (auto split: sum.splits job_error.splits claim.splits option.splits intro!: r_into_rtranclp op_fail)
  ultimately show ?thesis by (rule converse_rtranclp_into_rtranclp)
qed

lemma claimUntilEmpty_run: "claimUntilEmpty n now q d = Some (js, d') \<Longrightarrow> jobs_run d d'"
proof (induction n arbitrary: d js)
  case (Suc n)
  obtain r s d1 where c: "claimOne now q d = (r, s, d1)" by (cases "claimOne now q d")
  have "jobs_run d d1" using claimOne_run[of d now q] c by simp
  moreover have "jobs_run d1 d'"
    using Suc.prems c by (auto split: sum.splits bool.splits option.splits prod.splits dest: Suc.IH)
  ultimately show ?case by simp
qed simp

lemma tickCron_run: "jobs_run d (tickCron env now q ks d)"
proof (induction env now q ks d rule: tickCron.induct)
  case (2 env now q k ks d)
  then show ?case
    by (auto split: option.splits intro: converse_rtranclp_into_rtranclp[where r = job_op, OF op_slot])
qed simp

text \<open>A row is found again along the life cycle, and no id is used twice.\<close>

lemma table_step_back:
  assumes "table_step t n t' n'" "j' \<in> set t'" "jr_id j' \<le> n"
  shows "\<exists>j \<in> set t. row_step j j'"
  using assms rows_back by (fastforce simp: table_step_def)

lemma table_step_seq: "table_step t n t' n' \<Longrightarrow> n \<le> n'"
  by (auto simp: table_step_def)

lemma jobs_run_back:
  "jobs_run d d' \<Longrightarrow> queue_ok d \<Longrightarrow> jb_seq d \<le> jb_seq d' \<and>
    (\<forall>j' \<in> set (jb_jobs d'). jr_id j' \<le> jb_seq d \<longrightarrow> (\<exists>j \<in> set (jb_jobs d). row_step\<^sup>*\<^sup>* j j'))"
proof (induction rule: rtranclp_induct)
  case (step d1 d2)
  have s: "table_step (jb_jobs d1) (jb_seq d1) (jb_jobs d2) (jb_seq d2)"
    using job_op_refines[OF step.hyps(2)] jobs_run_ok[OF step.hyps(1) step.prems] by (simp add: refines_def)
  have ih: "jb_seq d \<le> jb_seq d1"
    "\<forall>j' \<in> set (jb_jobs d1). jr_id j' \<le> jb_seq d \<longrightarrow> (\<exists>j \<in> set (jb_jobs d). row_step\<^sup>*\<^sup>* j j')"
    using step.IH[OF step.prems] by simp_all
  have "\<exists>j \<in> set (jb_jobs d). row_step\<^sup>*\<^sup>* j j'" if j': "j' \<in> set (jb_jobs d2)" "jr_id j' \<le> jb_seq d" for j'
  proof -
    obtain i where i: "i \<in> set (jb_jobs d1)" "row_step i j'"
      using table_step_back[OF s j'(1)] j'(2) ih(1) by auto
    have "jr_id i \<le> jb_seq d" using row_step_ident[OF i(2)] j'(2) by (simp add: ident_def)
    then obtain j where "j \<in> set (jb_jobs d)" "row_step\<^sup>*\<^sup>* j i" using ih(2) i(1) by auto
    then show ?thesis using i(2) by (auto intro: rtranclp.rtrancl_into_rtrancl)
  qed
  then show ?case using ih(1) table_step_seq[OF s] by auto
qed (auto intro: bexI)

end
