(* ===== verification/Jobs_Queue.thy ===== *)
theory Jobs_Queue
  imports Jobs_Laws
begin

text \<open>
  The properties of the job queue: the life cycle every operation refines, fencing of superseded
  workers, uniqueness of idempotency keys, the order and the bounds of claims, the end of the claim
  loop, schedule slots and retention. They rest on the laws of \<^verbatim>\<open>Jobs_Laws\<close>. The witnesses
  run on a small database with one enabled plugin.
\<close>

section \<open>A concrete queue\<close>

definition w_db :: job_db where
  "w_db = \<lparr>ev_rows = [], ev_seq = 0, ev_cursors = [], ev_oldest = 1, ev_last_run = None,
     pl_state = [\<lparr>ps_id = ''a'', ps_enabled = True, ps_automated = False, ps_disabled_at = None,
                  ps_disabled_by = [], ps_disabled_reason = [], ps_failed_at = None\<rparr>],
     pl_budget = [], pl_spend = [], pl_reservations = [], pl_budget_events = [], pl_after = [],
     jb_jobs = [], jb_seq = 0, jb_logs = [], jb_log_seq = 0, jb_schedules = []\<rparr>"

definition w_def :: job_def where
  "w_def = \<lparr>df_name = ''sync'', df_handler = True, df_schedule = ''1 0 1 1 1'', df_tz = ''UTC'', df_timeout = seconds 60,
     df_max_attempts = 3, df_backoff = \<lparr>bo_initial = seconds 1, bo_maximum = seconds 300\<rparr>, df_concurrency = 1\<rparr>"

definition w_queue :: "string \<Rightarrow> queue" where
  "w_queue ow = \<lparr>qu_owner = ow, qu_ttl = seconds 60, qu_retention = seconds 86400, qu_gap = seconds 1,
     qu_defs = (\<lambda>k. if k = defKey ''a'' ''sync'' then Some w_def else None)\<rparr>"

definition w_env :: job_env where
  "w_env = \<lparr>je_tz = (\<lambda>z. if z = ''UTC'' then Some (\<lambda>_. 0) else None), je_sha = (\<lambda>s. s),
     je_float = (\<lambda>_. JNum 0), je_dur = show_int\<rparr>"

definition w_opts :: enqueue_opts where
  "w_opts = \<lparr>eo_run_at = None, eo_key = ''k'', eo_priority = 0\<rparr>"

definition w_db1 :: job_db where
  "w_db1 = snd (Enqueue w_env 0 (w_queue ''w1'') ''a'' ''sync'' NoPayload w_opts w_db)"

definition w_db2 :: job_db where
  "w_db2 = snd (run_tx (claim_tx 0 (w_queue ''w1'')) w_db1)"

lemma w_db_ok: "queue_ok w_db"
  by (simp add: queue_ok_def jobs_ok_def keys_unique_def w_db_def)

lemma w_db1_run: "jobs_run w_db w_db1"
  unfolding w_db1_def by (intro r_into_rtranclp op_enqueue)

lemma w_db2_run: "jobs_run w_db w_db2"
  using w_db1_run op_claim[of w_db1 0 "w_queue ''w1''"] by (simp add: w_db2_def rtranclp.rtrancl_into_rtrancl)

lemmas w_db1_ok = jobs_run_ok[OF w_db1_run w_db_ok]
lemmas w_db2_ok = jobs_run_ok[OF w_db2_run w_db_ok]

section \<open>The life cycle\<close>



lemma row_steps_ident: "row_step\<^sup>*\<^sup>* j j' \<Longrightarrow> ident j' = ident j"
  by (induction rule: rtranclp_induct) (auto dest: row_step_ident)

lemma row_steps_terminal: "row_step\<^sup>*\<^sup>* j j' \<Longrightarrow> Terminal (jr_state j) \<Longrightarrow> j' = j"
  by (induction rule: rtranclp_induct) (auto dest: row_step_terminal)

lemma row_steps_fence: "row_step\<^sup>*\<^sup>* j j' \<Longrightarrow> jr_fence j \<le> jr_fence j'"
  by (induction rule: rtranclp_induct) (auto dest: row_step_fence)

lemma jobs_run_row:
  assumes "queue_ok d" "jobs_run d d'" "j \<in> set (jb_jobs d)" "j' \<in> set (jb_jobs d')" "jr_id j' = jr_id j"
  shows "row_step\<^sup>*\<^sup>* j j'"
proof -
  have "jr_id j' \<le> jb_seq d" using assms(1,3,5) by (simp add: queue_ok_def jobs_ok_def)
  then obtain i where i: "i \<in> set (jb_jobs d)" "row_step\<^sup>*\<^sup>* i j'"
    using jobs_run_back[OF assms(2,1)] assms(4) by auto
  have "jr_id i = jr_id j" using row_steps_ident[OF i(2)] assms(5) by (simp add: ident_def)
  then have "i = j" using by_id_unique[OF queue_ok_distinct[OF assms(1)] assms(3) i(1)] by (simp add: by_id_def)
  then show ?thesis using i(2) by simp
qed

text \<open>
  C4. Over any interleaving of transactions, from a well-formed queue: ids stay unique and are never
  reused, no attempt counter passes its maximum, at most one open job holds an idempotency key, and every
  row found again has the same definition, arguments, key and creation data, a fence at least as high, and
  is unchanged once it was terminal.
\<close>

theorem queue_invariant:
  assumes "queue_ok d" "jobs_run d d'"
  shows "queue_ok d' \<and> jb_seq d \<le> jb_seq d' \<and>
    (\<forall>j \<in> set (jb_jobs d). \<forall>j' \<in> set (jb_jobs d'). jr_id j' = jr_id j \<longrightarrow>
       ident j' = ident j \<and> jr_fence j \<le> jr_fence j' \<and> (Terminal (jr_state j) \<longrightarrow> j' = j))"
  using jobs_run_ok[OF assms(2,1)] jobs_run_back[OF assms(2,1)] jobs_run_row[OF assms]
    row_steps_ident row_steps_fence row_steps_terminal by blast

theorem queue_invariant_witness: "queue_ok w_db2 \<and> jb_seq w_db \<le> jb_seq w_db2"
  using queue_invariant[OF w_db_ok w_db2_run] by blast

section \<open>Fencing\<close>

lemma owned_update_stale:
  "\<forall>i \<in> set (jb_jobs d). \<not> owned n ow fe i \<Longrightarrow> owned_update n ow fe f d = (Inl ErrLostLease, d)"
  using sql_count_0[of "owned n ow fe" "jb_jobs d"] by (simp add: owned_update_def)

lemma claim_run_cases:
  assumes "run_tx (claim_tx now q) d = (Inr (ClRun j'), d')"
  obtains j where "next_claim (rfc now) (jb_jobs d) = Some j" "jr_state j \<noteq> StateCancelRequested"
    "CheckWorkTx (jr_plugin j) d = Inr ()" "jr_attempt j + 1 \<le> jr_max_attempts j" "j' = claimed_row q j"
    "jb_jobs d' = sql_update (by_id (jr_id j)) (start_job q now) (jb_jobs d)" "jb_seq d' = jb_seq d"
proof -
  have c: "claim_tx now q d = (Inr (ClRun j'), d')"
    using assms by (auto simp: run_tx_def split: prod.splits sum.splits)
  from c show thesis by (cases rule: claim_tx_cases) (use that in auto)
qed

lemma claim_run_mem:
  assumes "run_tx (claim_tx now q) d = (Inr (ClRun j'), d')"
  shows "\<exists>i \<in> set (jb_jobs d'). jr_id i = jr_id j' \<and> jr_fence i = jr_fence j'"
  using assms
proof (cases rule: claim_run_cases)
  case (1 j)
  have "j \<in> set (jb_jobs d)" using next_claim_Some[OF 1(1)] by simp
  then have "start_job q now j \<in> set (jb_jobs d')" using 1(6) by (force simp: set_sql_update by_id_def)
  then show ?thesis using 1(5) by (intro bexI[of _ "start_job q now j"]) (simp_all add: start_job_def claimed_row_def)
qed

lemma superseded_stale:
  assumes "queue_ok d" "run_tx (claim_tx now q) d = (Inr (ClRun j), d1)" "jobs_run d1 d2" "fe < jr_fence j"
  shows "\<forall>i \<in> set (jb_jobs d2). jr_id i = jr_id j \<longrightarrow> jr_fence i \<noteq> fe"
proof -
  have "queue_ok d1" using job_op_ok[OF op_claim assms(1), of now q] assms(2) by simp
  moreover obtain i0 where i0: "i0 \<in> set (jb_jobs d1)" "jr_id i0 = jr_id j" "jr_fence i0 = jr_fence j"
    using claim_run_mem[OF assms(2)] by auto
  ultimately have "jr_fence j \<le> jr_fence i" if "i \<in> set (jb_jobs d2)" "jr_id i = jr_id j" for i
    using row_steps_fence[OF jobs_run_row[OF _ assms(3) i0(1) that(1)]] that(2) by simp
  then show ?thesis using assms(4) by fastforce
qed

text \<open>
  C5. A worker whose job was claimed again can write nothing any more: with any fence below that of the
  newer claim, after any further transactions and under whatever owner name, its heartbeat and every way
  of finishing report a lost lease, and these, its progress and its log lines leave the database unchanged.
\<close>

theorem superseded_worker_fenced:
  assumes "queue_ok d" "run_tx (claim_tx now q) d = (Inr (ClRun j), d1)" "jobs_run d1 d2" "fe < jr_fence j"
    "jr_id i = jr_id j"
  shows "heartbeat now2 q2 (jr_id j) ow fe d2 = (Inl ErrLostLease, d2) \<and>
    finishSucceeded env now2 i ow fe d2 = (Inl ErrLostLease, d2) \<and>
    finishCancelled now2 i ow fe reason d2 = (Inl ErrLostLease, d2) \<and>
    failAttempt now2 q2 i ow fe h d2 = (Inl ErrLostLease, d2) \<and>
    snd (Progress env now2 i ow fe emit fraction msg d2) = d2 \<and>
    snd (flushLogs now2 i ow fe attempt lines d2) = d2"
proof -
  note s = superseded_stale[OF assms(1-4)]
  then have "\<forall>r \<in> set (jb_jobs d2). \<not> owned (jr_id i) ow fe r" using assms(5) by (auto simp: owned_def)
  then have u: "owned_update (jr_id i) ow fe f d2 = (Inl ErrLostLease, d2)" for f by (rule owned_update_stale)
  have "jr_fence c \<noteq> fe" if "readJob (jr_id i) d2 = Inr c" for c
    using s assms(5) readJob_mem[OF that] by simp
  then have "snd (flushLogs now2 i ow fe attempt lines d2) = d2"
    by (cases "readJob (jr_id i) d2") (simp_all add: flushLogs_def run_tx_def)
  moreover have "snd (Progress env now2 i ow fe emit fraction msg d2) = d2"
    by (simp add: Progress_def run_tx_def u split: option.splits)
  ultimately show ?thesis
    using u u[folded assms(5)]
    by (simp add: heartbeat_def finishSucceeded_def finishCancelled_def fenceCancelOwned_def failAttempt_def
        run_tx_def Let_def flip: assms(5))
qed

text \<open>The witness: the lease of the first worker has run out and a second worker claims the job.\<close>

theorem superseded_worker_fenced_witness:
  "\<exists>j d3. run_tx (claim_tx (seconds 120) (w_queue ''w2'')) w_db2 = (Inr (ClRun j), d3) \<and> 1 < jr_fence j \<and>
    heartbeat (seconds 121) (w_queue ''w1'') (jr_id j) ''w1'' 1 d3 = (Inl ErrLostLease, d3)"
proof -
  have "case fst (run_tx (claim_tx (seconds 120) (w_queue ''w2'')) w_db2) of Inr (ClRun j) \<Rightarrow> 1 < jr_fence j | _ \<Rightarrow> False"
    by code_simp
  then obtain j d3 where c: "run_tx (claim_tx (seconds 120) (w_queue ''w2'')) w_db2 = (Inr (ClRun j), d3)" "1 < jr_fence j"
    by (cases "run_tx (claim_tx (seconds 120) (w_queue ''w2'')) w_db2") (auto split: sum.splits claim.splits)
  show ?thesis
    using superseded_worker_fenced[OF w_db2_ok c(1) rtranclp.rtrancl_refl c(2) refl] c by blast
qed

section \<open>Idempotency\<close>

lemma enqueue_row:
  assumes "Enqueue env now q p name args o1 d = (Inr n, d1)" "eo_key o1 \<noteq> []"
  shows "\<exists>df j. lookupDef p name q = Some df \<and> j \<in> set (jb_jobs d1) \<and> jr_id j = n \<and> jr_key j = Some (eo_key o1) \<and>
    jr_plugin j = p \<and> jr_name j = df_name df"
proof -
  obtain df b where e: "enqueueTx env now p df b o1 d = (Inr n, d1)" and l: "lookupDef p name q = Some df"
    using assms(1) by (auto simp: Enqueue_def run_tx_def split: option.splits sum.splits prod.splits)
  show ?thesis
  proof (cases "sql_find (same_key p (df_name df) (eo_key o1)) (jb_jobs d)")
    case None
    then show ?thesis
      using e l assms(2) by (auto simp: enqueueTx_def Let_def new_job_def split: sum.splits prod.splits dest!: publishJob_frame)
  next
    case (Some j)
    then show ?thesis
      using e l assms(2) sql_find_Some[OF Some] by (auto simp: enqueueTx_def same_key_def)
  qed
qed

text \<open>
  Enqueueing under an idempotency key is idempotent while the job is open: after any further
  transactions, as long as the job that got the key is still open, enqueueing the same definition under
  the same key again (other arguments, time and priority included) returns its id and changes nothing.
\<close>

theorem enqueue_idempotent:
  assumes "queue_ok d" "Enqueue env now q p name args o1 d = (Inr n, d1)" "eo_key o1 \<noteq> []" "jobs_run d1 d2"
    "readJob n d2 = Inr j" "\<not> Terminal (jr_state j)"
    "map_option df_name (lookupDef p name q2) = map_option df_name (lookupDef p name q)" "marshalArgs args2 = Inr b"
    "CheckWorkTx p d2 = Inr ()" "eo_key o2 = eo_key o1"
  shows "Enqueue env2 now2 q2 p name args2 o2 d2 = (Inr n, d2)"
proof -
  have ok1: "queue_ok d1" using job_op_ok[OF op_enqueue assms(1), of env now q p name args o1] assms(2) by simp
  obtain df1 j0 where j0: "lookupDef p name q = Some df1" "j0 \<in> set (jb_jobs d1)" "jr_id j0 = n"
      "jr_key j0 = Some (eo_key o1)" "jr_plugin j0 = p" "jr_name j0 = df_name df1"
    using enqueue_row[OF assms(2,3)] by auto
  obtain df where df: "lookupDef p name q2 = Some df" "df_name df = df_name df1" using assms(7) j0(1) by auto
  have j: "j \<in> set (jb_jobs d2)" "jr_id j = n" using readJob_mem[OF assms(5)] by simp_all
  have "ident j = ident j0"
    using row_steps_ident[OF jobs_run_row[OF ok1 assms(4) j0(2) j(1)]] j(2) j0(3) by simp
  then have k: "jr_key j = Some (eo_key o1)" "jr_plugin j = p" "jr_name j = df_name df"
    using j0 df(2) by (simp_all add: ident_def)
  have u: "keys_unique (jb_jobs d2)" using jobs_run_ok[OF assms(4) ok1] by (simp add: queue_ok_def jobs_ok_def)
  obtain i where i: "sql_find (same_key p (df_name df) (eo_key o2)) (jb_jobs d2) = Some i"
    using sql_find_None[of "same_key p (df_name df) (eo_key o2)" "jb_jobs d2"] j k assms(6,10)
    by (cases "sql_find (same_key p (df_name df) (eo_key o2)) (jb_jobs d2)") (auto simp: same_key_def open_not_terminal)
  note i2 = sql_find_Some[OF i]
  have "jr_id i = jr_id j"
    by (rule keys_uniqueD[OF u, where k = "eo_key o1"])
      (use i2 j k assms(6,10) in \<open>simp_all add: same_key_def open_not_terminal\<close>)
  then show ?thesis
    using i j(2) df(1) assms(3,8-10) by (simp add: Enqueue_def run_tx_def enqueueTx_def)
qed

theorem enqueue_idempotent_witness:
  "Enqueue w_env (seconds 9) (w_queue ''w2'') ''a'' ''sync'' (Payload (JNum 7)) w_opts w_db2 = (Inr 1, w_db2)"
proof (rule enqueue_idempotent[OF w_db_ok, where ?d1.0 = w_db1 and ?o1.0 = w_opts and n = 1])
  have "fst (Enqueue w_env 0 (w_queue ''w1'') ''a'' ''sync'' NoPayload w_opts w_db) = Inr 1" by code_simp
  then show "Enqueue w_env 0 (w_queue ''w1'') ''a'' ''sync'' NoPayload w_opts w_db = (Inr 1, w_db1)"
    unfolding w_db1_def by (metis prod.collapse)
  show "jobs_run w_db1 w_db2" unfolding w_db2_def by (intro r_into_rtranclp op_claim)
  show "readJob 1 w_db2 = Inr (hd (jb_jobs w_db2))" by code_simp
  show "\<not> Terminal (jr_state (hd (jb_jobs w_db2)))" by code_simp
  show "marshalArgs (Payload (JNum 7)) = Inr ''7''" by code_simp
  show "CheckWorkTx ''a'' w_db2 = Inr ()" by code_simp
qed (simp_all add: w_opts_def lookupDef_def w_queue_def)

section \<open>Claims\<close>

definition same_class :: "job_row \<Rightarrow> job_row \<Rightarrow> bool" where
  "same_class j r \<longleftrightarrow> jr_plugin r = jr_plugin j \<and> jr_name r = jr_name j \<and> active (jr_state r)"

lemma count_after_by_id:
  assumes "distinct (map jr_id t)" "j \<in> set t" "Q (f j)"
  shows "sql_count Q (sql_update (by_id (jr_id j)) f t) = Suc (sql_count (\<lambda>r. Q r \<and> jr_id r \<noteq> jr_id j) t)"
  using assms(1,2)
proof (induction t)
  case (Cons a t)
  show ?case
  proof (cases "a = j")
    case True
    then have "\<forall>r \<in> set t. jr_id r \<noteq> jr_id j" using Cons.prems(1) by (auto simp: image_iff)
    then have "sql_update (by_id (jr_id j)) f t = t" "filter (\<lambda>r. Q r \<and> jr_id r \<noteq> jr_id j) t = filter Q t"
      by (auto simp: sql_update_def by_id_def intro!: map_idI filter_cong)
    then show ?thesis using True assms(3) by (simp add: sql_count_def sql_update_def by_id_def)
  next
    case False
    then have "jr_id a \<noteq> jr_id j" using Cons.prems by force
    then show ?thesis using Cons False by (simp add: sql_count_def sql_update_def by_id_def)
  qed
qed simp

lemma count_by_id: "distinct (map jr_id t) \<Longrightarrow> j \<in> set t \<Longrightarrow> sql_count (by_id (jr_id j)) t = 1"
  using count_after_by_id[of t j "by_id (jr_id j)" "\<lambda>r. r"]
  by (simp add: sql_update_def by_id_def sql_count_def)

lemma next_claim_first:
  assumes "distinct (map jr_id t)" "next_claim s t = Some j" "i \<in> set t" "due s i" "slot_free i t" "i \<noteq> j"
  shows "claim_before j i"
proof (rule best_by_first[where t = "filter (\<lambda>j. due s j \<and> slot_free j t) t" and k = jr_id])
  show "best_by claim_before (filter (\<lambda>j. due s j \<and> slot_free j t) t) = Some j"
    using assms(2) by (simp add: next_claim_def)
  show "claim_before u w" if "claim_before u v" "claim_before v w" for u v w
    using that by (rule claim_before_trans)
qed (use assms in \<open>simp_all add: claim_before_total distinct_map_filter\<close>)

text \<open>
  C20. A claim that starts an attempt takes a due job of an enabled plugin, the first in the claim order
  among all due jobs with a free slot, gives it the next attempt number and the next fence, and keeps the
  number of active jobs of that definition within the job's concurrency limit.
\<close>

theorem claim_correct:
  assumes "queue_ok d" "run_tx (claim_tx now q) d = (Inr (ClRun j'), d')"
  shows "\<exists>j \<in> set (jb_jobs d). jr_id j' = jr_id j \<and> due (rfc now) j \<and> CheckWorkTx (jr_plugin j) d = Inr () \<and>
    jr_attempt j' = jr_attempt j + 1 \<and> jr_attempt j' \<le> jr_max_attempts j \<and> jr_fence j' = jr_fence j + 1 \<and>
    (\<forall>i \<in> set (jb_jobs d). due (rfc now) i \<and> slot_free i (jb_jobs d) \<and> i \<noteq> j \<longrightarrow> claim_before j i) \<and>
    int (sql_count (same_class j) (jb_jobs d')) \<le> jr_concurrency j"
  using assms(2)
proof (cases rule: claim_run_cases)
  case (1 j)
  note n = next_claim_Some[OF 1(1)] and dst = queue_ok_distinct[OF assms(1)]
  have "sql_count (same_class j) (jb_jobs d') = Suc (rivals j (jb_jobs d))"
    unfolding 1(6) rivals_def using n
    by (subst count_after_by_id[OF dst]) (simp_all add: same_class_def start_job_def active_def sql_count_def conj_assoc)
  then have "int (sql_count (same_class j) (jb_jobs d')) \<le> jr_concurrency j" using n by (simp add: slot_free_def)
  then show ?thesis
    using n 1 next_claim_first[OF dst 1(1)] by (intro bexI[of _ j]) (auto simp: claimed_row_def)
qed

theorem claim_correct_witness:
  "\<exists>j' d'. run_tx (claim_tx 0 (w_queue ''w1'')) w_db1 = (Inr (ClRun j'), d') \<and> jr_attempt j' \<le> jr_max_attempts j' \<and>
    (\<exists>j. j \<in> set (jb_jobs w_db1) \<and> int (sql_count (same_class j) (jb_jobs d')) \<le> jr_concurrency j)"
proof -
  have "case fst (run_tx (claim_tx 0 (w_queue ''w1'')) w_db1) of Inr (ClRun j) \<Rightarrow> jr_attempt j \<le> jr_max_attempts j | _ \<Rightarrow> False"
    by code_simp
  then obtain j' d' where c: "run_tx (claim_tx 0 (w_queue ''w1'')) w_db1 = (Inr (ClRun j'), d')" "jr_attempt j' \<le> jr_max_attempts j'"
    by (cases "run_tx (claim_tx 0 (w_queue ''w1'')) w_db1") (auto split: sum.splits claim.splits)
  then show ?thesis using claim_correct[OF w_db1_ok c(1)] by blast
qed

section \<open>The claim loop ends\<close>

lemma not_due_terminal: "Terminal (jr_state j) \<Longrightarrow> \<not> due s j"
  using due_open by blast

lemma claim_decreases:
  assumes "run_tx (claim_tx now q) d = (Inr c, d1)" "rfc now < rfc (now + qu_ttl q)"
  shows "sql_count (due (rfc now)) (jb_jobs d1) < sql_count (due (rfc now)) (jb_jobs d)"
proof -
  have c: "claim_tx now q d = (Inr c, d1)" using assms(1) by (auto simp: run_tx_def split: prod.splits sum.splits)
  have dec: "sql_count (due (rfc now)) (sql_update (by_id (jr_id j)) f (jb_jobs d)) < sql_count (due (rfc now)) (jb_jobs d)"
    if "next_claim (rfc now) (jb_jobs d) = Some j" "\<And>r. \<not> due (rfc now) (f r)" for j f
    by (rule sql_count_update_less[where x = j]) (use that next_claim_Some[OF that(1)] in \<open>auto simp: by_id_def\<close>)
  from c show ?thesis
  proof (cases rule: claim_tx_cases)
    case (cancel j reason)
    then show ?thesis using dec[OF cancel(1)] by (simp add: fenceCancel_def not_due_terminal Terminal_def)
  next
    case (dead j)
    have "jb_jobs d1 = sql_update (by_id (jr_id j)) (\<lambda>r. r\<lparr>jr_state := StateDead, jr_last_error := ''lease expired with no attempts remaining'', jr_error_class := ''error'',
                        jr_finished := Some (rfc now), jr_owner := [], jr_lease := None\<rparr>) (jb_jobs d)"
      unfolding dead(3) by (auto simp: fenceDead_def split: prod.splits sum.splits dest!: publishJob_frame)
    then show ?thesis using dec[OF dead(1)] by (simp add: not_due_terminal Terminal_def)
  next
    case (run j)
    have "\<not> due (rfc now) (start_job q now r)" for r
      using assms(2) by (simp add: due_def start_job_def active_def)
    then show ?thesis using dec[OF run(1)] run by simp
  qed simp_all
qed

lemma owned_update_due:
  assumes "\<And>r. \<not> due s (f r)"
  shows "sql_count (due s) (jb_jobs (snd (owned_update n ow fe f d))) \<le> sql_count (due s) (jb_jobs d)"
  by (cases rule: owned_update_cases[of n ow fe f d]) (simp_all add: sql_count_update_le assms)

lemma no_handler_due:
  "sql_count (due s) (jb_jobs (snd (failAttempt now q j ow fe (no_handler j) d))) \<le> sql_count (due s) (jb_jobs d)"
proof -
  define f where "f = (\<lambda>r::job_row. r\<lparr>jr_state := StateFailed, jr_last_error := he_msg (no_handler j), jr_error_class := err_class (no_handler j),
     jr_finished := Some (rfc now), jr_owner := [], jr_lease := None\<rparr>)"
  have "\<not> due s (f r)" for r by (rule not_due_terminal) (simp add: f_def Terminal_def)
  note le = owned_update_due[of s f "jr_id j" ow fe d, OF this]
  have *: "jb_jobs (snd (failAttempt now q j ow fe (no_handler j) d)) = jb_jobs d \<or>
    jb_jobs (snd (failAttempt now q j ow fe (no_handler j) d)) = jb_jobs (snd (owned_update (jr_id j) ow fe f d))"
    unfolding failAttempt_def Let_def
    by (auto simp: run_tx_def no_handler_def f_def split: prod.splits sum.splits dest!: publishJob_frame)
  from * show ?thesis
  proof
    assume "jb_jobs (snd (failAttempt now q j ow fe (no_handler j) d)) = jb_jobs d"
    then show ?thesis by simp
  next
    assume e: "jb_jobs (snd (failAttempt now q j ow fe (no_handler j) d)) = jb_jobs (snd (owned_update (jr_id j) ow fe f d))"
    show ?thesis unfolding e by (rule le)
  qed
qed

lemma claimOne_true:
  assumes "claimOne now q d = (Inr True, js, d1)" "rfc now < rfc (now + qu_ttl q)"
  shows "sql_count (due (rfc now)) (jb_jobs d1) < sql_count (due (rfc now)) (jb_jobs d)"
proof -
  obtain r d0 where c: "run_tx (claim_tx now q) d = (r, d0)" by fastforce
  obtain x where x: "r = Inr x"
    using assms(1) by (auto simp: claimOne_def Let_def c split: sum.splits job_error.splits)
  have "sql_count (due (rfc now)) (jb_jobs d1) \<le> sql_count (due (rfc now)) (jb_jobs d0)"
    using assms(1) no_handler_due by (auto simp: claimOne_def Let_def c x split: claim.splits option.splits)
  then show ?thesis using claim_decreases[OF c[unfolded x] assms(2)] by simp
qed

lemma claimOne_stop:
  assumes "queue_ok d" "claimOne now q d = (r, js, d1)" "r \<noteq> Inr True"
  shows "d1 = d \<and> ((\<exists>e. r = Inl e) \<or> next_claim (rfc now) (jb_jobs d) = None)"
proof -
  obtain r0 d0 where c: "run_tx (claim_tx now q) d = (r0, d0)" by fastforce
  obtain e where e: "r0 = Inl e" "d1 = d0" "e \<noteq> ErrSkip \<longrightarrow> r = Inl e"
    using assms(2,3) by (auto simp: claimOne_def Let_def c split: sum.splits job_error.splits claim.splits option.splits)
  obtain d2 where t: "claim_tx now q d = (Inl e, d2)" "d0 = d"
    using c e by (auto simp: run_tx_def split: prod.splits sum.splits)
  have "next_claim (rfc now) (jb_jobs d) = None" if "e = ErrSkip"
    using t(1)
  proof (cases rule: claim_tx_cases)
    case (vanished j)
    have "sql_count (by_id (jr_id j)) (jb_jobs d) = 1"
      using count_by_id[OF queue_ok_distinct[OF assms(1)]] next_claim_Some[OF vanished(1)] by simp
    then show ?thesis using vanished by simp
  qed (use that in auto)
  then show ?thesis using e t by auto
qed

text \<open>
  C21. At a fixed clock the claim loop ends: with a lease of a second or more every turn ends a due job or
  leases it beyond the clock, so one more turn than there are due jobs is enough fuel. When it has ended,
  no due job with a free slot is left, or the last claim failed and left the database as it was.
\<close>

theorem claim_loop_terminates:
  assumes "queue_ok d" "year_ok now" "year_ok (now + qu_ttl q)" "seconds 1 \<le> qu_ttl q"
  shows "\<exists>js d'. claimUntilEmpty (Suc (sql_count (due (rfc now)) (jb_jobs d))) now q d = Some (js, d') \<and>
    length js \<le> sql_count (due (rfc now)) (jb_jobs d) \<and>
    ((\<exists>e. fst (claimOne now q d') = Inl e) \<or> next_claim (rfc now) (jb_jobs d') = None)"
proof -
  have "sec_of now \<noteq> sec_of (now + qu_ttl q)" using assms(4) unfolding sec_of_def by simp
  then have later: "rfc now < rfc (now + qu_ttl q)"
    using rfc_less[OF assms(2,3)] assms(4) by simp
  have "\<exists>js d'. claimUntilEmpty (Suc n) now q d = Some (js, d') \<and> length js \<le> n \<and>
    ((\<exists>e. fst (claimOne now q d') = Inl e) \<or> next_claim (rfc now) (jb_jobs d') = None)"
    if "queue_ok d" "sql_count (due (rfc now)) (jb_jobs d) \<le> n" for n
    using that
  proof (induction n arbitrary: d)
    case 0
    obtain r js d1 where c: "claimOne now q d = (r, js, d1)" by (cases "claimOne now q d")
    have "r \<noteq> Inr True" using claimOne_true[OF _ later, of d js d1] c 0(2) by auto
    then show ?case using claimOne_stop[OF 0(1) c] c by (cases r) auto
  next
    case (Suc n)
    obtain r js d1 where c: "claimOne now q d = (r, js, d1)" by (cases "claimOne now q d")
    show ?case
    proof (cases "r = Inr True")
      case False
      then show ?thesis using claimOne_stop[OF Suc.prems(1) c] c by (cases r) auto
    next
      case True
      have "queue_ok d1" using jobs_run_ok[OF claimOne_run Suc.prems(1), of now q] c by simp
      moreover have "sql_count (due (rfc now)) (jb_jobs d1) \<le> n" using claimOne_true[OF c[unfolded True] later] Suc.prems(2) by simp
      ultimately obtain js' d' where "claimUntilEmpty (Suc n) now q d1 = Some (js', d')" "length js' \<le> n"
          "(\<exists>e. fst (claimOne now q d') = Inl e) \<or> next_claim (rfc now) (jb_jobs d') = None"
        using Suc.IH by blast
      then show ?thesis using c True by (simp only: claimUntilEmpty.simps(2)[of "Suc n"]) (auto split: option.splits)
    qed
  qed
  then show ?thesis using assms(1) by blast
qed

theorem claim_loop_terminates_witness:
  "\<exists>js d'. claimUntilEmpty 2 0 (w_queue ''w1'') w_db1 = Some (js, d') \<and> length js \<le> 1"
proof -
  have n: "sql_count (due (rfc 0)) (jb_jobs w_db1) = 1" by code_simp
  have y: "year_ok 0" "year_ok (0 + qu_ttl (w_queue ''w1''))" "seconds 1 \<le> qu_ttl (w_queue ''w1'')" by code_simp+
  show ?thesis using claim_loop_terminates[OF w_db1_ok y] unfolding n by (auto simp: numeral_2_eq_2)
qed

section \<open>Schedule slots\<close>

lemma put_schedule_find:
  "\<exists>x. sql_find (sched_key (sc_plugin r) (sc_name r)) (put_schedule r t) = Some x \<and> sc_last x = sc_last r"
proof (cases "sql_find (sched_key (sc_plugin r) (sc_name r)) t")
  case None
  then show ?thesis by (simp add: put_schedule_def sql_simps sched_key_def)
next
  case (Some a)
  then show ?thesis
    using sql_find_Some[OF Some]
    by (subst put_schedule_def) (simp add: sql_find_update_key sched_key_def)
qed

lemma enqueueTx_schedules: "enqueueTx env now p df args o1 d = (r, d') \<Longrightarrow> jb_schedules d' = jb_schedules d"
  by (auto simp: enqueueTx_def Let_def split: option.splits prod.splits sum.splits if_splits dest!: publishJob_frame)

lemma slot_body_records:
  assumes "slot_body env now p df slotKey d = (Inr b, d1)"
  shows "\<exists>x. sql_find (sched_key p (df_name df)) (jb_schedules d1) = Some x \<and> sc_last x = slotKey"
proof -
  define r where "r = \<lparr>sc_plugin = p, sc_name = df_name df, sc_tz = df_tz df, sc_last = slotKey, sc_updated = rfc now\<rparr>"
  have "jb_schedules d1 = put_schedule r (jb_schedules d)"
    using assms unfolding slot_body_def Let_def r_def[symmetric]
    by (auto split: sum.splits if_splits prod.splits dest!: enqueueTx_schedules)
  then show ?thesis using put_schedule_find[of r "jb_schedules d"] by (simp add: r_def)
qed

lemma considerSlot_records:
  assumes "considerSlot env now p df d = (Inr b, d1)" "je_tz env (df_tz df) = Some offset" "parseCron (df_schedule df) = Inr cr"
    "cron_matches cr (wall_of (fst (scheduleSlot now offset)))"
  shows "\<exists>x. sql_find (sched_key p (df_name df)) (jb_schedules d1) = Some x \<and> sc_last x = snd (scheduleSlot now offset)"
proof -
  obtain slot key where s: "scheduleSlot now offset = (slot, key)" by fastforce
  have a: "run_tx (\<lambda>d. case sql_find (sched_key p (df_name df)) (jb_schedules d) of
      Some r \<Rightarrow> if sc_last r = key then (Inr False, d) else slot_body env now p df key d
    | None \<Rightarrow> slot_body env now p df key d) d = (Inr b, d1)"
    using assms s by (simp add: considerSlot_def)
  show ?thesis
  proof (cases "\<exists>r. sql_find (sched_key p (df_name df)) (jb_schedules d) = Some r \<and> sc_last r = key")
    case True
    then show ?thesis using a s by (auto simp: run_tx_def)
  next
    case False
    then have "slot_body env now p df key d = (Inr b, d1)"
      using a by (auto simp: run_tx_def split: option.splits prod.splits sum.splits if_splits)
    then show ?thesis using slot_body_records s by simp
  qed
qed

text \<open>
  A schedule slot fires at most once: once any process has considered a matching minute of a definition
  (and enqueued a job for it, or skipped it for a disabled plugin), considering the same minute again, from
  any process and at any time within it, changes nothing and enqueues nothing, unless another slot of the
  definition was recorded in between.
\<close>

theorem slot_fires_once:
  assumes "considerSlot env now p df d = (Inr b, d1)" "je_tz env (df_tz df) = Some offset"
    "parseCron (df_schedule df) = Inr cr" "cron_matches cr (wall_of (fst (scheduleSlot now offset)))"
    "jb_schedules d2 = jb_schedules d1" "scheduleSlot now2 offset = scheduleSlot now offset"
  shows "considerSlot env now2 p df d2 = (Inr False, d2)"
proof -
  obtain slot key where s: "scheduleSlot now offset = (slot, key)" by fastforce
  obtain x where "sql_find (sched_key p (df_name df)) (jb_schedules d2) = Some x" "sc_last x = key"
    using considerSlot_records[OF assms(1-4)] assms(5) s by auto
  then show ?thesis using assms(2-4,6) s by (simp add: considerSlot_def run_tx_def)
qed

theorem slot_fires_once_witness:
  "\<exists>d1. considerSlot w_env (seconds 61) ''a'' w_def w_db = (Inr True, d1) \<and> length (jb_jobs d1) = 1 \<and>
    considerSlot w_env (seconds 95) ''a'' w_def d1 = (Inr False, d1)"
proof -
  let ?d1 = "snd (considerSlot w_env (seconds 61) ''a'' w_def w_db)"
  have f: "fst (considerSlot w_env (seconds 61) ''a'' w_def w_db) = Inr True" and l: "length (jb_jobs ?d1) = 1"
    by code_simp+
  have c: "considerSlot w_env (seconds 61) ''a'' w_def w_db = (Inr True, ?d1)" using f by (metis prod.collapse)
  have z: "je_tz w_env (df_tz w_def) = Some (\<lambda>_. 0)" by (simp add: w_env_def w_def_def)
  obtain cr where p: "parseCron (df_schedule w_def) = Inr cr" "cron_matches cr (wall_of (fst (scheduleSlot (seconds 61) (\<lambda>_. 0))))"
  proof -
    have "case parseCron (df_schedule w_def) of Inl _ \<Rightarrow> False
      | Inr cr \<Rightarrow> cron_matches cr (wall_of (fst (scheduleSlot (seconds 61) (\<lambda>_. 0))))" by code_simp
    then show ?thesis using that by (auto split: sum.splits)
  qed
  have "scheduleSlot (seconds 95) (\<lambda>_. 0) = scheduleSlot (seconds 61) (\<lambda>_. 0)" by code_simp
  then show ?thesis using slot_fires_once[OF c z p refl] c l by blast
qed

section \<open>Retention\<close>

text \<open>
  Retention removes exactly the jobs that ended before the cutoff (to the second, the precision of
  stored times compared as text) with their log lines; a job that is still owed is kept whatever its age,
  with all its log lines.
\<close>

theorem job_retention_exact:
  assumes "j \<in> set (jb_jobs d)" "jr_finished j = Some (rfc t)" "year_ok t" "year_ok (now - qu_retention q)"
    "sec_of t \<noteq> sec_of (now - qu_retention q)" "distinct (map jr_id (jb_jobs d))"
  shows "(j \<in> set (jb_jobs (snd (job_RunRetention now q d))) \<longleftrightarrow> \<not> (Terminal (jr_state j) \<and> t < now - qu_retention q)) \<and>
    filter (\<lambda>l. lg_job l = jr_id j) (jb_logs (snd (job_RunRetention now q d))) =
      (if Terminal (jr_state j) \<and> t < now - qu_retention q then [] else filter (\<lambda>l. lg_job l = jr_id j) (jb_logs d))"
proof -
  have ne: "rfc t \<noteq> []" by (simp add: rfc_stamp)
  have e: "expired_job (rfc (now - qu_retention q)) j \<longleftrightarrow> Terminal (jr_state j) \<and> t < now - qu_retention q"
    using rfc_less[OF assms(3-5)] assms(2) ne by (simp add: expired_job_def)
  have same: "r = j" if "r \<in> set (jb_jobs d)" "jr_id r = jr_id j" for r
    using by_id_unique[OF assms(6,1) that(1)] that(2) by (simp add: by_id_def)
  show ?thesis
    using assms(1) unfolding e[symmetric]
    by (auto simp: job_RunRetention_def Let_def sql_delete_def filter_empty_conv intro!: filter_cong dest: same)
qed

definition w_done :: job_db where
  "w_done = snd (finishSucceeded w_env (seconds 5) (hd (jb_jobs w_db2)) ''w1'' 1 w_db2)"

theorem job_retention_exact_witness:
  "hd (jb_jobs w_done) \<notin> set (jb_jobs (snd (job_RunRetention (seconds 90000) (w_queue ''w1'') w_done)))"
proof -
  have m: "hd (jb_jobs w_done) \<in> set (jb_jobs w_done)" by code_simp
  have f: "jr_finished (hd (jb_jobs w_done)) = Some (rfc (seconds 5))" by code_simp
  have y: "year_ok (seconds 5)" "year_ok (seconds 90000 - qu_retention (w_queue ''w1''))"
    "sec_of (seconds 5) \<noteq> sec_of (seconds 90000 - qu_retention (w_queue ''w1''))" by code_simp+
  have ds: "distinct (map jr_id (jb_jobs w_done))" by code_simp
  have t: "Terminal (jr_state (hd (jb_jobs w_done)))" "seconds 5 < seconds 90000 - qu_retention (w_queue ''w1'')" by code_simp+
  show ?thesis using job_retention_exact[OF m f y ds] t by simp
qed

section \<open>A cancellation can be lost\<close>

definition w_err :: handler_err where
  "w_err = \<lparr>he_msg = ''x'', he_permanent = False, he_retry_after = None, he_panic = False, he_deadline = False,
     he_canceled = False, he_lost = False\<rparr>"

definition w_row :: job_row where
  "w_row = claimed_row (w_queue ''w1'') (new_job 0 ''a'' w_def ''{}'' w_opts 1)"

definition w_running :: job_db where
  "w_running = w_db\<lparr>jb_jobs := [w_row], jb_seq := 1\<rparr>"

definition w_cancelled :: job_db where
  "w_cancelled = snd (job_cancel (seconds 1) 1 ''user'' [] w_running)"

definition w_retried :: job_db where
  "w_retried = run_plan w_env (seconds 1) (w_queue ''w1'') w_row ''w1'' 1 (plan_finish ''w1'' 1 (Some w_err) False w_row) w_cancelled"

lemma w_plan: "plan_finish ''w1'' 1 (Some w_err) False w_row = PlanFail w_err"
  by (simp add: plan_finish_def w_row_def claimed_row_def new_job_def w_queue_def w_err_def)

text \<open>
  \<^verbatim>\<open>finish\<close> reads the row before the transaction that ends the attempt, and the fenced update accepts
  the state \<^verbatim>\<open>cancel_requested\<close>. A cancellation that lands in between succeeds for its caller, and then
  the failed attempt goes to \<^verbatim>\<open>retry_wait\<close> and is run again.
\<close>

theorem cancellation_lost:
  "readJob 1 w_running = Inr w_row \<and>
   fst (job_cancel (seconds 1) 1 ''user'' [] w_running) = Inr () \<and>
   map jr_state (jb_jobs w_cancelled) = [StateCancelRequested] \<and>
   map jr_state (jb_jobs w_retried) = [StateRetryWait] \<and>
   map jr_state (jb_jobs (snd (run_tx (claim_tx (seconds 9) (w_queue ''w1'')) w_retried))) = [StateRunning]"
proof (intro conjI)
  show "readJob 1 w_running = Inr w_row" by code_simp
  show "fst (job_cancel (seconds 1) 1 ''user'' [] w_running) = Inr ()" by code_simp
  show "map jr_state (jb_jobs w_cancelled) = [StateCancelRequested]" by code_simp
  show "map jr_state (jb_jobs w_retried) = [StateRetryWait]" unfolding w_retried_def w_plan by code_simp
  show "map jr_state (jb_jobs (snd (run_tx (claim_tx (seconds 9) (w_queue ''w1'')) w_retried))) = [StateRunning]"
    unfolding w_retried_def w_plan by code_simp
qed

end
