(* ===== verification/Browser_Gate.thy ===== *)
theory Browser_Gate
  imports CC_Net
begin

text \<open>
  The gates of \<^verbatim>\<open>internal/core/browser\<close>: the allowlist of a session and the check of every URL
  (\<^verbatim>\<open>allowlist.go\<close>), the connect-time proxy that resolves a name and dials only checked addresses (\<^verbatim>\<open>ssrf.go\<close>),
  and the selector subset of \<^verbatim>\<open>WaitFor\<close> (\<^verbatim>\<open>selector.go\<close>). Parameters: \<open>to_ascii\<close>, the conversion of
  \<^verbatim>\<open>golang.org/x/net/idna\<close>; the answers of the resolver, one per lookup; whether a dial succeeds; the parsed
  document tree.
\<close>

section \<open>Allowlists\<close>

type_synonym allowlist = "string list" \<comment> \<open>the keys of the map, in some order\<close>

datatype browser_error = ErrInvalidAllowlist | Denied string \<comment> \<open>the stable reason token\<close>

definition dnsLabel :: "string \<Rightarrow> bool" where
  "dnsLabel s \<longleftrightarrow> s \<noteq> [] \<and> length s \<le> 63 \<and>
     list_all (\<lambda>i. is_lower (s ! i) \<or> is_digit (s ! i) \<or> (s ! i = CHR ''-'' \<and> i \<noteq> 0 \<and> i \<noteq> length s - 1)) [0..<length s]"

definition canonicalHost :: "(string \<Rightarrow> string option) \<Rightarrow> string \<Rightarrow> string option" where
  "canonicalHost to_ascii raw =
     (let s = trim_suffix (trim_space raw) ''.'' in
      if s = [] \<or> contains_any s ''/:@[] '' \<or> contains_sub s ''..'' then None
      else if ParseIP s \<noteq> None then None
      else case to_ascii s of
             None \<Rightarrow> None
           | Some a0 \<Rightarrow>
               (let a = to_lower a0 in
                if a = [] \<or> ParseIP a \<noteq> None then None
                else if \<not> list_all dnsLabel (split_on (CHR ''.'') a) then None
                else Some a))"

fun parse_hosts :: "(string \<Rightarrow> string option) \<Rightarrow> string list \<Rightarrow> allowlist \<Rightarrow> browser_error + allowlist" where
  "parse_hosts to_ascii [] al = Inr al"
| "parse_hosts to_ascii (raw # hs) al =
     (case canonicalHost to_ascii raw of
        None \<Rightarrow> Inl ErrInvalidAllowlist
      | Some h \<Rightarrow> parse_hosts to_ascii hs (List.insert h al))"

definition parseAllowlist :: "(string \<Rightarrow> string option) \<Rightarrow> string list \<Rightarrow> browser_error + allowlist" where
  "parseAllowlist to_ascii hosts =
     (if hosts = [] then Inl ErrInvalidAllowlist
      else case parse_hosts to_ascii hosts [] of
             Inl e \<Rightarrow> Inl e
           | Inr al \<Rightarrow> if al = [] then Inl ErrInvalidAllowlist else Inr al)"

definition checkURLScheme :: "(string \<Rightarrow> string option) \<Rightarrow> url option \<Rightarrow> allowlist \<Rightarrow> string \<Rightarrow> browser_error + unit" where
  "checkURLScheme to_ascii u0 al scheme =
     (case u0 of None \<Rightarrow> Inl (Denied ''scheme'')
      | Some u \<Rightarrow>
        if u_scheme u = [] \<or> u_host u = [] then Inl (Denied ''scheme'')
        else if \<not> equal_fold (u_scheme u) scheme then Inl (Denied ''scheme'')
        else if u_user u \<noteq> None then Inl (Denied ''userinfo'')
        else if Hostname u = [] then Inl (Denied ''host'')
        else if CHR ''['' \<in> set (u_host u) \<or> ParseIP (Hostname u) \<noteq> None then Inl (Denied ''address'')
        else if Port u \<noteq> [] \<and> Port u \<noteq> ''443'' then Inl (Denied ''port'')
        else case canonicalHost to_ascii (Hostname u) of
               None \<Rightarrow> Inl (Denied ''host'')
             | Some canon \<Rightarrow> if canon \<in> set al then Inr () else Inl (Denied ''host''))"

definition checkURL :: "(string \<Rightarrow> string option) \<Rightarrow> url option \<Rightarrow> allowlist \<Rightarrow> browser_error + unit" where
  "checkURL to_ascii u al = checkURLScheme to_ascii u al ''https''"

section \<open>The proxy\<close>

definition cgnat :: "ip \<Rightarrow> bool" where
  "cgnat ip = (case To4 ip of None \<Rightarrow> False | Some v \<Rightarrow> v ! 0 = 100 \<and> 64 \<le> v ! 1 \<and> v ! 1 \<le> 127)"

definition checkResolvedIP :: "ip \<Rightarrow> bool" where
  "checkResolvedIP ip \<longleftrightarrow> \<not> (IsLoopback ip \<or> IsPrivate ip \<or> IsLinkLocalUnicast ip \<or> IsLinkLocalMulticast ip \<or>
     IsUnspecified ip \<or> cgnat ip)"

type_synonym answer = "ip list option" \<comment> \<open>one lookup; \<^const>\<open>None\<close> is an error\<close>

definition checkHost :: "string \<Rightarrow> answer \<Rightarrow> browser_error + unit" where
  "checkHost host ans =
     (if host = [] then Inl (Denied ''address'')
      else if ParseIP host \<noteq> None then Inl (Denied ''address'')
      else case ans of
             None \<Rightarrow> Inl (Denied ''address'')
           | Some ips \<Rightarrow>
               if ips = [] then Inl (Denied ''address'')
               else if list_all checkResolvedIP ips then Inr () else Inl (Denied ''address''))"

datatype dialled = Dialled ip | DialFailed | DialDenied string

fun dial_first :: "(ip \<Rightarrow> bool) \<Rightarrow> ip list \<Rightarrow> ip option" where
  "dial_first up [] = None"
| "dial_first up (x # xs) = (if up x then Some x else dial_first up xs)"

definition dialChecked :: "string \<Rightarrow> string \<Rightarrow> answer \<Rightarrow> answer \<Rightarrow> (ip \<Rightarrow> bool) \<Rightarrow> dialled" where
  \<comment> \<open>the code looks the name up twice: \<open>ans1\<close> is checked, \<open>ans2\<close> is dialled\<close>
  "dialChecked host port ans1 ans2 up =
     (if port \<noteq> ''443'' then DialDenied ''port''
      else case checkHost host ans1 of
             Inl (Denied r) \<Rightarrow> DialDenied r
           | Inl _ \<Rightarrow> DialDenied ''address''
           | Inr _ \<Rightarrow>
               (case ans2 of
                  None \<Rightarrow> DialDenied ''address''
                | Some ips \<Rightarrow>
                    (case dial_first up ips of
                       Some x \<Rightarrow> Dialled x
                     | None \<Rightarrow> if ips = [] then DialDenied ''address'' else DialFailed)))"

definition parseConnectHost :: "string \<Rightarrow> (string \<times> string) option" where
  "parseConnectHost raw0 =
     (let raw = trim_space raw0 in
      if raw = [] then None
      else case SplitHostPort raw of
             None \<Rightarrow> None
           | Some (h, p) \<Rightarrow> if h = [] \<or> p = [] then None else Some (h, p))"

datatype proxy_reply = MethodNotAllowed | Forbidden | Tunnel ip

definition ServeHTTP :: "string \<Rightarrow> string \<Rightarrow> answer \<Rightarrow> answer \<Rightarrow> (ip \<Rightarrow> bool) \<Rightarrow> proxy_reply" where
  "ServeHTTP httpMethod target ans1 ans2 up =
     (if httpMethod \<noteq> ''CONNECT'' then MethodNotAllowed
      else case parseConnectHost target of
             None \<Rightarrow> Forbidden
           | Some (host, port) \<Rightarrow>
               (case dialChecked host port ans1 ans2 up of Dialled x \<Rightarrow> Tunnel x | _ \<Rightarrow> Forbidden))"

definition dial_subscribe :: "string \<Rightarrow> answer \<Rightarrow> (ip \<Rightarrow> bool) \<Rightarrow> dialled" where
  \<comment> \<open>\<^verbatim>\<open>dialChecked\<close> of \<^verbatim>\<open>subscribe.go\<close>: one lookup, checked and dialled\<close>
  "dial_subscribe addr ans up =
     (case SplitHostPort addr of
        None \<Rightarrow> DialDenied ''address''
      | Some (host, port) \<Rightarrow>
          if port \<noteq> ''443'' then DialDenied ''port''
          else if ParseIP host \<noteq> None then DialDenied ''address''
          else case ans of
                 None \<Rightarrow> DialDenied ''address''
               | Some ips \<Rightarrow>
                   if ips = [] then DialDenied ''address''
                   else if \<not> list_all checkResolvedIP ips then DialDenied ''address''
                   else (case dial_first up ips of Some x \<Rightarrow> Dialled x | None \<Rightarrow> DialFailed))"

section \<open>Names\<close>

lemma split_double: "[] \<in> set (tl (split_on d (a @ d # d # b)))"
  by (induction a) (auto split: list.splits intro: list.set_sel(2))

lemma split_trailing: "[] \<in> set (tl (split_on d (a @ [d])))"
  by (induction a) (auto split: list.splits intro: list.set_sel(2))

lemma contains_sub_iff: "contains_sub s p \<longleftrightarrow> (\<exists>a b. s = a @ p @ b)"
proof (induction s)
  case (Cons c s)
  show ?case
  proof
    assume "contains_sub (c # s) p"
    then consider "has_prefix (c # s) p" | "contains_sub s p" by auto
    then show "\<exists>a b. c # s = a @ p @ b"
    proof cases
      case 1
      then show ?thesis by (metis append_Nil has_prefix_iff)
    next
      case 2
      then show ?thesis using Cons by (metis append_Cons)
    qed
  next
    assume "\<exists>a b. c # s = a @ p @ b"
    then obtain a b where ab: "c # s = a @ p @ b" by blast
    show "contains_sub (c # s) p"
    proof (cases a)
      case Nil
      then have "has_prefix (c # s) p" unfolding has_prefix_iff using ab by auto
      then show ?thesis by simp
    next
      case (Cons x a')
      then show ?thesis using ab Cons.IH by auto
    qed
  qed
qed auto

lemma no_label_no_dots:
  assumes "[] \<notin> set (split_on (CHR ''.'') s)"
  shows "\<not> contains_sub s ''..''" "\<not> has_suffix s ''.''"
proof -
  show "\<not> contains_sub s ''..''"
  proof
    assume "contains_sub s ''..''"
    then obtain a b where "s = a @ ''..'' @ b" by (auto simp: contains_sub_iff)
    then show False using assms split_double[of "CHR ''.''" a b] list.set_sel(2)[of "split_on (CHR ''.'') s"] by simp
  qed
  show "\<not> has_suffix s ''.''"
    using assms split_trailing[of "CHR ''.''"] list.set_sel(2)[of "split_on (CHR ''.'') s"] by (auto simp: has_suffix_iff)
qed

definition host_char :: "char \<Rightarrow> bool" where
  "host_char c \<longleftrightarrow> is_lower c \<or> is_digit c \<or> c = CHR ''-''"

lemma dnsLabel_chars: "dnsLabel s \<Longrightarrow> c \<in> set s \<Longrightarrow> host_char c"
  by (auto simp: dnsLabel_def list_all_iff host_char_def in_set_conv_nth)

lemma split_chars: "c \<in> set s \<Longrightarrow> c = d \<or> (\<exists>w \<in> set (split_on d s). c \<in> set w)"
proof -
  have j: "set (join_with [d] ws) \<subseteq> insert d (\<Union>w \<in> set ws. set w)" for ws
    by (induction ws rule: induct_list012) auto
  show "c \<in> set s \<Longrightarrow> ?thesis" using j[of "split_on d s"] by auto
qed

definition dns_name :: "string \<Rightarrow> bool" where
  "dns_name c \<longleftrightarrow> c \<noteq> [] \<and> ParseIP c = None \<and> list_all dnsLabel (split_on (CHR ''.'') c)"

lemma canonicalHost_dns: "canonicalHost to_ascii raw = Some c \<Longrightarrow> dns_name c"
  by (auto simp: canonicalHost_def dns_name_def Let_def split: if_splits option.splits)

lemma dns_name_chars:
  assumes "dns_name c" "x \<in> set c"
  shows "host_char x \<or> x = CHR ''.''"
proof -
  consider "x = CHR ''.''" | w where "w \<in> set (split_on (CHR ''.'') c)" "x \<in> set w"
    using split_chars[OF assms(2)] by blast
  then show ?thesis
  proof cases
    case 2
    then have "dnsLabel w" using assms(1) by (simp add: dns_name_def list_all_iff)
    then show ?thesis using dnsLabel_chars 2(2) by simp
  qed simp
qed

lemma host_char_simps:
  "host_char x \<or> x = CHR ''.'' \<Longrightarrow> \<not> is_space x \<and> lower_char x = x \<and> x \<notin> set ''/:@[] ''"
proof -
  have "\<not> is_upper x" if "is_lower x \<or> is_digit x"
    using that by (auto simp: is_upper_def is_lower_def is_digit_def less_eq_char_def)
  moreover have "\<not> host_char y" if "y \<in> set ''/:@[] ''" for y
    using that by (auto simp: host_char_def is_lower_def is_digit_def less_eq_char_def)
  moreover have "\<not> host_char y" if "is_space y" for y
    using that by (auto simp: host_char_def is_lower_def is_digit_def is_space_def less_eq_char_def)
  moreover have "\<not> is_upper (CHR ''.'')" "\<not> is_upper (CHR ''-'')" "\<not> is_space (CHR ''.'')" "CHR ''.'' \<notin> set ''/:@[] ''"
    by code_simp+
  ultimately show "host_char x \<or> x = CHR ''.'' \<Longrightarrow> ?thesis" by (auto simp: lower_char_def host_char_def)
qed

lemma canonicalHost_fixed:
  assumes "dns_name c" "to_ascii c = Some c"
  shows "canonicalHost to_ascii c = Some c"
proof -
  have ch: "\<not> is_space x \<and> lower_char x = x \<and> x \<notin> set ''/:@[] ''" if "x \<in> set c" for x
    using host_char_simps dns_name_chars[OF assms(1) that] by blast
  have ts: "dropWhile is_space s = s" if "set s \<subseteq> set c" for s
    using that ch by (cases s) auto
  have t: "trim_space c = c" using ts[of c] ts[of "rev c"] by (simp add: trim_space_def)
  have e: "[] \<notin> set (split_on (CHR ''.'') c)" using assms(1) by (auto simp: dns_name_def list_all_iff dnsLabel_def)
  have l: "to_lower c = c" unfolding to_lower_def using ch by (intro map_idI) blast
  have a: "\<not> contains_any c ''/:@[] ''" unfolding contains_any_def list_ex_iff using ch by blast
  show ?thesis
    using assms no_label_no_dots[OF e]
    by (simp add: canonicalHost_def Let_def t l a trim_suffix_def dns_name_def)
qed

section \<open>Address blocks\<close>

text \<open>The reference: the reserved blocks in CIDR notation, matched byte by byte under the mask.\<close>

definition in_cidr :: "ip \<Rightarrow> nat \<Rightarrow> ip \<Rightarrow> bool" where
  "in_cidr net k ip \<longleftrightarrow> length ip = length net \<and> take (k div 8) ip = take (k div 8) net \<and>
     (k mod 8 = 0 \<or> (ip ! (k div 8)) div 2 ^ (8 - k mod 8) = (net ! (k div 8)) div 2 ^ (8 - k mod 8))"

definition v4_blocks :: "(ip \<times> nat) list" where
  "v4_blocks = [([127, 0, 0, 0], 8), ([10, 0, 0, 0], 8), ([172, 16, 0, 0], 12), ([192, 168, 0, 0], 16), ([169, 254, 0, 0], 16),
     ([224, 0, 0, 0], 24), ([0, 0, 0, 0], 32), ([100, 64, 0, 0], 10)]"

definition v6_blocks :: "(ip \<times> nat) list" where
  \<comment> \<open>\<^verbatim>\<open>::1/128\<close>, \<^verbatim>\<open>fc00::/7\<close>, \<^verbatim>\<open>fe80::/10\<close>, \<^verbatim>\<open>::/128\<close> and link-local multicast under all its flags\<close>
  "v6_blocks = [(replicate 15 0 @ [1], 128), (252 # replicate 15 0, 7), (254 # 128 # replicate 14 0, 10), (replicate 16 0, 128)]
     @ map (\<lambda>f. (255 # (16 * f + 2) # replicate 14 0, 16)) [0..15]"

definition reserved :: "ip \<Rightarrow> bool" where
  "reserved ip \<longleftrightarrow> (case To4 ip of
      Some v \<Rightarrow> list_ex (\<lambda>(net, k). in_cidr net k v) v4_blocks
    | None \<Rightarrow> list_ex (\<lambda>(net, k). in_cidr net k ip) v6_blocks)"

definition valid_ip :: "ip \<Rightarrow> bool" where
  "valid_ip ip \<longleftrightarrow> (length ip = 4 \<or> length ip = 16) \<and> list_all (\<lambda>b. 0 \<le> b \<and> b \<le> 255) ip"

lemma To4_valid: "valid_ip ip \<Longrightarrow> To4 ip = Some v \<Longrightarrow> \<exists>a b c d. v = [a, b, c, d] \<and> 0 \<le> b \<and> b \<le> 255"
  by (auto simp: To4_def valid_ip_def eval_nat_numeral length_Suc_conv split: if_splits)

lemma To4_None: "valid_ip ip \<Longrightarrow> To4 ip = None \<Longrightarrow> length ip = 16"
  by (auto simp: To4_def valid_ip_def split: if_splits)

lemma low_nibble: "0 \<le> (b::int) \<Longrightarrow> b \<le> 255 \<Longrightarrow> b mod 16 = 2 \<longleftrightarrow> b \<in> (\<lambda>f. 16 * f + 2) ` set [0..15]"
proof
  assume b: "0 \<le> b" "b \<le> 255" "b mod 16 = 2"
  have "b = 16 * (b div 16) + 2" using b(3) by (metis mult_div_mod_eq)
  moreover have "b div 16 \<in> set [0..15]" using b by auto
  ultimately show "b \<in> (\<lambda>f. 16 * f + 2) ` set [0..15]" by blast
qed auto

lemma take_byte: "length ip = 16 \<Longrightarrow> take (Suc 0) ip = [ip ! 0]" "length ip = 16 \<Longrightarrow> take 2 ip = [ip ! 0, ip ! 1]"
  by (auto simp: take_Suc_conv_app_nth eval_nat_numeral length_Suc_conv)

lemma v6_reserved:
  assumes "length ip = 16" "valid_ip ip"
  shows "list_ex (\<lambda>(net, k). in_cidr net k ip) v6_blocks \<longleftrightarrow>
    ip = replicate 15 0 @ [1] \<or> (ip ! 0) div 2 = 126 \<or> (ip ! 0 = 254 \<and> (ip ! 1) div 64 = 2) \<or> ip = replicate 16 0 \<or>
    (ip ! 0 = 255 \<and> (ip ! 1) mod 16 = 2)"
proof -
  have b: "0 \<le> ip ! 1" "ip ! 1 \<le> 255" using assms by (auto simp: valid_ip_def list_all_length)
  have m: "list_ex (\<lambda>(net, k). in_cidr net k ip) (map (\<lambda>f. (255 # (16 * f + 2) # replicate 14 0, 16)) [0..15]) \<longleftrightarrow>
    ip ! 0 = 255 \<and> (ip ! 1) mod 16 = 2"
    using low_nibble[OF b] by (auto simp: list_ex_iff in_cidr_def assms(1) take_byte[OF assms(1)])
  have "in_cidr (replicate 15 0 @ [1]) 128 ip \<longleftrightarrow> ip = replicate 15 0 @ [1]"
    "in_cidr (replicate 16 0) 128 ip \<longleftrightarrow> ip = replicate 16 0"
    "in_cidr (252 # replicate 15 0) 7 ip \<longleftrightarrow> (ip ! 0) div 2 = 126"
    "in_cidr (254 # 128 # replicate 14 0) 10 ip \<longleftrightarrow> ip ! 0 = 254 \<and> (ip ! 1) div 64 = 2"
    using assms(1) by (simp_all add: in_cidr_def take_byte[OF assms(1)])
  then show ?thesis unfolding v6_blocks_def list_ex_append m by simp
qed

lemma v4_reserved:
  "list_ex (\<lambda>(net, k). in_cidr net k [a, b, c, d]) v4_blocks \<longleftrightarrow>
     a = 127 \<or> a = 10 \<or> (a = 172 \<and> b div 16 = 1) \<or> (a = 192 \<and> b = 168) \<or> (a = 169 \<and> b = 254) \<or>
     (a = 224 \<and> b = 0 \<and> c = 0) \<or> (a = 0 \<and> b = 0 \<and> c = 0 \<and> d = 0) \<or> (a = 100 \<and> b div 64 = 1)"
  unfolding v4_blocks_def in_cidr_def by (simp add: take_Cons')

section \<open>Properties\<close>

text \<open>
  C33. An address passes the connect-time check exactly when it lies in none of the reserved blocks: loopback,
  private, link-local, unspecified and shared address space, in the 4-byte form, the IPv4-mapped form and IPv6.
\<close>

theorem resolved_ip_spec:
  assumes "valid_ip ip"
  shows "checkResolvedIP ip \<longleftrightarrow> \<not> reserved ip"
proof (cases "To4 ip")
  case (Some v)
  obtain a b c d where v: "v = [a, b, c, d]" "0 \<le> b" "b \<le> 255" using To4_valid[OF assms Some] by blast
  have z: "IsUnspecified ip \<longleftrightarrow> v = [0, 0, 0, 0]"
    using Some by (auto simp: IsUnspecified_def To4_def v4_in_v6_def eval_nat_numeral split: if_splits)
  have "b div 64 = 1 \<longleftrightarrow> 64 \<le> b \<and> b \<le> 127" by auto
  then show ?thesis
    unfolding checkResolvedIP_def z reserved_def
    by (simp add: Some v(1) IsLoopback_def IsPrivate_def IsLinkLocalUnicast_def IsLinkLocalMulticast_def cgnat_def
        v4_reserved)
next
  case None
  have l: "length ip = 16" by (rule To4_None[OF assms None])
  show ?thesis
    using v6_reserved[OF l assms]
    by (auto simp: checkResolvedIP_def reserved_def None IsLoopback_def IsPrivate_def IsLinkLocalUnicast_def
        IsLinkLocalMulticast_def IsUnspecified_def cgnat_def l)
qed

theorem resolved_ip_spec_witness: "checkResolvedIP [8, 8, 8, 8] \<and> \<not> reserved [8, 8, 8, 8]"
proof -
  have "valid_ip [8, 8, 8, 8]" "checkResolvedIP [8, 8, 8, 8]" by code_simp+
  then show ?thesis using resolved_ip_spec by blast
qed



lemma parse_hosts_mem:
  "parse_hosts to_ascii hs al = Inr al' \<Longrightarrow> c \<in> set al' \<Longrightarrow> c \<in> set al \<or> (\<exists>raw \<in> set hs. canonicalHost to_ascii raw = Some c)"
  by (induction to_ascii hs al rule: parse_hosts.induct) (auto split: option.splits)

text \<open>
  C32. A URL that passes the gate of a session, at first or after a redirect, has the pinned scheme, no userinfo,
  no address literal and no port but 443, and its host has the canonical form of one of the hosts the plugin
  declared when the session was opened.
\<close>

theorem url_gate_sound:
  assumes "parseAllowlist to_ascii hosts = Inr al" "checkURLScheme to_ascii (Some u) al scheme = Inr ()"
  shows "equal_fold (u_scheme u) scheme \<and> u_user u = None \<and> ParseIP (Hostname u) = None \<and> Port u \<in> {[], ''443''} \<and>
    (\<exists>raw \<in> set hosts. \<exists>c. canonicalHost to_ascii raw = Some c \<and> canonicalHost to_ascii (Hostname u) = Some c \<and> dns_name c)"
proof -
  obtain c where c: "canonicalHost to_ascii (Hostname u) = Some c" "c \<in> set al"
    and g: "equal_fold (u_scheme u) scheme" "u_user u = None" "ParseIP (Hostname u) = None" "Port u \<in> {[], ''443''}"
    using assms(2) by (auto simp: checkURLScheme_def split: if_splits option.splits)
  have "parse_hosts to_ascii hosts [] = Inr al"
    using assms(1) by (auto simp: parseAllowlist_def split: if_splits sum.splits)
  from parse_hosts_mem[OF this c(2)] obtain raw where "raw \<in> set hosts" "canonicalHost to_ascii raw = Some c" by auto
  then show ?thesis using g c(1) canonicalHost_dns[OF c(1)] by blast
qed

theorem url_gate_sound_witness:
  "\<exists>al. parseAllowlist Some [''Example.test''] = Inr al \<and>
    checkURLScheme Some (Some \<lparr>u_scheme = ''HTTPS'', u_host = ''example.TEST:443'', u_user = None, u_rest = ''/'', u_fragment = []\<rparr>) al ''https'' = Inr () \<and>
    (\<exists>raw c. raw \<in> set [''Example.test''] \<and> canonicalHost Some raw = Some c \<and> dns_name c)"
proof -
  have a: "parseAllowlist Some [''Example.test''] = Inr [''example.test'']" by code_simp
  have b: "checkURLScheme Some (Some \<lparr>u_scheme = ''HTTPS'', u_host = ''example.TEST:443'', u_user = None, u_rest = ''/'', u_fragment = []\<rparr>) [''example.test''] ''https'' = Inr ()"
    by code_simp
  show ?thesis using url_gate_sound[OF a b] a b by blast
qed

lemma dial_first_mem: "dial_first up ips = Some x \<Longrightarrow> x \<in> set ips \<and> up x"
  by (induction ips) (auto split: if_splits)



text \<open>
  Without it the proxy dials whatever the second answer says: a name whose answer changes between the two lookups
  reaches the loopback interface.
\<close>

lemma dial_rebinding:
  "dialChecked ''a.test'' ''443'' (Some [[8, 8, 8, 8]]) (Some [[127, 0, 0, 1]]) (\<lambda>_. True) = Dialled [127, 0, 0, 1] \<and>
   \<not> checkResolvedIP [127, 0, 0, 1]"
  by code_simp

end
