(* ===== verification/Browser_Session.thy ===== *)
theory Browser_Session
  imports Browser_Gate
begin

text \<open>
  The concurrent state of \<^verbatim>\<open>internal/core/browser\<close>: the registry of sessions per plugin with its placeholders
  (\<^verbatim>\<open>browser.go\<close>), the pages of a session (\<^verbatim>\<open>session.go\<close>) and one subscription (\<^verbatim>\<open>subscribe.go\<close>). Every critical
  section is one step and goroutines interleave between them. The engine, the websocket and JSON syntax are
  parameters or choices of the environment.
\<close>

section \<open>The registry of sessions\<close>

record browser_options =
  bo_sessions :: nat \<comment> \<open>\<^verbatim>\<open>MaxSessionsPerPlugin\<close>\<close>
  bo_pages :: nat
  bo_pages_host :: nat
  bo_subs :: nat

definition applyDefaults :: "int \<Rightarrow> int \<Rightarrow> int \<Rightarrow> int \<Rightarrow> browser_options" where
  "applyDefaults a b c e = \<lparr>bo_sessions = (if a \<le> 0 then 2 else nat a), bo_pages = (if b \<le> 0 then 4 else nat b),
     bo_pages_host = (if c \<le> 0 then 32 else nat c), bo_subs = (if e \<le> 0 then 4 else nat e)\<rparr>"

record session =
  ss_plugin :: string
  ss_pages :: "bool list" \<comment> \<open>one flag per page of the list: it is closed\<close>
  ss_subs :: nat
  ss_closed :: bool

record service =
  sv_lists :: "string \<Rightarrow> nat option list" \<comment> \<open>\<^verbatim>\<open>sessions\<close>; \<^const>\<open>None\<close> is a placeholder, the empty list an absent key\<close>
  sv_sess :: "nat \<Rightarrow> session"

datatype session_error = ErrLimit | ErrClosed

definition session_pageCount :: "session \<Rightarrow> nat" where
  "session_pageCount s = length (filter (\<lambda>closed. \<not> closed) (ss_pages s))"

definition pageCountLocked :: "string list \<Rightarrow> service \<Rightarrow> nat" where
  \<comment> \<open>the first argument is the keys of the map\<close>
  "pageCountLocked keys v =
     sum_list (map (\<lambda>p. sum_list (map (\<lambda>x. case x of None \<Rightarrow> 0 | Some n \<Rightarrow> session_pageCount (sv_sess v n)) (sv_lists v p))) keys)"

definition reserveSlot :: "browser_options \<Rightarrow> string list \<Rightarrow> string \<Rightarrow> service \<Rightarrow> (session_error + unit) \<times> service" where
  "reserveSlot o1 keys p v =
     (if bo_sessions o1 \<le> length (sv_lists v p) then (Inl ErrLimit, v)
      else if bo_pages_host o1 \<le> pageCountLocked keys v then (Inl ErrLimit, v)
      else (Inr (), v\<lparr>sv_lists := (sv_lists v)(p := sv_lists v p @ [None])\<rparr>))"

fun remove_first :: "'a \<Rightarrow> 'a list \<Rightarrow> 'a list" where
  "remove_first a [] = []"
| "remove_first a (x # xs) = (if x = a then xs else x # remove_first a xs)"

definition releaseReservation :: "string \<Rightarrow> service \<Rightarrow> service" where
  \<comment> \<open>the last placeholder goes\<close>
  "releaseReservation p v = v\<lparr>sv_lists := (sv_lists v)(p := rev (remove_first None (rev (sv_lists v p))))\<rparr>"

fun replace_first :: "'a \<Rightarrow> 'a \<Rightarrow> 'a list \<Rightarrow> 'a list" where
  "replace_first a b [] = []"
| "replace_first a b (x # xs) = (if x = a then b # xs else x # replace_first a b xs)"

definition commitSession :: "string \<Rightarrow> nat \<Rightarrow> service \<Rightarrow> (session_error + unit) \<times> service" where
  "commitSession p n v =
     (if None \<in> set (sv_lists v p)
      then (Inr (), v\<lparr>sv_lists := (sv_lists v)(p := replace_first None (Some n) (sv_lists v p))\<rparr>)
      else (Inl ErrClosed, v))"

definition dropSession :: "nat \<Rightarrow> service \<Rightarrow> service" where
  "dropSession n v =
     (let p = ss_plugin (sv_sess v n)
      in v\<lparr>sv_lists := (sv_lists v)(p := filter (\<lambda>x. x \<noteq> Some n) (sv_lists v p))\<rparr>)"

definition takeSessions :: "string \<Rightarrow> service \<Rightarrow> nat list \<times> service" where
  \<comment> \<open>the critical section of \<^verbatim>\<open>ClosePlugin\<close>: the sessions it then closes\<close>
  "takeSessions p v = (List.map_filter id (sv_lists v p), v\<lparr>sv_lists := (sv_lists v)(p := [])\<rparr>)"

definition markClosed :: "nat \<Rightarrow> service \<Rightarrow> service" where
  \<comment> \<open>the critical section of \<^verbatim>\<open>closeLocked\<close>\<close>
  "markClosed n v =
     (if ss_closed (sv_sess v n) then v
      else v\<lparr>sv_sess := (sv_sess v)(n := (sv_sess v n)\<lparr>ss_closed := True, ss_pages := [], ss_subs := 0\<rparr>)\<rparr>)"

text \<open>
  The goroutines: \<open>wd_opening\<close> holds the plugins whose \<^verbatim>\<open>Open\<close> is between its reservation and its commit,
  \<open>wd_closing\<close> the sessions a \<^verbatim>\<open>ClosePlugin\<close> or \<^verbatim>\<open>Close\<close> has taken and not yet marked, \<open>wd_dropping\<close> those marked
  and not yet dropped, \<open>wd_next\<close> the number of the next session.
\<close>

record world =
  wd_svc :: service
  wd_opening :: "string list"
  wd_closing :: "nat list"
  wd_dropping :: "nat list"
  wd_next :: nat

definition fresh_session :: "string \<Rightarrow> session" where
  "fresh_session p = \<lparr>ss_plugin = p, ss_pages = [], ss_subs = 0, ss_closed = False\<rparr>"

definition closeLocked :: "nat \<Rightarrow> world \<Rightarrow> world" where
  \<comment> \<open>a session that is already closed is left alone; otherwise it still has to be dropped\<close>
  "closeLocked n w =
     (if ss_closed (sv_sess (wd_svc w) n) then w
      else w\<lparr>wd_svc := markClosed n (wd_svc w), wd_dropping := n # wd_dropping w\<rparr>)"

inductive browser_step :: "browser_options \<Rightarrow> world \<Rightarrow> world \<Rightarrow> bool" for o1 where
  open_reserve: "reserveSlot o1 keys p (wd_svc w) = (Inr (), v) \<Longrightarrow>
    browser_step o1 w (w\<lparr>wd_svc := v, wd_opening := p # wd_opening w\<rparr>)"
| open_fail: "p \<in> set (wd_opening w) \<Longrightarrow>
    browser_step o1 w (w\<lparr>wd_svc := releaseReservation p (wd_svc w), wd_opening := remove1 p (wd_opening w)\<rparr>)"
| open_commit: "p \<in> set (wd_opening w) \<Longrightarrow> n = wd_next w \<Longrightarrow>
    v0 = (wd_svc w)\<lparr>sv_sess := (sv_sess (wd_svc w))(n := fresh_session p)\<rparr> \<Longrightarrow> commitSession p n v0 = (Inr (), v) \<Longrightarrow>
    browser_step o1 w (w\<lparr>wd_svc := v, wd_opening := remove1 p (wd_opening w), wd_next := Suc n\<rparr>)"
| open_lost: "p \<in> set (wd_opening w) \<Longrightarrow> n = wd_next w \<Longrightarrow> commitSession p n (wd_svc w) = (Inl e, v) \<Longrightarrow>
    browser_step o1 w (w\<lparr>wd_svc := v, wd_opening := remove1 p (wd_opening w)\<rparr>)"
| close_plugin: "takeSessions p (wd_svc w) = (ns, v) \<Longrightarrow>
    browser_step o1 w (w\<lparr>wd_svc := v, wd_closing := ns @ wd_closing w\<rparr>)"
| close_one: "n \<in> set (wd_closing w) \<Longrightarrow>
    browser_step o1 w (closeLocked n (w\<lparr>wd_closing := filter (\<lambda>m. m \<noteq> n) (wd_closing w)\<rparr>))"
| close_session: "n < wd_next w \<Longrightarrow> browser_step o1 w (closeLocked n w)"
| drop: "n \<in> set (wd_dropping w) \<Longrightarrow>
    browser_step o1 w (w\<lparr>wd_svc := dropSession n (wd_svc w), wd_dropping := remove1 n (wd_dropping w)\<rparr>)"

definition live :: "world \<Rightarrow> nat \<Rightarrow> bool" where
  "live w n \<longleftrightarrow> n < wd_next w \<and> \<not> ss_closed (sv_sess (wd_svc w) n)"

definition browser_ok :: "browser_options \<Rightarrow> world \<Rightarrow> bool" where
  "browser_ok o1 w \<longleftrightarrow>
     (\<forall>p. length (sv_lists (wd_svc w) p) \<le> bo_sessions o1) \<and>
     (\<forall>p n. Some n \<in> set (sv_lists (wd_svc w) p) \<longrightarrow> n < wd_next w \<and> ss_plugin (sv_sess (wd_svc w) n) = p) \<and>
     (\<forall>n. live w n \<longrightarrow> Some n \<in> set (sv_lists (wd_svc w) (ss_plugin (sv_sess (wd_svc w) n))) \<or> n \<in> set (wd_closing w)) \<and>
     (\<forall>n \<in> set (wd_closing w) \<union> set (wd_dropping w). n < wd_next w) \<and>
     (\<forall>n \<in> set (wd_dropping w). ss_closed (sv_sess (wd_svc w) n))"

lemma length_remove_first: "length (remove_first a xs) \<le> length xs"
  by (induction xs) auto

lemma set_remove_first: "x \<noteq> a \<Longrightarrow> x \<in> set (remove_first a xs) \<longleftrightarrow> x \<in> set xs"
  by (induction xs) auto

lemma length_replace_first [simp]: "length (replace_first a b xs) = length xs"
  by (induction xs) auto

lemma set_replace_first: "x \<noteq> a \<Longrightarrow> x \<in> set (replace_first a b xs) \<longleftrightarrow> x \<in> set xs \<or> (x = b \<and> a \<in> set xs)"
  by (induction xs) auto

lemma take_all: "set (List.map_filter id xs) = {n. Some n \<in> set xs}"
  by (induction xs) (auto simp: List.map_filter_simps split: option.splits)

lemma closeLocked_ok:
  assumes "browser_ok o1 (w\<lparr>wd_closing := n # wd_closing w\<rparr>)"
  shows "browser_ok o1 (closeLocked n w)"
  using assms
  by (auto simp: closeLocked_def browser_ok_def live_def markClosed_def)

lemma browser_step_ok: "browser_step o1 w w' \<Longrightarrow> browser_ok o1 w \<Longrightarrow> browser_ok o1 w'"
proof (induction rule: browser_step.induct)
  case (open_reserve keys p w v)
  then show ?case
    by (auto simp: reserveSlot_def browser_ok_def live_def split: if_splits)
next
  case (open_fail p w)
  have "length (rev (remove_first None (rev xs))) \<le> length xs" for xs :: "nat option list"
    using length_remove_first[of None "rev xs"] by simp
  then show ?case
    using open_fail by (auto simp: releaseReservation_def browser_ok_def live_def set_remove_first intro: order_trans)
next
  case (open_commit p w n v0 v)
  let ?w = "w\<lparr>wd_svc := v, wd_opening := remove1 p (wd_opening w), wd_next := Suc n\<rparr>"
  have sv: "sv_sess v = (sv_sess (wd_svc w))(n := fresh_session p)"
    and li: "sv_lists v = (sv_lists (wd_svc w))(p := replace_first None (Some n) (sv_lists (wd_svc w) p))"
    and mem: "None \<in> set (sv_lists (wd_svc w) p)" and n: "n = wd_next w"
    using open_commit(2-4) by (auto simp: commitSession_def split: if_splits)
  have ok: "length (sv_lists (wd_svc w) q) \<le> bo_sessions o1"
    "Some m \<in> set (sv_lists (wd_svc w) q) \<Longrightarrow> m < n \<and> ss_plugin (sv_sess (wd_svc w) m) = q"
    "m < n \<Longrightarrow> \<not> ss_closed (sv_sess (wd_svc w) m) \<Longrightarrow>
       Some m \<in> set (sv_lists (wd_svc w) (ss_plugin (sv_sess (wd_svc w) m))) \<or> m \<in> set (wd_closing w)"
    "m \<in> set (wd_closing w) \<or> m \<in> set (wd_dropping w) \<Longrightarrow> m < n"
    "m \<in> set (wd_dropping w) \<Longrightarrow> ss_closed (sv_sess (wd_svc w) m)" for q m
    using open_commit(5) unfolding browser_ok_def live_def n by blast+
  have kept: "Some m \<in> set (sv_lists v q) \<longleftrightarrow> Some m \<in> set (sv_lists (wd_svc w) q) \<or> (m = n \<and> q = p)" for m q
    using mem by (simp add: li set_replace_first)
  show ?case
    unfolding browser_ok_def live_def
  proof (intro conjI allI impI ballI; (elim conjE)?)
    fix q show "length (sv_lists (wd_svc ?w) q) \<le> bo_sessions o1"
      using ok(1) by (simp add: li)
  next
    fix m assume m: "m < wd_next ?w"
      "\<not> ss_closed (sv_sess (wd_svc ?w) m)"
    show "Some m \<in> set (sv_lists (wd_svc ?w)
        (ss_plugin (sv_sess (wd_svc ?w) m))) \<or>
      m \<in> set (wd_closing ?w)"
    proof (cases "m = n")
      case True
      then show ?thesis by (simp add: kept sv fresh_session_def)
    next
      case False
      then show ?thesis using m ok(3)[of m] by (simp add: kept sv)
    qed
  next
    fix q m assume "Some m \<in> set (sv_lists (wd_svc ?w) q)"
    then consider "Some m \<in> set (sv_lists (wd_svc w) q)" | "m = n" "q = p" by (auto simp: kept)
    then show "m < wd_next ?w"
      "ss_plugin (sv_sess (wd_svc ?w) m) = q"
      by (cases; use ok(2)[of m q] in \<open>simp add: sv fresh_session_def\<close>)+
  next
    fix m assume "m \<in> set (wd_closing ?w) \<union>
      set (wd_dropping ?w)"
    then show "m < wd_next ?w"
      using ok(4)[of m] by auto
  next
    fix m assume "m \<in> set (wd_dropping ?w)"
    then show "ss_closed (sv_sess (wd_svc ?w) m)"
      using ok(4,5)[of m] by (auto simp: sv)
  qed
next
  case (open_lost p w n e v)
  then have "v = wd_svc w" by (auto simp: commitSession_def split: if_splits)
  then show ?case using open_lost(4) by (simp add: browser_ok_def live_def)
next
  case (close_plugin p w ns v)
  have v: "sv_sess v = sv_sess (wd_svc w)" "sv_lists v = (sv_lists (wd_svc w))(p := [])" "set ns = {n. Some n \<in> set (sv_lists (wd_svc w) p)}"
    using close_plugin(1) by (auto simp: takeSessions_def take_all)
  show ?case
    using close_plugin(2) by (simp add: browser_ok_def live_def v) blast
next
  case (close_one n w)
  have "set (n # filter (\<lambda>m. m \<noteq> n) (wd_closing w)) = set (wd_closing w)" using close_one by auto
  then have "browser_ok o1 (w\<lparr>wd_closing := n # filter (\<lambda>m. m \<noteq> n) (wd_closing w)\<rparr>)"
    using close_one by (simp add: browser_ok_def live_def)
  then show ?case by (intro closeLocked_ok) simp
next
  case (close_session n w)
  then show ?case by (intro closeLocked_ok) (auto simp: browser_ok_def live_def)
next
  case (drop n w)
  let ?w = "w\<lparr>wd_svc := dropSession n (wd_svc w), wd_dropping := remove1 n (wd_dropping w)\<rparr>"
  have cl: "ss_closed (sv_sess (wd_svc w) n)" using drop by (simp add: browser_ok_def)
  have sv: "sv_sess (dropSession n (wd_svc w)) = sv_sess (wd_svc w)" by (simp add: dropSession_def Let_def)
  have kept: "Some m \<in> set (sv_lists (dropSession n (wd_svc w)) q) \<longleftrightarrow> Some m \<in> set (sv_lists (wd_svc w) q) \<and> (q = ss_plugin (sv_sess (wd_svc w) n) \<longrightarrow> m \<noteq> n)" for m q
    by (auto simp: dropSession_def Let_def)
  have len: "length (sv_lists (dropSession n (wd_svc w)) q) \<le> length (sv_lists (wd_svc w) q)" for q by (simp add: dropSession_def Let_def)
  have dr: "set (wd_dropping ?w) \<subseteq> set (wd_dropping w)" by (simp add: set_remove1_subset)
  have ok: "length (sv_lists (wd_svc w) q) \<le> bo_sessions o1"
    "Some m \<in> set (sv_lists (wd_svc w) q) \<Longrightarrow> m < wd_next w \<and> ss_plugin (sv_sess (wd_svc w) m) = q"
    "m < wd_next w \<Longrightarrow> \<not> ss_closed (sv_sess (wd_svc w) m) \<Longrightarrow>
       Some m \<in> set (sv_lists (wd_svc w) (ss_plugin (sv_sess (wd_svc w) m))) \<or> m \<in> set (wd_closing w)"
    "m \<in> set (wd_closing w) \<or> m \<in> set (wd_dropping w) \<Longrightarrow> m < wd_next w"
    "m \<in> set (wd_dropping w) \<Longrightarrow> ss_closed (sv_sess (wd_svc w) m)" for q m
    using drop(2) unfolding browser_ok_def live_def by blast+
  show ?case
    unfolding browser_ok_def live_def
  proof (intro conjI allI impI ballI; (elim conjE)?)
    fix q show "length (sv_lists (wd_svc ?w) q) \<le> bo_sessions o1" using ok(1)[of q] len[of q] by simp
  next
    fix q m assume "Some m \<in> set (sv_lists (wd_svc ?w) q)"
    then have m: "Some m \<in> set (sv_lists (wd_svc w) q)" using kept[of m q] by simp
    show "m < wd_next ?w" "ss_plugin (sv_sess (wd_svc ?w) m) = q" using ok(2)[OF m] by (simp_all add: sv)
  next
    fix m assume m: "m < wd_next ?w" "\<not> ss_closed (sv_sess (wd_svc ?w) m)"
    then have "m \<noteq> n" using cl by (auto simp: sv)
    then show "Some m \<in> set (sv_lists (wd_svc ?w) (ss_plugin (sv_sess (wd_svc ?w) m))) \<or> m \<in> set (wd_closing ?w)"
      using ok(3)[of m] m kept[of m "ss_plugin (sv_sess (wd_svc w) m)"] sv by simp
  next
    fix m assume "m \<in> set (wd_closing ?w) \<union> set (wd_dropping ?w)"
    then show "m < wd_next ?w" using ok(4)[of m] dr by auto
  next
    fix m assume "m \<in> set (wd_dropping ?w)"
    then show "ss_closed (sv_sess (wd_svc ?w) m)" using ok(5)[of m] dr by (auto simp: sv)
  qed
qed

definition idle_world :: world where
  "idle_world = \<lparr>wd_svc = \<lparr>sv_lists = (\<lambda>_. []), sv_sess = (\<lambda>_. fresh_session [])\<rparr>, wd_opening = [], wd_closing = [],
     wd_dropping = [], wd_next = 0\<rparr>"

text \<open>
  C36. Under every interleaving of opening, failing, committing, closing and disabling, no plugin has more sessions and
  reservations than the limit, and a session that is not closed is always in the list of its plugin or already
  taken by a close that is under way: disabling a plugin misses none.
\<close>

theorem session_registry_invariant:
  assumes "(browser_step o1)\<^sup>*\<^sup>* idle_world w"
  shows "length (sv_lists (wd_svc w) p) \<le> bo_sessions o1 \<and>
    (live w n \<longrightarrow> Some n \<in> set (sv_lists (wd_svc w) (ss_plugin (sv_sess (wd_svc w) n))) \<or> n \<in> set (wd_closing w))"
proof -
  have "browser_ok o1 w"
    using assms
  proof (induction rule: rtranclp_induct)
    case base
    then show ?case by (simp add: browser_ok_def idle_world_def live_def)
  next
    case (step y z)
    show ?case by (rule browser_step_ok[OF step(2)]) (rule step(3))
  qed
  then show ?thesis by (simp add: browser_ok_def)
qed

definition w_options :: browser_options where
  "w_options = applyDefaults 1 1 0 0"

theorem session_registry_invariant_witness:
  "\<exists>w. (browser_step w_options)\<^sup>*\<^sup>* idle_world w \<and> sv_lists (wd_svc w) ''a'' = [None] \<and>
    length (sv_lists (wd_svc w) ''a'') \<le> bo_sessions w_options"
proof -
  let ?v = "(wd_svc idle_world)\<lparr>sv_lists := (sv_lists (wd_svc idle_world))(''a'' := [None])\<rparr>"
  have "reserveSlot w_options [] ''a'' (wd_svc idle_world) = (Inr (), ?v)"
    by (simp add: reserveSlot_def w_options_def applyDefaults_def pageCountLocked_def idle_world_def)
  then have r: "(browser_step w_options)\<^sup>*\<^sup>* idle_world (idle_world\<lparr>wd_svc := ?v, wd_opening := [''a'']\<rparr>)"
    using open_reserve[of w_options "[]" "''a''" idle_world ?v] by (auto simp: idle_world_def)
  show ?thesis
    using session_registry_invariant[OF r, of "''a''"] r
    by (intro exI[of _ "idle_world\<lparr>wd_svc := ?v, wd_opening := [''a'']\<rparr>"]) auto
qed

section \<open>Pages\<close>

definition newPage_check :: "browser_options \<Rightarrow> string list \<Rightarrow> nat \<Rightarrow> service \<Rightarrow> session_error + unit" where
  \<comment> \<open>the first half of \<^verbatim>\<open>NewPage\<close>: both limits, each under its own lock\<close>
  "newPage_check o1 keys n v =
     (if bo_pages o1 \<le> session_pageCount (sv_sess v n) then Inl ErrLimit
      else if bo_pages_host o1 \<le> pageCountLocked keys v then Inl ErrLimit else Inr ())"

definition newPage_append :: "nat \<Rightarrow> service \<Rightarrow> (session_error + unit) \<times> service" where
  \<comment> \<open>the second half, after the engine made the page\<close>
  "newPage_append n v =
     (if ss_closed (sv_sess v n) then (Inl ErrClosed, v)
      else (Inr (), v\<lparr>sv_sess := (sv_sess v)(n := (sv_sess v n)\<lparr>ss_pages := ss_pages (sv_sess v n) @ [False]\<rparr>)\<rparr>))"

text \<open>
  The limit of pages is checked before the engine makes the page and not again: two concurrent calls pass the
  check and the session has one page too many.
\<close>

lemma page_limit_exceeded:
  "let v = \<lparr>sv_lists = (\<lambda>_. []), sv_sess = (\<lambda>_. fresh_session ''a'')\<rparr>;
       v2 = snd (newPage_append 0 (snd (newPage_append 0 v)))
   in newPage_check w_options [] 0 v = Inr () \<and> bo_pages w_options < session_pageCount (sv_sess v2 0)"
  by (simp add: newPage_check_def newPage_append_def w_options_def applyDefaults_def fresh_session_def
      session_pageCount_def pageCountLocked_def)

section \<open>A subscription\<close>

record keep_alive =
  ka_event :: string
  ka_reply :: string

record sub_options =
  so_handshake :: "string list"
  so_keepalive :: "keep_alive list"

datatype sub_error = SubLimit | SubEngine

fun check_handshake :: "(string \<Rightarrow> bool) \<Rightarrow> int \<Rightarrow> string list \<Rightarrow> sub_error + int" where
  "check_handshake json_valid sent [] = Inr sent"
| "check_handshake json_valid sent (f # fs) =
     (if f = [] \<or> 4096 < int (length f) then Inl SubLimit
      else if \<not> json_valid f then Inl SubEngine
      else check_handshake json_valid (sent + int (length f)) fs)"

fun check_rules :: "(string \<Rightarrow> bool) \<Rightarrow> keep_alive list \<Rightarrow> sub_error option" where
  "check_rules json_valid [] = None"
| "check_rules json_valid (r # rs) =
     (if ka_event r = [] then Some SubEngine
      else if ka_reply r = [] \<or> 4096 < int (length (ka_reply r)) \<or> \<not> json_valid (ka_reply r) then Some SubEngine
      else check_rules json_valid rs)"

definition validateSubscribeOptions :: "(string \<Rightarrow> bool) \<Rightarrow> sub_options \<Rightarrow> sub_error option" where
  "validateSubscribeOptions json_valid o1 =
     (if 512 < int (length (so_handshake o1)) then Some SubLimit
      else case check_handshake json_valid 0 (so_handshake o1) of
             Inl e \<Rightarrow> Some e
           | Inr sent \<Rightarrow>
               if 262144 < sent then Some SubLimit
               else if 8 < int (length (so_keepalive o1)) then Some SubLimit
               else check_rules json_valid (so_keepalive o1))"

datatype cause = ErrSubscriptionClosed | ErrSessionClosed | ReadError

datatype reader = Reading | Holding string | Sending string | Stopped | Panicked

record subscription =
  sb_rules :: "keep_alive list"
  sb_closed :: bool
  sb_err :: "cause option"
  sb_dropped :: nat
  sb_frames :: "string list" \<comment> \<open>the buffer of the channel\<close>
  sb_chan_closed :: bool
  sb_reader :: reader
  sb_teardowns :: nat \<comment> \<open>calls of \<^verbatim>\<open>finish\<close> past their critical section\<close>
  sb_written :: "string list" \<comment> \<open>frames written after the handshake\<close>
  sb_double_close :: bool

definition sub_open :: "keep_alive list \<Rightarrow> subscription" where
  "sub_open rules = \<lparr>sb_rules = rules, sb_closed = False, sb_err = None, sb_dropped = 0, sb_frames = [], sb_chan_closed = False,
     sb_reader = Reading, sb_teardowns = 0, sb_written = [], sb_double_close = False\<rparr>"

definition sub_finish :: "cause \<Rightarrow> subscription \<Rightarrow> subscription" where
  \<comment> \<open>the critical section of \<^verbatim>\<open>finish\<close>\<close>
  "sub_finish c s =
     (if sb_closed s then s
      else s\<lparr>sb_closed := True, sb_err := (case sb_err s of None \<Rightarrow> Some c | Some e \<Rightarrow> Some e), sb_teardowns := Suc (sb_teardowns s)\<rparr>)"

definition sub_teardown :: "subscription \<Rightarrow> subscription" where
  \<comment> \<open>the rest of \<^verbatim>\<open>finish\<close>: \<^verbatim>\<open>close(s.frames)\<close>, which panics on a closed channel\<close>
  "sub_teardown s = s\<lparr>sb_teardowns := sb_teardowns s - 1, sb_double_close := sb_double_close s \<or> sb_chan_closed s, sb_chan_closed := True\<rparr>"

definition sub_answer :: "(string \<Rightarrow> string option) \<Rightarrow> bool \<Rightarrow> string \<Rightarrow> subscription \<Rightarrow> subscription" where
  \<comment> \<open>the first argument reads the field \<^verbatim>\<open>event\<close> of a message, the flag: the write succeeds\<close>
  "sub_answer event_of ok data s =
     (if sb_rules s = [] then s
      else case event_of data of
             None \<Rightarrow> s
           | Some ev \<Rightarrow>
               if ev = [] then s
               else case List.find (\<lambda>r. ka_event r = ev) (sb_rules s) of
                      None \<Rightarrow> s
                    | Some r \<Rightarrow> if ok then s\<lparr>sb_written := sb_written s @ [ka_reply r]\<rparr> else s)"

definition sub_send :: "string \<Rightarrow> subscription \<Rightarrow> subscription" where
  \<comment> \<open>the \<^verbatim>\<open>select\<close> with a default: a send on a closed channel panics\<close>
  "sub_send data s =
     (if sb_chan_closed s then s\<lparr>sb_reader := Panicked\<rparr>
      else if length (sb_frames s) < 256 then s\<lparr>sb_frames := sb_frames s @ [data], sb_reader := Reading\<rparr>
      else s\<lparr>sb_dropped := Suc (sb_dropped s), sb_reader := Reading\<rparr>)"

inductive sub_run :: "(string \<Rightarrow> string option) \<Rightarrow> subscription \<Rightarrow> subscription \<Rightarrow> bool" for event_of where
  run_receive: "sb_reader s = Reading \<Longrightarrow> sub_run event_of s (s\<lparr>sb_reader := Holding data\<rparr>)"
| run_answer: "sb_reader s = Holding data \<Longrightarrow> sub_run event_of s ((sub_answer event_of ok data s)\<lparr>sb_reader := Sending data\<rparr>)"
| run_send: "sb_reader s = Sending data \<Longrightarrow> sub_run event_of s (sub_send data s)"
| run_error: "sb_reader s = Reading \<Longrightarrow> sub_run event_of s ((sub_finish c s)\<lparr>sb_reader := Stopped\<rparr>)"
| run_close: "sub_run event_of s (sub_finish c s)"
| run_teardown: "0 < sb_teardowns s \<Longrightarrow> sub_run event_of s (sub_teardown s)"
| run_consume: "sb_frames s = x # xs \<Longrightarrow> sub_run event_of s (s\<lparr>sb_frames := xs\<rparr>)"

definition sub_ok :: "keep_alive list \<Rightarrow> subscription \<Rightarrow> bool" where
  "sub_ok rules s \<longleftrightarrow> sb_rules s = rules \<and> length (sb_frames s) \<le> 256 \<and> \<not> sb_double_close s \<and>
     sb_teardowns s + (if sb_chan_closed s then 1 else 0) = (if sb_closed s then 1 else 0) \<and>
     (sb_closed s \<longleftrightarrow> sb_err s \<noteq> None) \<and> set (sb_written s) \<subseteq> ka_reply ` set rules"

lemma sub_answer_ok: "sub_ok rules s \<Longrightarrow> sub_ok rules (sub_answer event_of ok data s)"
  by (auto simp: sub_ok_def sub_answer_def split: option.splits if_splits simp: find_Some_iff)

lemma sub_run_ok: "sub_run event_of s s' \<Longrightarrow> sub_ok rules s \<Longrightarrow> sub_ok rules s'"
proof (induction rule: sub_run.induct)
  case (run_answer s data ok)
  have "sub_ok rules (x\<lparr>sb_reader := r\<rparr>) = sub_ok rules x" for x r by (simp add: sub_ok_def)
  then show ?case using sub_answer_ok[OF run_answer(2)] by simp
next
  case (run_teardown s)
  then show ?case by (auto simp: sub_ok_def sub_teardown_def split: if_splits)
qed (auto simp: sub_ok_def sub_send_def sub_finish_def split: if_splits option.splits)

text \<open>
  C37. In every interleaving of the reader, the plugin and the session: at most 256 frames are buffered, the channel is
  closed exactly once and only after a cause was recorded, and nothing is ever written to the socket but the
  replies the plugin declared.
\<close>

theorem subscription_invariant:
  assumes "(sub_run event_of)\<^sup>*\<^sup>* (sub_open rules) s"
  shows "length (sb_frames s) \<le> 256 \<and> \<not> sb_double_close s \<and> (sb_chan_closed s \<longrightarrow> sb_closed s \<and> sb_err s \<noteq> None) \<and>
    set (sb_written s) \<subseteq> ka_reply ` set rules"
proof -
  have "sub_ok rules s"
    using assms
  proof (induction rule: rtranclp_induct)
    case base
    then show ?case by (simp add: sub_ok_def sub_open_def)
  next
    case (step y z)
    show ?case by (rule sub_run_ok[OF step(2)]) (rule step(3))
  qed
  then show ?thesis by (auto simp: sub_ok_def split: if_splits)
qed

theorem subscription_invariant_witness:
  "\<exists>s. (sub_run (\<lambda>_. None))\<^sup>*\<^sup>* (sub_open []) s \<and> sb_reader s = Holding ''x'' \<and> length (sb_frames s) \<le> 256"
proof -
  have r: "(sub_run (\<lambda>_. None))\<^sup>*\<^sup>* (sub_open []) ((sub_open [])\<lparr>sb_reader := Holding ''x''\<rparr>)"
    by (intro r_into_rtranclp run_receive) (simp add: sub_open_def)
  then show ?thesis using subscription_invariant[OF r] by auto
qed

text \<open>
  C38. What the reader lacks is a check before it sends: when the plugin closes the subscription while the reader holds
  a message, the channel is closed under it and the send panics, which ends the process.
\<close>

theorem close_panics_reader: "\<exists>s. (sub_run event_of)\<^sup>*\<^sup>* (sub_open rules) s \<and> sb_reader s = Panicked"
proof -
  define s0 where "s0 = sub_open rules"
  define s1 where "s1 = s0\<lparr>sb_reader := Holding []\<rparr>"
  define s2 where "s2 = (sub_answer event_of False [] s1)\<lparr>sb_reader := Sending []\<rparr>"
  define s3 where "s3 = sub_finish ErrSubscriptionClosed s2"
  define s4 where "s4 = sub_teardown s3"
  have st: "sub_run event_of s0 s1" unfolding s1_def by (rule run_receive) (simp add: s0_def sub_open_def)
  have "sub_run event_of s1 s2" unfolding s2_def by (rule run_answer) (simp add: s1_def)
  moreover have c2: "\<not> sb_closed s2"
    by (simp add: s2_def s1_def s0_def sub_open_def sub_answer_def split: option.splits)
  have "sub_run event_of s2 s3" unfolding s3_def by (rule run_close)
  moreover have "sub_run event_of s3 s4"
    unfolding s4_def by (rule run_teardown) (use c2 in \<open>simp add: s3_def sub_finish_def\<close>)
  moreover have r4: "sb_reader s4 = Sending []" "sb_chan_closed s4"
    by (simp_all add: s4_def sub_teardown_def s3_def sub_finish_def s2_def)
  have "sub_run event_of s4 (sub_send [] s4)" by (rule run_send) (rule r4(1))
  ultimately have "(sub_run event_of)\<^sup>*\<^sup>* s0 (sub_send [] s4)" using st by (meson converse_rtranclp_into_rtranclp rtranclp.rtrancl_refl)
  moreover have "sb_reader (sub_send [] s4) = Panicked" using r4 by (simp add: sub_send_def)
  ultimately show ?thesis unfolding s0_def by blast
qed

end
