(* ===== verification/Plugin_Schema.thy ===== *)
theory Plugin_Schema
  imports Complex_Main "HOL-Library.Multiset" Events_Log
begin

text \<open>
  \<^verbatim>\<open>internal/core/pluginhost/schema.go\<close>: the closed subset of JSON Schema in which a plugin declares its
  configuration, and the check of a document against it. A decoded document (Go's \<^verbatim>\<open>any\<close>) is the datatype
  \<open>any\<close>; an object is the list of its members in the order in which the loops range over the map, and
  a decoded map has each key once. \<^verbatim>\<open>regexp.Compile\<close> and the text of a float are arguments.
\<close>

section \<open>Documents\<close>

datatype any =
    ANull | ABool bool
  | ANum rat \<comment> \<open>a finite \<^verbatim>\<open>float64\<close>\<close>
  | ANegZero \<comment> \<open>the float that is written \<^verbatim>\<open>-0\<close>\<close>
  | AStr string | AArr "any list" | AObj "(string \<times> any) list"

datatype plugin_error =
    ErrUnknownPluginID | ErrInvalidPlugin | ErrAlreadyRegistered | ErrNotStarted
  | ErrSecretConfig | ErrInvalidConfig | ErrIncomplete

record regexps =
  rx_compile :: "string \<Rightarrow> (string \<Rightarrow> bool) option" \<comment> \<open>\<^verbatim>\<open>regexp.Compile\<close> and \<^verbatim>\<open>MatchString\<close>\<close>
  rx_float :: "rat \<Rightarrow> string" \<comment> \<open>the text of a float in \<^verbatim>\<open>json.Marshal\<close>\<close>

fun num_of :: "any \<Rightarrow> rat option" where
  \<comment> \<open>the value of a \<^verbatim>\<open>float64\<close>\<close>
  "num_of (ANum q) = Some q"
| "num_of ANegZero = Some 0"
| "num_of _ = None"

definition float_int :: "rat \<Rightarrow> int" where
  \<comment> \<open>\<^verbatim>\<open>int64(f)\<close>: truncation, and on \<^verbatim>\<open>amd64\<close> the least integer when the result does not fit\<close>
  "float_int q =
     (let t = (if 0 \<le> q then \<lfloor>q\<rfloor> else \<lceil>q\<rceil>)
      in if int64_min \<le> t \<and> t \<le> int64_max then t else int64_min)"

definition asFloat :: "any option \<Rightarrow> rat option" where
  \<comment> \<open>\<^verbatim>\<open>json.Unmarshal\<close> into \<^verbatim>\<open>any\<close> makes no \<^verbatim>\<open>json.Number\<close>\<close>
  "asFloat v = (case v of None \<Rightarrow> None | Some a \<Rightarrow> num_of a)"

definition asInt :: "any option \<Rightarrow> int option" where
  "asInt v = (case asFloat v of None \<Rightarrow> None | Some f \<Rightarrow> Some (float_int f))"

fun marshal_any :: "(rat \<Rightarrow> string) \<Rightarrow> any \<Rightarrow> string" where
  "marshal_any ft ANull = ''null''"
| "marshal_any ft (ABool b) = (if b then ''true'' else ''false'')"
| "marshal_any ft (ANum q) = ft q"
| "marshal_any ft ANegZero = ''-0''"
| "marshal_any ft (AStr s) = json_quote s"
| "marshal_any ft (AArr xs) = ''['' @ join_with '','' (map (marshal_any ft) xs) @ '']''"
| "marshal_any ft (AObj kvs) =
     ''{'' @ join_with '',''
        (map (\<lambda>(k, v). json_quote k @ '':'' @ v)
           (sort_key fst (map (\<lambda>(k, v). (k, marshal_any ft v)) kvs))) @ ''}''"

definition jsonEqual :: "regexps \<Rightarrow> any \<Rightarrow> any \<Rightarrow> bool" where
  "jsonEqual rx a b \<longleftrightarrow>
     trim_space (marshal_any (rx_float rx) a) = trim_space (marshal_any (rx_float rx) b)"

section \<open>Names that look like secrets\<close>

definition fold_step :: "char \<Rightarrow> string \<Rightarrow> string option" where
  \<comment> \<open>one lower-case letter of the expression under \<^verbatim>\<open>(?i)\<close>: Unicode folds the Kelvin sign to \<^verbatim>\<open>k\<close> and the long
     \<^verbatim>\<open>s\<close> to \<^verbatim>\<open>s\<close>\<close>
  "fold_step c s =
     (if s \<noteq> [] \<and> lower_char (hd s) = c then Some (tl s)
      else if c = CHR ''k'' \<and> has_prefix s [CHR 0xE2, CHR 0x84, CHR 0xAA] then Some (drop 3 s)
      else if c = CHR ''s'' \<and> has_prefix s [CHR 0xC5, CHR 0xBF] then Some (drop 2 s)
      else None)"

fun fold_prefix :: "string \<Rightarrow> string \<Rightarrow> bool" where
  "fold_prefix [] s = True"
| "fold_prefix (c # cs) s = (case fold_step c s of None \<Rightarrow> False | Some r \<Rightarrow> fold_prefix cs r)"

definition secret_words :: "string list" where
  \<comment> \<open>the alternatives of the expression, \<^verbatim>\<open>[_-]?\<close> written out\<close>
  "secret_words =
     [''password'', ''secret'', ''token'', ''apikey'', ''api_key'', ''api-key'',
      ''privatekey'', ''private_key'', ''private-key'', ''client_secret'']"

fun secretName :: "string \<Rightarrow> bool" where
  \<comment> \<open>\<^verbatim>\<open>MatchString\<close> is not anchored\<close>
  "secretName [] = False"
| "secretName (c # s) = (list_ex (\<lambda>w. fold_prefix w (c # s)) secret_words \<or> secretName s)"

section \<open>The check of a schema\<close>

definition then_check :: "'e + unit \<Rightarrow> 'e + unit \<Rightarrow> 'e + unit" where
  \<comment> \<open>\<^verbatim>\<open>if err != nil { return err }\<close> between two checks\<close>
  "then_check a b = (case a of Inl e \<Rightarrow> Inl e | Inr _ \<Rightarrow> b)"

lemma then_check_ok [simp]: "then_check a b = Inr () \<longleftrightarrow> a = Inr () \<and> b = Inr ()"
  by (cases a) (simp_all add: then_check_def)

definition allowedSchemaKeys :: "string list" where
  "allowedSchemaKeys =
     [''$schema'', ''type'', ''properties'', ''required'', ''additionalProperties'',
      ''items'', ''enum'', ''minimum'', ''maximum'', ''exclusiveMinimum'',
      ''exclusiveMaximum'', ''minLength'', ''maxLength'', ''pattern'',
      ''minItems'', ''maxItems'', ''description'', ''title'', ''default'']"

definition schemaTypes :: "string list" where
  "schemaTypes = [''object'', ''array'', ''string'', ''number'', ''integer'', ''boolean'']"

lemma map_of_size [termination_simp]:
  "map_of m k = Some v \<Longrightarrow> size v < size_list (size_prod (\<lambda>x. 0) size) m"
  by (induction m) (auto split: if_splits)

definition properties_of :: "(string \<times> any) list \<Rightarrow> (string \<times> any) list" where
  \<comment> \<open>\<^verbatim>\<open>obj["properties"].(map[string]any)\<close>; the assertion that fails leaves the empty map\<close>
  "properties_of obj = (case map_of obj ''properties'' of Some (AObj ps) \<Rightarrow> ps | _ \<Rightarrow> [])"

lemma properties_size [termination_simp]:
  "size_list (size_prod (\<lambda>x. 0) size) (properties_of obj) \<le> size_list (size_prod (\<lambda>x. 0) size) obj"
proof (cases "map_of obj ''properties''")
  case (Some p)
  then show ?thesis using map_of_size[OF Some] by (cases p) (simp_all add: properties_of_def)
qed (simp add: properties_of_def)

function (sequential) checkSchema :: "any \<Rightarrow> plugin_error + unit"
  and check_properties :: "(string \<times> any) list \<Rightarrow> plugin_error + unit" where
  "checkSchema (AObj obj) =
     (if \<not> list_all (\<lambda>(k, v). k \<in> set allowedSchemaKeys) obj then Inl ErrInvalidConfig
      else if (case map_of obj ''type'' of Some (AStr t) \<Rightarrow> t \<notin> set schemaTypes | _ \<Rightarrow> False)
      then Inl ErrInvalidConfig
      else
        then_check
          (check_properties (properties_of obj))
          (then_check
            (case map_of obj ''items'' of Some it \<Rightarrow> checkSchema it | None \<Rightarrow> Inr ())
            (case map_of obj ''additionalProperties'' of
               None \<Rightarrow> Inr ()
             | Some (ABool b) \<Rightarrow> Inr ()
             | Some (AObj a) \<Rightarrow> checkSchema (AObj a)
             | Some _ \<Rightarrow> Inl ErrInvalidConfig)))"
| "checkSchema _ = Inl ErrInvalidConfig"
| "check_properties [] = Inr ()"
| "check_properties ((name, sub) # ps) =
     (if secretName name then Inl ErrSecretConfig
      else then_check (checkSchema sub) (check_properties ps))"
  by pat_completeness auto
termination
  by (relation "measure (\<lambda>x. case x of Inl v \<Rightarrow> 2 * size v
                          | Inr ps \<Rightarrow> 2 * size_list (size_prod (\<lambda>x. 0) size) ps)")
     (auto simp: less_Suc_eq_le dest!: map_of_size intro!: le_SucI mult_le_mono2 properties_size)

section \<open>The check of a document\<close>

definition checkType :: "string \<Rightarrow> any \<Rightarrow> bool" where
  "checkType want value =
     (if want = ''object'' then (case value of AObj _ \<Rightarrow> True | _ \<Rightarrow> False)
      else if want = ''array'' then (case value of AArr _ \<Rightarrow> True | _ \<Rightarrow> False)
      else if want = ''string'' then (case value of AStr _ \<Rightarrow> True | _ \<Rightarrow> False)
      else if want = ''number'' then num_of value \<noteq> None
      else if want = ''integer'' then
        (case num_of value of None \<Rightarrow> False | Some f \<Rightarrow> f = of_int (float_int f))
      else if want = ''boolean'' then (case value of ABool _ \<Rightarrow> True | _ \<Rightarrow> False)
      else False)"

definition type_matches :: "(string \<times> any) list \<Rightarrow> any \<Rightarrow> bool" where
  "type_matches obj value = (case map_of obj ''type'' of Some (AStr t) \<Rightarrow> checkType t value | _ \<Rightarrow> True)"

definition in_enum :: "regexps \<Rightarrow> (string \<times> any) list \<Rightarrow> any \<Rightarrow> bool" where
  "in_enum rx obj value =
     (case map_of obj ''enum'' of Some (AArr es) \<Rightarrow> list_ex (\<lambda>e. jsonEqual rx e value) es | _ \<Rightarrow> True)"

definition has_required :: "(string \<times> any) list \<Rightarrow> (string \<times> any) list \<Rightarrow> bool" where
  \<comment> \<open>an entry that is not a string is looked up as the empty name\<close>
  "has_required obj v =
     (case map_of obj ''required'' of
        Some (AArr rs) \<Rightarrow>
          list_all (\<lambda>r. map_of v (case r of AStr n \<Rightarrow> n | _ \<Rightarrow> []) \<noteq> None) rs
      | _ \<Rightarrow> True)"

definition size_ok :: "(string \<times> any) list \<Rightarrow> string \<Rightarrow> string \<Rightarrow> nat \<Rightarrow> bool" where
  \<comment> \<open>\<^verbatim>\<open>minItems\<close>/\<^verbatim>\<open>maxItems\<close> and \<^verbatim>\<open>minLength\<close>/\<^verbatim>\<open>maxLength\<close>\<close>
  "size_ok obj lo hi n \<longleftrightarrow>
     (case asInt (map_of obj lo) of Some m \<Rightarrow> m \<le> int n | None \<Rightarrow> True) \<and>
     (case asInt (map_of obj hi) of Some m \<Rightarrow> int n \<le> m | None \<Rightarrow> True)"

definition pattern_ok :: "regexps \<Rightarrow> (string \<times> any) list \<Rightarrow> string \<Rightarrow> bool" where
  "pattern_ok rx obj s =
     (case map_of obj ''pattern'' of
        Some (AStr p) \<Rightarrow> (case rx_compile rx p of None \<Rightarrow> False | Some re \<Rightarrow> re s)
      | _ \<Rightarrow> True)"

definition range_ok :: "(string \<times> any) list \<Rightarrow> rat \<Rightarrow> bool" where
  "range_ok obj q \<longleftrightarrow>
     (case asFloat (map_of obj ''minimum'') of Some m \<Rightarrow> m \<le> q | None \<Rightarrow> True) \<and>
     (case asFloat (map_of obj ''maximum'') of Some m \<Rightarrow> q \<le> m | None \<Rightarrow> True)"

function (sequential) validateAgainst :: "regexps \<Rightarrow> any \<Rightarrow> any \<Rightarrow> plugin_error + unit"
  and validate_members ::
    "regexps \<Rightarrow> (string \<times> any) list \<Rightarrow> any option \<Rightarrow> (string \<times> any) list \<Rightarrow> plugin_error + unit"
  and validate_items :: "regexps \<Rightarrow> any \<Rightarrow> any list \<Rightarrow> plugin_error + unit" where
  "validateAgainst rx (AObj obj) value =
     (if \<not> type_matches obj value then Inl ErrInvalidConfig
      else if \<not> in_enum rx obj value then Inl ErrInvalidConfig
      else case value of
             AObj v \<Rightarrow>
               if \<not> has_required obj v then Inl ErrInvalidConfig
               else validate_members rx (properties_of obj) (map_of obj ''additionalProperties'') v
           | AArr v \<Rightarrow>
               then_check
                 (case map_of obj ''items'' of Some it \<Rightarrow> validate_items rx it v | None \<Rightarrow> Inr ())
                 (if size_ok obj ''minItems'' ''maxItems'' (length v) then Inr () else Inl ErrInvalidConfig)
           | AStr s \<Rightarrow>
               if size_ok obj ''minLength'' ''maxLength'' (length s) \<and> pattern_ok rx obj s then Inr ()
               else Inl ErrInvalidConfig
           | _ \<Rightarrow>
               (case num_of value of
                  Some q \<Rightarrow> if range_ok obj q then Inr () else Inl ErrInvalidConfig
                | None \<Rightarrow> Inr ()))"
| "validateAgainst rx _ value = Inl ErrInvalidConfig"
| "validate_members rx props add [] = Inr ()"
| "validate_members rx props add ((name, child) # v) =
     (if secretName name then Inl ErrSecretConfig
      else
        then_check
          (case map_of props name of
             Some sub \<Rightarrow> validateAgainst rx sub child
           | None \<Rightarrow>
               (case add of
                  Some (ABool b) \<Rightarrow> if b then Inr () else Inl ErrInvalidConfig
                | Some (AObj a) \<Rightarrow> validateAgainst rx (AObj a) child
                | _ \<Rightarrow> Inr ()))
          (validate_members rx props add v))"
| "validate_items rx it [] = Inr ()"
| "validate_items rx it (child # v) =
     then_check (validateAgainst rx it child) (validate_items rx it v)"
  by pat_completeness auto
termination
  by (relation "measure (\<lambda>x. case x of
        Inl (rx, s, v) \<Rightarrow> 2 * size v
      | Inr (Inl (rx, ps, a, m)) \<Rightarrow> 1 + 2 * size_list (size_prod (\<lambda>x. 0) size) m
      | Inr (Inr (rx, it, xs)) \<Rightarrow> 1 + 2 * size_list size xs)") auto

section \<open>The meaning of a schema\<close>

text \<open>
  The reference definition: which schema governs a member of an object, and that every member and item
  conforms to its own. It says nothing of the order of members, which Go leaves open.
\<close>

datatype governed = Anything | Nothing | By any

definition member_schema :: "(string \<times> any) list \<Rightarrow> string \<Rightarrow> governed" where
  "member_schema obj name =
     (case map_of (properties_of obj) name of
        Some sub \<Rightarrow> By sub
      | None \<Rightarrow>
          (case map_of obj ''additionalProperties'' of
             Some (ABool b) \<Rightarrow> if b then Anything else Nothing
           | Some (AObj a) \<Rightarrow> By (AObj a)
           | _ \<Rightarrow> Anything))"

definition item_schema :: "(string \<times> any) list \<Rightarrow> governed" where
  "item_schema obj = (case map_of obj ''items'' of Some it \<Rightarrow> By it | None \<Rightarrow> Anything)"

lemma member_size [termination_simp]:
  "(n, c) \<in> set v \<Longrightarrow> size c < size_list (size_prod (\<lambda>x. 0) size) v"
  by (induction v) auto

function conforms :: "regexps \<Rightarrow> any \<Rightarrow> any \<Rightarrow> bool" where
  "conforms rx s value =
     (case s of
        AObj obj \<Rightarrow>
          type_matches obj value \<and> in_enum rx obj value \<and>
          (case value of
             AObj v \<Rightarrow> has_required obj v \<and>
               (\<forall>(n, c) \<in> set v. \<not> secretName n \<and>
                  (case member_schema obj n of
                     Anything \<Rightarrow> True | Nothing \<Rightarrow> False | By sub \<Rightarrow> conforms rx sub c))
           | AArr v \<Rightarrow> size_ok obj ''minItems'' ''maxItems'' (length v) \<and>
               (\<forall>c \<in> set v. case item_schema obj of
                  Anything \<Rightarrow> True | Nothing \<Rightarrow> False | By sub \<Rightarrow> conforms rx sub c)
           | AStr t \<Rightarrow> size_ok obj ''minLength'' ''maxLength'' (length t) \<and> pattern_ok rx obj t
           | _ \<Rightarrow> (case num_of value of Some q \<Rightarrow> range_ok obj q | None \<Rightarrow> True))
      | _ \<Rightarrow> False)"
  by pat_completeness auto
termination
  by (relation "measure (\<lambda>(rx, s, v). size v)") (auto simp: termination_simp less_Suc_eq_le intro: less_imp_le)

declare conforms.simps [simp del]

lemma validate_conforms:
  "validateAgainst rx s value = Inr () \<longleftrightarrow> conforms rx s value"
  "validate_members rx props add v = Inr () \<longleftrightarrow>
     (\<forall>(n, c) \<in> set v. \<not> secretName n \<and>
        (case map_of props n of Some sub \<Rightarrow> conforms rx sub c
         | None \<Rightarrow> (case add of Some (ABool b) \<Rightarrow> b | Some (AObj a) \<Rightarrow> conforms rx (AObj a) c | _ \<Rightarrow> True)))"
  "validate_items rx it xs = Inr () \<longleftrightarrow> (\<forall>c \<in> set xs. conforms rx it c)"
proof (induction rx s "value" and rx props add v and rx it xs
    rule: validateAgainst_validate_members_validate_items.induct)
  case (1 rx obj "value")
  then show ?case
    by (subst conforms.simps)
       (auto simp: member_schema_def item_schema_def split: any.splits option.splits if_splits)
qed (auto simp: conforms.simps split: option.splits any.splits if_splits)

section \<open>Secrets\<close>

text \<open>
  A configuration must not hold secrets. A name is only tested where the check walks; it walks everything when the
  schema is closed: every object lists its members or gives them a schema, every array gives one to its items.
\<close>

fun no_secret :: "any \<Rightarrow> bool" where
  "no_secret (AObj v) = list_all (\<lambda>(n, c). \<not> secretName n \<and> no_secret c) v"
| "no_secret (AArr xs) = list_all no_secret xs"
| "no_secret _ = True"

definition scalar_schema :: "(string \<times> any) list \<Rightarrow> bool" where
  "scalar_schema obj = (case map_of obj ''type'' of
     Some (AStr t) \<Rightarrow> t \<noteq> ''object'' \<and> t \<noteq> ''array'' | _ \<Rightarrow> False)"

function (sequential) closed_schema :: "any \<Rightarrow> bool"
  and closed_properties :: "(string \<times> any) list \<Rightarrow> bool" where
  "closed_schema (AObj obj) =
     (scalar_schema obj \<or>
      (map_of obj ''type'' = Some (AStr ''array'') \<or>
        closed_properties (properties_of obj) \<and>
        (case map_of obj ''additionalProperties'' of
           Some (ABool b) \<Rightarrow> \<not> b | Some (AObj a) \<Rightarrow> closed_schema (AObj a) | _ \<Rightarrow> False)) \<and>
      (map_of obj ''type'' = Some (AStr ''object'') \<or>
        (case map_of obj ''items'' of Some it \<Rightarrow> closed_schema it | None \<Rightarrow> False)))"
| "closed_schema _ = True"
| "closed_properties [] = True"
| "closed_properties ((n, s) # ps) = (closed_schema s \<and> closed_properties ps)"
  by pat_completeness auto
termination
  by (relation "measure (\<lambda>x. case x of Inl v \<Rightarrow> 2 * size v
                          | Inr ps \<Rightarrow> 2 * size_list (size_prod (\<lambda>x. 0) size) ps)")
     (auto simp: less_Suc_eq_le dest!: map_of_size intro!: le_SucI mult_le_mono2 properties_size)

declare closed_schema.simps(1) [simp del]
declare checkSchema.simps(1) [simp del]

lemmas closed_objectD = closed_schema.simps(1)[THEN iffD1]

lemma closed_properties_map: "closed_properties ps \<Longrightarrow> map_of ps n = Some s \<Longrightarrow> closed_schema s"
  by (induction ps) (auto split: if_splits)

lemma closed_member:
  assumes "closed_schema (AObj obj)" "\<not> scalar_schema obj" "map_of obj ''type'' \<noteq> Some (AStr ''array'')"
  shows "member_schema obj n \<noteq> Anything \<and> (\<forall>s. member_schema obj n = By s \<longrightarrow> closed_schema s)"
proof -
  have p: "closed_schema s" if "map_of (properties_of obj) n = Some s" for s
    using closed_objectD[OF assms(1)] assms(2, 3) that closed_properties_map by blast
  have a: "case map_of obj ''additionalProperties'' of
      Some (ABool b) \<Rightarrow> \<not> b | Some (AObj a) \<Rightarrow> closed_schema (AObj a) | _ \<Rightarrow> False"
    using closed_objectD[OF assms(1)] assms(2, 3) by blast
  show ?thesis
  proof (cases "map_of (properties_of obj) n")
    case None
    then show ?thesis using a unfolding member_schema_def by (auto split: option.splits any.splits)
  next
    case (Some s)
    then show ?thesis using p unfolding member_schema_def by simp
  qed
qed

lemma closed_item:
  assumes "closed_schema (AObj obj)" "\<not> scalar_schema obj" "map_of obj ''type'' \<noteq> Some (AStr ''object'')"
  shows "\<exists>s. item_schema obj = By s \<and> closed_schema s"
  using closed_objectD[OF assms(1)] assms(2, 3) by (auto simp: item_schema_def split: option.splits)

lemma typed_object:
  assumes "type_matches obj (AObj v)"
  shows "\<not> scalar_schema obj \<and> map_of obj ''type'' \<noteq> Some (AStr ''array'')"
  using assms by (auto simp: type_matches_def scalar_schema_def checkType_def split: option.splits any.splits if_splits)

lemma typed_array:
  assumes "type_matches obj (AArr v)"
  shows "\<not> scalar_schema obj \<and> map_of obj ''type'' \<noteq> Some (AStr ''object'')"
  using assms by (auto simp: type_matches_def scalar_schema_def checkType_def split: option.splits any.splits if_splits)

lemma conforms_no_secret: "conforms rx s v \<Longrightarrow> closed_schema s \<Longrightarrow> no_secret v"
proof (induction rx s v rule: conforms.induct)
  case (1 rx s "value")
  then obtain obj where s: "s = AObj obj" by (auto simp: conforms.simps split: any.splits)
  show ?case
  proof (cases "value")
    case (AObj v)
    with "1.prems" s have tm: "type_matches obj (AObj v)" by (simp add: conforms.simps)
    have "\<not> secretName n \<and> no_secret c" if m: "(n, c) \<in> set v" for n c
    proof -
      have g: "\<not> secretName n"
        "case member_schema obj n of Anything \<Rightarrow> True | Nothing \<Rightarrow> False | By sub \<Rightarrow> conforms rx sub c"
        using "1.prems"(1) m by (auto simp: conforms.simps s AObj)
      then obtain sub where sub: "member_schema obj n = By sub" "conforms rx sub c" "closed_schema sub"
        using closed_member[of obj n] "1.prems"(2) typed_object[OF tm] s by (cases "member_schema obj n") auto
      then show ?thesis using g "1.IH"(2)[OF s AObj m refl sub] by simp
    qed
    then show ?thesis by (auto simp: AObj list_all_iff)
  next
    case (AArr xs)
    with "1.prems" s have tm: "type_matches obj (AArr xs)" by (simp add: conforms.simps)
    then obtain it where it: "item_schema obj = By it" "closed_schema it"
      using closed_item[of obj] "1.prems"(2) typed_array[OF tm] s by auto
    have "no_secret c" if m: "c \<in> set xs" for c
      using "1.prems"(1) "1.IH"(1)[OF s AArr m it(1) _ it(2)] m it by (auto simp: conforms.simps s AArr)
    then show ?thesis by (auto simp: AArr list_all_iff)
  qed simp_all
qed

section \<open>Properties\<close>

lemma marshal_members_order:
  assumes "distinct (map fst m)" "set m = set m'" "distinct (map fst m')"
  shows "marshal_any ft (AObj m) = marshal_any ft (AObj m')"
proof -
  let ?f = "map (\<lambda>(k, v). (k, marshal_any ft v))"
  have d: "distinct m" "distinct m'" using assms by (simp_all add: distinct_map)
  have "mset m = mset m'" using d assms(2) by (simp add: set_eq_iff_mset_eq_distinct)
  then have ms: "mset (?f m) = mset (sort_key fst (?f m'))" by simp
  have "inj_on fst (set (?f m))"
  proof -
    have e: "map fst (?f m) = map fst m" by (induction m) auto
    have "distinct (map fst (?f m))" unfolding e by (rule assms(1))
    then show ?thesis by (simp only: distinct_map)
  qed
  then have "sort_key fst (?f m) = sort_key fst (?f m')"
    by (intro sort_key_inj_key_eq[OF ms]) simp_all
  then show ?thesis by simp
qed


definition w_schema :: any where
  "w_schema = AObj [(''type'', AStr ''object''),
     (''properties'', AObj [(''pages'', AObj [(''type'', AStr ''integer''), (''maximum'', ANum 10)])]),
     (''additionalProperties'', ABool False)]"

definition w_open_schema :: any where
  "w_open_schema = AObj [(''type'', AStr ''object''),
     (''properties'', AObj [(''pages'', AObj [(''type'', AStr ''integer'')])])]"

definition w_rx :: regexps where
  "w_rx = \<lparr>rx_compile = (\<lambda>p. None), rx_float = (\<lambda>q. [])\<rparr>"


text \<open>A document that a closed schema accepts has no property with a secret name at any depth.\<close>

theorem closed_config_has_no_secret:
  "closed_schema s \<Longrightarrow> validateAgainst rx s doc = Inr () \<Longrightarrow> no_secret doc"
  by (simp add: validate_conforms(1) conforms_no_secret)

theorem closed_config_has_no_secret_witness:
  "closed_schema w_schema \<and> no_secret (AObj [(''pages'', ANum 3)])"
proof -
  have "closed_schema w_schema" by code_simp
  moreover have "validateAgainst w_rx w_schema (AObj [(''pages'', ANum 3)]) = Inr ()" by code_simp
  ultimately show ?thesis using closed_config_has_no_secret by blast
qed

text \<open>
  Two flaws. A member that no schema governs is not looked into, so a secret nested below it is accepted by a schema
  that \<open>checkSchema\<close> accepts; and \<^verbatim>\<open>exclusiveMaximum\<close> is an accepted keyword that nothing checks.
\<close>

lemma open_schema_hides_secret:
  "checkSchema w_open_schema = Inr () \<and>
   validateAgainst w_rx w_open_schema (AObj [(''password'', AStr ''x'')]) = Inl ErrSecretConfig \<and>
   validateAgainst w_rx w_open_schema (AObj [(''auth'', AObj [(''password'', AStr ''x'')])]) = Inr ()"
  by code_simp

lemma exclusive_bounds_ignored:
  "checkSchema (AObj [(''exclusiveMaximum'', ANum 10)]) = Inr () \<and>
   validateAgainst w_rx (AObj [(''exclusiveMaximum'', ANum 10)]) (ANum 11) = Inr ()"
  by code_simp

end
