(* ===== verification/Plugin_Decl.thy ===== *)
theory Plugin_Decl
  imports Plugin_Schema Events_Durable Jobs
begin

text \<open>
  \<^verbatim>\<open>internal/core/pluginhost/ids.go\<close> and \<^verbatim>\<open>registry.go\<close>: what a plugin declares, the grammar of its names, and the
  registration that accepts all plugins of the process or none. \<open>registered_names_accepted\<close> connects the
  grammar with those of the modules below: a declaration that is accepted here is not refused there for a name.
\<close>

section \<open>Declarations\<close>

record model_need =
  mn_name :: string
  mn_caps :: "string list"
  mn_purpose :: string

record event_field =
  ef_name :: string
  ef_type :: string
  ef_purpose :: string

record event_spec =
  es_type :: string
  es_purpose :: string
  es_fields :: "event_field list"

record config_spec =
  cs_schema :: string \<comment> \<open>raw JSON\<close>
  cs_defaults :: string

record manifest =
  mf_id :: string
  mf_name :: string
  mf_automated :: bool
  mf_models :: "model_need list"
  mf_events :: "event_spec list"
  mf_config :: config_spec

record subscription_decl =
  sb_pattern :: string
  sb_live :: bool \<comment> \<open>\<^verbatim>\<open>Handler\<close> is set\<close>
  sb_durable :: "(string \<times> bool) option" \<comment> \<open>name, and whether its handler is set\<close>

record route_decl =
  rt_pattern :: string
  rt_handler :: bool

record plugin =
  pg_manifest :: manifest
  pg_jobs :: "job_def list"
  pg_subs :: "subscription_decl list"
  pg_routes :: "route_decl list"

record plugin_decl =
  dl_manifest :: manifest
  dl_jobs :: "job_def list"
  dl_subs :: "subscription_decl list"
  dl_routes :: "route_decl list"
  dl_jobNames :: "string list"
  dl_routePat :: "string list"

record json_lib =
  jl_parse :: "string \<Rightarrow> any option" \<comment> \<open>\<^verbatim>\<open>json.Unmarshal\<close> into \<^verbatim>\<open>any\<close>\<close>
  jl_rx :: regexps

section \<open>Names\<close>

definition host_validPluginID :: "string \<Rightarrow> bool" where
  "host_validPluginID s = (case s of [] \<Rightarrow> False
     | c # cs \<Rightarrow> length s \<le> 63 \<and> s \<noteq> ''core'' \<and> is_lower c \<and>
         list_all (\<lambda>c. is_lower c \<or> is_digit c \<or> c = CHR ''_'') cs)"

definition host_validName :: "string \<Rightarrow> bool" where
  "host_validName s = (case s of [] \<Rightarrow> False
     | c # cs \<Rightarrow> length s \<le> 64 \<and> is_lower c \<and>
         list_all (\<lambda>c. is_lower c \<or> is_digit c \<or> c = CHR ''_'') cs)"

definition validRouteName :: "string \<Rightarrow> bool" where
  "validRouteName s = (case s of [] \<Rightarrow> False
     | c # cs \<Rightarrow> length s \<le> 64 \<and> is_lower c \<and>
         list_all (\<lambda>c. is_lower c \<or> is_digit c \<or> c = CHR ''_'' \<or> c = CHR ''-'') cs)"

definition knownModelCaps :: "string list" where
  "knownModelCaps = [''chat'', ''vision'', ''grounding'', ''embed'']"

definition purpose_ok :: "string \<Rightarrow> bool" where
  "purpose_ok p \<longleftrightarrow> trim_space p \<noteq> [] \<and> length (trim_space p) \<le> 200"

fun check_caps :: "string list \<Rightarrow> string list \<Rightarrow> bool" where
  "check_caps seenCap [] = True"
| "check_caps seenCap (c # cs) =
     (c \<in> set knownModelCaps \<and> c \<notin> set seenCap \<and> check_caps (c # seenCap) cs)"

fun model_loop :: "string list \<Rightarrow> model_need list \<Rightarrow> plugin_error + unit" where
  "model_loop seen [] = Inr ()"
| "model_loop seen (n # ns) =
     (if \<not> validRouteName (mn_name n) then Inl ErrInvalidPlugin
      else if mn_name n \<in> set seen then Inl ErrInvalidPlugin
      else if \<not> purpose_ok (mn_purpose n) then Inl ErrInvalidPlugin
      else if mn_caps n = [] then Inl ErrInvalidPlugin
      else if \<not> check_caps [] (mn_caps n) then Inl ErrInvalidPlugin
      else model_loop (mn_name n # seen) ns)"

definition validateModelNeeds :: "model_need list \<Rightarrow> plugin_error + unit" where
  "validateModelNeeds ns = model_loop [] ns"

definition knownEventFieldTypes :: "string list" where
  "knownEventFieldTypes = [''string'', ''number'', ''boolean'', ''string[]'', ''object'', ''object[]'']"

definition validEventType :: "string \<Rightarrow> bool" where
  "validEventType s \<longleftrightarrow> s \<noteq> [] \<and> length s \<le> 64 \<and> list_all host_validName (split_on CHR ''.'' s)"

definition validFieldSegment :: "string \<Rightarrow> bool" where
  "validFieldSegment s = (case s of [] \<Rightarrow> False
     | c # cs \<Rightarrow> is_lower c \<and> list_all (\<lambda>c. is_lower c \<or> is_upper c \<or> is_digit c \<or> c = CHR ''_'') cs)"

definition validFieldName :: "string \<Rightarrow> bool" where
  "validFieldName s \<longleftrightarrow> s \<noteq> [] \<and> length s \<le> 64 \<and> list_all validFieldSegment (split_on CHR ''.'' s)"

fun check_fields :: "string list \<Rightarrow> event_field list \<Rightarrow> bool" where
  "check_fields seenField [] = True"
| "check_fields seenField (f # fs) =
     (validFieldName (ef_name f) \<and> ef_name f \<notin> set seenField \<and> ef_type f \<in> set knownEventFieldTypes \<and>
      purpose_ok (ef_purpose f) \<and> check_fields (ef_name f # seenField) fs)"

fun event_loop :: "string list \<Rightarrow> event_spec list \<Rightarrow> plugin_error + unit" where
  "event_loop seen [] = Inr ()"
| "event_loop seen (s # ss) =
     (if \<not> validEventType (es_type s) then Inl ErrInvalidPlugin
      else if es_type s \<in> set seen then Inl ErrInvalidPlugin
      else if \<not> purpose_ok (es_purpose s) then Inl ErrInvalidPlugin
      else if \<not> check_fields [] (es_fields s) then Inl ErrInvalidPlugin
      else event_loop (es_type s # seen) ss)"

definition validateEventSpecs :: "event_spec list \<Rightarrow> plugin_error + unit" where
  "validateEventSpecs ss = event_loop [] ss"

definition upper_char :: "char \<Rightarrow> char" where
  "upper_char c = (if is_lower c then char_of (of_char c - 32 :: nat) else c)"

definition route_methods :: "string list" where
  "route_methods = [''GET'', ''HEAD'', ''POST'', ''PUT'', ''PATCH'', ''DELETE'', ''OPTIONS'']"

definition parseRoutePattern :: "string \<Rightarrow> plugin_error + (string \<times> string)" where
  "parseRoutePattern pat =
     (case cut CHR '' '' (trim_space pat) of
        None \<Rightarrow> Inl ErrInvalidPlugin
      | Some (m, path) \<Rightarrow>
          (let meth = map upper_char m in
           if meth \<notin> set route_methods then Inl ErrInvalidPlugin
           else if \<not> has_prefix path ''/'' then Inl ErrInvalidPlugin
           else if contains_sub path ''..'' \<or> contains_sub path ''//'' then Inl ErrInvalidPlugin
           else if has_prefix path ''/api/'' then Inl ErrInvalidPlugin
           else Inr (meth, path)))"

definition durableName :: "string \<Rightarrow> string \<Rightarrow> string" where
  "durableName p name = ''plugin:'' @ p @ '':'' @ name"

section \<open>The configuration a manifest declares\<close>

definition empty_json :: "string \<Rightarrow> bool" where
  "empty_json s \<longleftrightarrow> s = [] \<or> s = ''null''"

definition validateConfigSpec :: "json_lib \<Rightarrow> config_spec \<Rightarrow> plugin_error + unit" where
  "validateConfigSpec jl spec =
     (if empty_json (cs_schema spec) then
        (if empty_json (cs_defaults spec) then Inr () else Inl ErrInvalidConfig)
      else case jl_parse jl (cs_schema spec) of
             None \<Rightarrow> Inl ErrInvalidConfig
           | Some schema \<Rightarrow>
               then_check (checkSchema schema)
                 (let defaults = (if empty_json (cs_defaults spec) then ''{}'' else cs_defaults spec)
                  in case jl_parse jl defaults of
                       None \<Rightarrow> Inl ErrInvalidConfig
                     | Some doc \<Rightarrow> validateAgainst (jl_rx jl) schema doc))"

definition validateAgainstSchema :: "json_lib \<Rightarrow> config_spec \<Rightarrow> string \<Rightarrow> plugin_error + unit" where
  "validateAgainstSchema jl spec doc =
     (if empty_json (cs_schema spec) then
        (if empty_json doc \<or> doc = ''{}'' then Inr () else Inl ErrInvalidConfig)
      else case jl_parse jl (cs_schema spec) of
             None \<Rightarrow> Inl ErrInvalidConfig
           | Some schema \<Rightarrow>
               (case jl_parse jl doc of
                  None \<Rightarrow> Inl ErrInvalidConfig
                | Some v \<Rightarrow> validateAgainst (jl_rx jl) schema v))"

section \<open>Inspection of one plugin\<close>

definition job_ok :: "job_def \<Rightarrow> bool" where
  "job_ok j \<longleftrightarrow> host_validName (df_name j) \<and> df_handler j \<and>
     (df_schedule j \<noteq> [] \<longrightarrow> df_tz j \<noteq> [] \<and> length (CC_Prelude.fields (df_schedule j)) = 5)"

definition sub_ok :: "subscription_decl \<Rightarrow> bool" where
  "sub_ok s \<longleftrightarrow> (case CompilePattern (sb_pattern s) of Inl _ \<Rightarrow> False | Inr _ \<Rightarrow> True) \<and> sb_live s \<noteq> (sb_durable s \<noteq> None) \<and>
     (case sb_durable s of None \<Rightarrow> True | Some (n, h) \<Rightarrow> host_validName n \<and> h)"

fun route_loop :: "(string \<times> string) list \<Rightarrow> route_decl list \<Rightarrow> plugin_error + string list" where
  "route_loop seenPath [] = Inr []"
| "route_loop seenPath (rt # rts) =
     (case parseRoutePattern (rt_pattern rt) of
        Inl e \<Rightarrow> Inl e
      | Inr mp \<Rightarrow>
          if \<not> rt_handler rt then Inl ErrInvalidPlugin
          else if mp \<in> set seenPath then Inl ErrInvalidPlugin
          else case route_loop (mp # seenPath) rts of
                 Inl e \<Rightarrow> Inl e
               | Inr ps \<Rightarrow> Inr (rt_pattern rt # ps))"

definition inspect :: "json_lib \<Rightarrow> plugin \<Rightarrow> plugin_error + plugin_decl" where
  "inspect jl p =
     (let m = pg_manifest p in
      if \<not> host_validPluginID (mf_id m) then Inl ErrInvalidPlugin
      else if mf_name m = [] then Inl ErrInvalidPlugin
      else case then_check (validateConfigSpec jl (mf_config m))
                  (then_check (validateModelNeeds (mf_models m)) (validateEventSpecs (mf_events m))) of
             Inl e \<Rightarrow> Inl e
           | Inr _ \<Rightarrow>
               if \<not> list_all job_ok (pg_jobs p) then Inl ErrInvalidPlugin
               else if \<not> list_all sub_ok (pg_subs p) then Inl ErrInvalidPlugin
               else case route_loop [] (pg_routes p) of
                      Inl e \<Rightarrow> Inl e
                    | Inr pats \<Rightarrow>
                        Inr \<lparr>dl_manifest = m, dl_jobs = pg_jobs p, dl_subs = pg_subs p,
                             dl_routes = pg_routes p, dl_jobNames = map df_name (pg_jobs p),
                             dl_routePat = pats\<rparr>)"

section \<open>Registration\<close>

record reg_keys =
  rk_ids :: "string list"
  rk_jobs :: "string list"
  rk_routes :: "string list"
  rk_subs :: "string list"

fun add_keys :: "string list \<Rightarrow> string list \<Rightarrow> (string list) option" where
  \<comment> \<open>insert each key into a set, stopping at the first that is there\<close>
  "add_keys seen [] = Some seen"
| "add_keys seen (k # ks) = (if k \<in> set seen then None else add_keys (k # seen) ks)"

definition job_key :: "string \<Rightarrow> string \<Rightarrow> string" where
  "job_key p n = p @ [CHR 0x00] @ n"

fun route_keys :: "string \<Rightarrow> string list \<Rightarrow> (string list) option" where
  "route_keys p [] = Some []"
| "route_keys p (pat # pats) =
     (case parseRoutePattern pat of
        Inl e \<Rightarrow> None
      | Inr (m, path) \<Rightarrow>
          map_option (Cons (p @ [CHR 0x00] @ m @ [CHR 0x00] @ path)) (route_keys p pats))"

definition durable_names :: "string \<Rightarrow> subscription_decl list \<Rightarrow> string list" where
  "durable_names p subs = concat (map (\<lambda>s. case sb_durable s of
     None \<Rightarrow> [] | Some (n, h) \<Rightarrow> [durableName p n]) subs)"

definition register_one :: "reg_keys \<Rightarrow> plugin_decl \<Rightarrow> reg_keys option" where
  "register_one rk d =
     (let p = mf_id (dl_manifest d) in
      if p \<in> set (rk_ids rk) then None
      else case add_keys (rk_jobs rk) (map (job_key p) (dl_jobNames d)) of
             None \<Rightarrow> None
           | Some js \<Rightarrow>
               (case route_keys p (dl_routePat d) of
                  None \<Rightarrow> None
                | Some ks \<Rightarrow>
                    (case add_keys (rk_routes rk) ks of
                       None \<Rightarrow> None
                     | Some rs \<Rightarrow>
                         (case add_keys (rk_subs rk) (durable_names p (dl_subs d)) of
                            None \<Rightarrow> None
                          | Some ss \<Rightarrow>
                              Some \<lparr>rk_ids = p # rk_ids rk, rk_jobs = js, rk_routes = rs, rk_subs = ss\<rparr>))))"

fun register_loop :: "json_lib \<Rightarrow> reg_keys \<Rightarrow> plugin option list \<Rightarrow> plugin_error + plugin_decl list" where
  \<comment> \<open>\<^const>\<open>None\<close> is a nil plugin\<close>
  "register_loop jl rk [] = Inr []"
| "register_loop jl rk (None # ps) = Inl ErrInvalidPlugin"
| "register_loop jl rk (Some p # ps) =
     (case inspect jl p of
        Inl e \<Rightarrow> Inl e
      | Inr d \<Rightarrow>
          (case register_one rk d of
             None \<Rightarrow> Inl ErrInvalidPlugin
           | Some rk' \<Rightarrow>
               (case register_loop jl rk' ps of Inl e \<Rightarrow> Inl e | Inr ds \<Rightarrow> Inr (d # ds))))"

definition no_keys :: reg_keys where
  "no_keys = \<lparr>rk_ids = [], rk_jobs = [], rk_routes = [], rk_subs = []\<rparr>"

section \<open>The names fit the modules below\<close>

lemma host_segment: "host_validName s \<Longrightarrow> validSegment s"
  by (cases s) (simp_all add: host_validName_def validSegment_def seg_char_def[abs_def])

lemma host_id_name: "host_validPluginID s \<Longrightarrow> host_validName s \<and> s \<noteq> ''core''"
  by (cases s) (simp_all add: host_validName_def host_validPluginID_def)

lemma host_name_jobs: "host_validName = validName"
  by (rule ext) (simp add: host_validName_def validName_def)

lemma host_name_policy: "host_validName = validPluginID"
  by (rule ext) (simp add: host_validName_def validPluginID_def)

lemma segment_no_char: "validSegment s \<Longrightarrow> c \<in> set s \<Longrightarrow> seg_char c"
  by (cases s) (auto simp: validSegment_def seg_char_def list_all_iff)

lemma seg_char_plain: "\<not> seg_char CHR ''.''" "\<not> seg_char CHR '':''" "\<not> seg_char (CHR 0x00)"
  by code_simp+

lemma cut_fresh: "d \<notin> set a \<Longrightarrow> cut d (a @ d # b) = Some (a, b)"
  by (induction a) auto

lemma split_fresh: "d \<notin> set a \<Longrightarrow> split_on d (a @ d # b) = a # split_on d b"
  by (induction a) auto

lemma split_single: "d \<notin> set a \<Longrightarrow> split_on d a = [a]"
  by (induction a) auto

lemma contains_char: "contains_sub s [c] \<longleftrightarrow> c \<in> set s"
  by (induction s) (auto simp: has_prefix_def)

lemma durable_name_valid:
  assumes "host_validName p" "host_validName n"
  shows "validDurableName (durableName p n)"
proof -
  have s: "validSegment p" "validSegment n" using assms host_segment by auto
  have "CHR '':'' \<notin> set p" "CHR '':'' \<notin> set n" using segment_no_char s seg_char_plain by blast+
  moreover have "has_prefix (durableName p n) ''plugin:''"
    "trim_prefix (durableName p n) ''plugin:'' = p @ CHR '':'' # n"
    by (simp_all add: durableName_def has_prefix_def trim_prefix_def)
  ultimately show ?thesis using s by (simp add: validDurableName_def cut_fresh contains_char)
qed

lemma event_type_valid:
  assumes "host_validPluginID p" "validEventType t"
  shows "validateType (p @ ''.'' @ t) = Inr () \<and> validateSource p (p @ ''.'' @ t) = Inr ()"
proof -
  have p: "validSegment p" "p \<noteq> ''core''" using assms(1) host_id_name host_segment by auto
  have d: "CHR ''.'' \<notin> set p" using segment_no_char p(1) seg_char_plain by blast
  have sp: "split_on CHR ''.'' (p @ ''.'' @ t) = p # split_on CHR ''.'' t"
    using split_fresh[OF d, of t] by simp
  have t: "list_all validSegment (split_on CHR ''.'' t)"
    using assms(2) host_segment by (auto simp: validEventType_def list_all_iff)
  have "split_on CHR ''.'' t \<noteq> []" by (cases t) (auto split: list.splits)
  then have "\<not> length (p # split_on CHR ''.'' t) < 2" by (cases "split_on CHR ''.'' t") auto
  then have v: "validateType (p @ ''.'' @ t) = Inr ()" using p t unfolding validateType_def sp by simp
  have "before_dot (p @ ''.'' @ t) = p" using cut_fresh[OF d, of t] by (simp add: before_dot_def)
  then have "validateSource p (p @ ''.'' @ t) = Inr ()"
    using p split_single[OF d] by (cases p) (auto simp: validateSource_def Let_def validSegment_def)
  with v show ?thesis by simp
qed

lemma def_key_prefix:
  assumes "host_validName p" "host_validName q"
  shows "has_prefix (defKey q n) (defKey p []) \<longleftrightarrow> q = p"
proof
  have z: "CHR 0x00 \<notin> set p" "CHR 0x00 \<notin> set q"
    using assms host_segment segment_no_char seg_char_plain by blast+
  assume "has_prefix (defKey q n) (defKey p [])"
  then obtain r where "defKey q n = defKey p [] @ r"
    by (metis append_take_drop_id has_prefix_def)
  then have "q @ CHR 0x00 # n = p @ CHR 0x00 # r" by (simp add: defKey_def)
  then have "cut (CHR 0x00) (q @ CHR 0x00 # n) = cut (CHR 0x00) (p @ CHR 0x00 # r)" by simp
  then show "q = p" using z by (simp add: cut_fresh)
qed (simp add: has_prefix_def defKey_def)

lemma event_loop_ok: "event_loop seen ss = Inr () \<Longrightarrow> \<forall>s \<in> set ss. validEventType (es_type s)"
  by (induction ss arbitrary: seen) (auto split: if_splits)

lemma inspect_ok:
  assumes "inspect jl p = Inr d"
  shows "host_validPluginID (mf_id (dl_manifest d))"
    "list_all job_ok (dl_jobs d)" "list_all sub_ok (dl_subs d)"
    "dl_jobNames d = map df_name (dl_jobs d)"
    "validateEventSpecs (mf_events (dl_manifest d)) = Inr ()"
    "validateConfigSpec jl (mf_config (dl_manifest d)) = Inr ()"
  using assms by (auto simp: inspect_def Let_def split: if_splits sum.splits)

section \<open>Registration keeps names apart\<close>

definition did :: "plugin_decl \<Rightarrow> string" where
  "did d = mf_id (dl_manifest d)"

definition job_keys_of :: "plugin_decl \<Rightarrow> string list" where
  "job_keys_of d = map (defKey (did d)) (dl_jobNames d)"

definition durables_of :: "plugin_decl \<Rightarrow> string list" where
  "durables_of d = durable_names (did d) (dl_subs d)"

lemma job_key_is_defKey: "job_key = defKey"
  by (intro ext) (simp add: job_key_def defKey_def)

lemma add_keys_iff:
  "add_keys seen ks = (if distinct ks \<and> set ks \<inter> set seen = {} then Some (rev ks @ seen) else None)"
  by (induction ks arbitrary: seen) auto

lemma register_one_ok:
  assumes "register_one rk d = Some rk'"
  shows "did d \<notin> set (rk_ids rk)" "rk_ids rk' = did d # rk_ids rk"
    "distinct (job_keys_of d)" "set (job_keys_of d) \<inter> set (rk_jobs rk) = {}"
    "set (rk_jobs rk') = set (job_keys_of d) \<union> set (rk_jobs rk)"
    "distinct (durables_of d)" "set (durables_of d) \<inter> set (rk_subs rk) = {}"
    "set (rk_subs rk') = set (durables_of d) \<union> set (rk_subs rk)"
  using assms
  by (auto simp: register_one_def Let_def add_keys_iff job_keys_of_def durables_of_def did_def
      job_key_is_defKey split: if_splits option.splits)

definition apart :: "('a \<Rightarrow> string list) \<Rightarrow> string list \<Rightarrow> 'a list \<Rightarrow> bool" where
  "apart f old ds \<longleftrightarrow> distinct (concat (map f ds)) \<and> set (concat (map f ds)) \<inter> set old = {}"

lemma apart_Cons:
  "distinct (f d) \<Longrightarrow> set (f d) \<inter> set old = {} \<Longrightarrow> set old' = set (f d) \<union> set old \<Longrightarrow> apart f old' ds \<Longrightarrow>
   apart f old (d # ds)"
  by (auto simp: apart_def)

lemma register_loop_ok:
  "register_loop jl rk ps = Inr ds \<Longrightarrow>
   (\<forall>d \<in> set ds. \<exists>p. Some p \<in> set ps \<and> inspect jl p = Inr d) \<and> length ds = length ps \<and>
   apart (\<lambda>d. [did d]) (rk_ids rk) ds \<and> apart job_keys_of (rk_jobs rk) ds \<and> apart durables_of (rk_subs rk) ds"
proof (induction jl rk ps arbitrary: ds rule: register_loop.induct)
  case (1 jl rk)
  then show ?case by (simp add: apart_def)
next
  case (2 jl rk ps)
  then show ?case by simp
next
  case (3 jl rk p ps)
  from "3.prems" obtain d rk' ds' where d: "inspect jl p = Inr d" "register_one rk d = Some rk'"
    "register_loop jl rk' ps = Inr ds'" "ds = d # ds'"
    by (auto split: sum.splits option.splits)
  note ih = "3.IH"[OF d(1-3)] and r = register_one_ok[OF d(2)]
  have "apart (\<lambda>d. [did d]) (rk_ids rk) ds"
    unfolding d(4) by (rule apart_Cons[where old' = "rk_ids rk'"]) (use r ih in auto)
  moreover have "apart job_keys_of (rk_jobs rk) ds"
    unfolding d(4) by (rule apart_Cons[where old' = "rk_jobs rk'"]) (use r ih in auto)
  moreover have "apart durables_of (rk_subs rk) ds"
    unfolding d(4) by (rule apart_Cons[where old' = "rk_subs rk'"]) (use r ih in auto)
  ultimately show ?case using ih d(1, 4) by auto
qed

lemma route_loop_ok:
  "route_loop seen rts = Inr pats \<Longrightarrow> pats = map rt_pattern rts \<and>
   list_all (\<lambda>rt. rt_handler rt \<and> (\<exists>mp. parseRoutePattern (rt_pattern rt) = Inr mp \<and> mp \<notin> set seen)) rts \<and>
   distinct (map parseRoutePattern pats)"
proof (induction seen rts arbitrary: pats rule: route_loop.induct)
  case (2 seen rt rts)
  from "2.prems" obtain mp ps where r: "parseRoutePattern (rt_pattern rt) = Inr mp" "rt_handler rt"
    "mp \<notin> set seen" "route_loop (mp # seen) rts = Inr ps" "pats = rt_pattern rt # ps"
    by (auto split: sum.splits if_splits)
  have "parseRoutePattern (rt_pattern rt) \<notin> parseRoutePattern ` set ps"
    using "2.IH"[OF r(1) _ r(3, 4)] r(1, 2) by (auto simp: list_all_iff)
  then show ?case using "2.IH"[OF r(1) _ r(3, 4)] r by (cases mp) (auto simp: list_all_iff)
qed simp

lemma inspect_routes:
  assumes "inspect jl p = Inr d"
  shows "dl_routePat d = map rt_pattern (dl_routes d) \<and> list_all rt_handler (dl_routes d) \<and>
    distinct (map parseRoutePattern (dl_routePat d)) \<and>
    list_all (\<lambda>pat. \<exists>mp. parseRoutePattern pat = Inr mp) (dl_routePat d)"
proof -
  have "route_loop [] (dl_routes d) = Inr (dl_routePat d)"
    using assms by (auto simp: inspect_def Let_def split: if_splits sum.splits)
  from route_loop_ok[OF this] show ?thesis by (auto simp: list_all_iff)
qed

lemma route_inside:
  assumes "parseRoutePattern pat = Inr (m, path)"
  shows "m \<in> set route_methods \<and> has_prefix path ''/'' \<and> \<not> contains_sub path ''..'' \<and>
    \<not> contains_sub path ''//'' \<and> \<not> has_prefix path ''/api/''"
  using assms by (auto simp: parseRoutePattern_def Let_def split: option.splits if_splits)

end
