(* ===== verification/Plugin_Config.thy ===== *)
theory Plugin_Config
  imports Plugin_Decl Jobs_Worker
begin

text \<open>
  \<^verbatim>\<open>internal/core/pluginhost/config.go\<close>: the persisted configuration of plugins, with the references to credentials
  that a document makes (\<^verbatim>\<open>ReplaceTx\<close> of \<^verbatim>\<open>internal/core/credentials/store.go\<close>). The record \<open>host_db\<close> adds the
  tables to those of the modules below.
\<close>

section \<open>Tables\<close>

record cfg_row =
  cf_plugin :: string
  cf_value :: string
  cf_version :: int
  cf_updated :: string
  cf_by :: string

record ref_row =
  rf_owner :: string
  rf_cred :: string
  rf_updated :: string

record host_db = job_db +
  hd_config :: "cfg_row list" \<comment> \<open>\<^verbatim>\<open>core_plugin_config\<close>\<close>
  hd_creds :: "string list" \<comment> \<open>the ids in \<^verbatim>\<open>core_credentials\<close>\<close>
  hd_refs :: "ref_row list" \<comment> \<open>\<^verbatim>\<open>core_credential_references\<close>\<close>

datatype host_error =
    HePlugin plugin_error
  | HePolicy policy_error
  | HeJobs job_error
  | HeEvents events_error
  | HeCode string \<comment> \<open>an error that plugin code returned\<close>
  | HeNoOwner | HeUnknownCredential | HeHostSQL

type_synonym ('a, 'x) htx = "'a host_db_scheme \<Rightarrow> (host_error + 'x) \<times> 'a host_db_scheme"

section \<open>References to credentials\<close>

fun insert_refs :: "time \<Rightarrow> string \<Rightarrow> string list \<Rightarrow> ('a, unit) htx" where
  "insert_refs now owner [] d = (Inr (), d)"
| "insert_refs now owner (c # cs) d =
     (case sql_insert (\<lambda>r. (rf_owner r, rf_cred r))
             \<lparr>rf_owner = owner, rf_cred = c, rf_updated = rfc now\<rparr> (hd_refs d) of
        None \<Rightarrow> (Inl HeHostSQL, d)
      | Some rs \<Rightarrow> insert_refs now owner cs (d\<lparr>hd_refs := rs\<rparr>))"

definition ReplaceTx :: "time \<Rightarrow> string \<Rightarrow> string list \<Rightarrow> ('a, unit) htx" where
  "ReplaceTx now owner creds d =
     (if owner = [] then (Inl HeNoOwner, d)
      else if \<not> list_all (\<lambda>c. c \<in> set (hd_creds d)) creds then (Inl HeUnknownCredential, d)
      else insert_refs now owner creds (d\<lparr>hd_refs := sql_delete (\<lambda>r. rf_owner r = owner) (hd_refs d)\<rparr>))"

section \<open>Reading and writing the configuration\<close>

definition default_config :: "config_spec \<Rightarrow> string" where
  "default_config spec = (if empty_json (cs_defaults spec) then ''{}'' else cs_defaults spec)"

definition config_of :: "string \<Rightarrow> cfg_row \<Rightarrow> bool" where
  "config_of p r \<longleftrightarrow> cf_plugin r = p"

definition loadConfig :: "manifest \<Rightarrow> 'a host_db_scheme \<Rightarrow> string \<times> int" where
  "loadConfig m d =
     (case sql_find (config_of (mf_id m)) (hd_config d) of
        None \<Rightarrow> (default_config (mf_config m), 0)
      | Some r \<Rightarrow> (cf_value r, cf_version r))"

definition ensureConfigRow :: "time \<Rightarrow> manifest \<Rightarrow> 'a host_db_scheme \<Rightarrow> 'a host_db_scheme" where
  "ensureConfigRow now m d =
     (case sql_insert cf_plugin \<lparr>cf_plugin = mf_id m, cf_value = default_config (mf_config m), cf_version = 1,
             cf_updated = rfc now, cf_by = ''system''\<rparr> (hd_config d) of
        None \<Rightarrow> d \<comment> \<open>\<^verbatim>\<open>ON CONFLICT DO NOTHING\<close>\<close>
      | Some rs \<Rightarrow> d\<lparr>hd_config := rs\<rparr>)"

definition validatePersistedConfig :: "json_lib \<Rightarrow> manifest \<Rightarrow> 'a host_db_scheme \<Rightarrow> plugin_error + unit" where
  "validatePersistedConfig jl m d =
     (if empty_json (cs_schema (mf_config m)) then Inr ()
      else validateAgainstSchema jl (mf_config m) (fst (loadConfig m d)))"

definition credentialIDsFromConfig :: "json_lib \<Rightarrow> string \<Rightarrow> plugin_error + string list" where
  \<comment> \<open>\<^verbatim>\<open>null\<close> decodes into a nil map\<close>
  "credentialIDsFromConfig jl doc =
     (if empty_json doc then Inr []
      else case jl_parse jl doc of
             Some (AObj m) \<Rightarrow>
               (let cid = trim_space (case map_of m ''credential_id'' of Some (AStr s) \<Rightarrow> s | _ \<Rightarrow> [])
                in Inr (if cid = [] then [] else [cid]))
           | Some ANull \<Rightarrow> Inr []
           | _ \<Rightarrow> Inl ErrInvalidConfig)"

definition upsert_config :: "time \<Rightarrow> string \<Rightarrow> string \<Rightarrow> string \<Rightarrow> cfg_row list \<Rightarrow> cfg_row list" where
  "upsert_config now p doc actor rs =
     (case sql_find (config_of p) rs of
        None \<Rightarrow> rs @ [\<lparr>cf_plugin = p, cf_value = doc, cf_version = 1, cf_updated = rfc now, cf_by = actor\<rparr>]
      | Some _ \<Rightarrow> sql_update (config_of p)
          (\<lambda>r. r\<lparr>cf_value := doc, cf_version := cf_version r + 1, cf_updated := rfc now, cf_by := actor\<rparr>) rs)"

definition config_owner :: "string \<Rightarrow> string" where
  "config_owner p = ''plugin:'' @ p @ '':config''"

definition update_config_tx ::
  "time \<Rightarrow> json_lib \<Rightarrow> bool \<Rightarrow> manifest \<Rightarrow> string \<Rightarrow> string \<Rightarrow> ('a, unit) htx" where
  \<comment> \<open>the flag says whether a reference store is wired (\<^verbatim>\<open>Options.Refs\<close>)\<close>
  "update_config_tx now jl refs m doc actor0 d =
     (let actor = (if actor0 = [] then ''admin'' else actor0) in
      case validateAgainstSchema jl (mf_config m) doc of
        Inl e \<Rightarrow> (Inl (HePlugin e), d)
      | Inr _ \<Rightarrow>
          (case credentialIDsFromConfig jl doc of
             Inl e \<Rightarrow> (Inl (HePlugin e), d)
           | Inr creds \<Rightarrow>
               run_tx (\<lambda>d.
                 let d1 = d\<lparr>hd_config := upsert_config now (mf_id m) doc actor (hd_config d)\<rparr>
                 in if refs then ReplaceTx now (config_owner (mf_id m)) creds d1 else (Inr (), d1)) d))"

section \<open>The live view\<close>

record plugin_config =
  pc_value :: string
  pc_listeners :: "nat option list" \<comment> \<open>an entry is nil once its watch was stopped\<close>

definition config_Decode :: "plugin_config \<Rightarrow> string" where
  \<comment> \<open>the document that is decoded\<close>
  "config_Decode c = (if pc_value c = [] then ''{}'' else pc_value c)"

definition config_Watch :: "nat \<Rightarrow> plugin_config \<Rightarrow> nat \<times> plugin_config" where
  \<comment> \<open>the index identifies the watch to the function that stops it\<close>
  "config_Watch fn c = (length (pc_listeners c), c\<lparr>pc_listeners := pc_listeners c @ [Some fn]\<rparr>)"

definition config_unwatch :: "nat \<Rightarrow> plugin_config \<Rightarrow> plugin_config" where
  "config_unwatch idx c =
     (if idx < length (pc_listeners c) then c\<lparr>pc_listeners := (pc_listeners c)[idx := None]\<rparr> else c)"

section \<open>Correctness of an update\<close>

lemma credential_ids_short: "credentialIDsFromConfig jl doc = Inr creds \<Longrightarrow> creds = [] \<or> (\<exists>c. creds = [c])"
  by (auto simp: credentialIDsFromConfig_def Let_def split: if_splits option.splits any.splits)

definition owned_refs :: "string \<Rightarrow> 'a host_db_scheme \<Rightarrow> string list" where
  "owned_refs owner d = map rf_cred (filter (\<lambda>r. rf_owner r = owner) (hd_refs d))"

definition other_refs :: "string \<Rightarrow> 'a host_db_scheme \<Rightarrow> ref_row list" where
  "other_refs owner d = filter (\<lambda>r. rf_owner r \<noteq> owner) (hd_refs d)"

lemma ReplaceTx_short:
  assumes "creds = [] \<or> (\<exists>c. creds = [c])" "owner \<noteq> []"
  shows "case ReplaceTx now owner creds d of
      (Inl e, d') \<Rightarrow> e = HeUnknownCredential \<and> \<not> set creds \<subseteq> set (hd_creds d)
    | (Inr _, d') \<Rightarrow> owned_refs owner d' = creds \<and> other_refs owner d' = other_refs owner d \<and>
        d' = d\<lparr>hd_refs := hd_refs d'\<rparr>"
proof -
  have k: "(owner, c) \<notin> (\<lambda>r. (rf_owner r, rf_cred r)) ` set (sql_delete (\<lambda>r. rf_owner r = owner) (hd_refs d))" for c
    by auto
  have f: "filter (\<lambda>r. rf_owner r = owner) (sql_delete (\<lambda>r. rf_owner r = owner) (hd_refs d)) = []"
    "filter (\<lambda>r. rf_owner r \<noteq> owner) (sql_delete (\<lambda>r. rf_owner r = owner) (hd_refs d)) = other_refs owner d"
    by (simp_all add: sql_delete_def filter_empty_conv other_refs_def)
  from assms(1) show ?thesis
  proof
    assume "creds = []"
    then show ?thesis using assms(2) f by (simp add: ReplaceTx_def owned_refs_def other_refs_def)
  next
    assume "\<exists>c. creds = [c]"
    then obtain c where c: "creds = [c]" by blast
    show ?thesis
    proof (cases "c \<in> set (hd_creds d)")
      case True
      have "ReplaceTx now owner creds d = (Inr (), d\<lparr>hd_refs := sql_delete (\<lambda>r. rf_owner r = owner) (hd_refs d) @
          [\<lparr>rf_owner = owner, rf_cred = c, rf_updated = rfc now\<rparr>]\<rparr>)"
        using True assms(2) k[of c] by (simp add: ReplaceTx_def c sql_insert_def)
      then show ?thesis using c f by (simp add: owned_refs_def other_refs_def)
    next
      case False
      then show ?thesis using c assms(2) by (simp add: ReplaceTx_def)
    qed
  qed
qed

lemma upsert_find:
  "sql_find (config_of q) (upsert_config now p doc actor rs) =
     (if q = p then Some (case sql_find (config_of p) rs of
          None \<Rightarrow> \<lparr>cf_plugin = p, cf_value = doc, cf_version = 1, cf_updated = rfc now, cf_by = actor\<rparr>
        | Some r \<Rightarrow> r\<lparr>cf_value := doc, cf_version := cf_version r + 1, cf_updated := rfc now, cf_by := actor\<rparr>)
      else sql_find (config_of q) rs)"
proof (cases "sql_find (config_of p) rs")
  case None
  then show ?thesis by (auto simp: upsert_config_def sql_simps config_of_def split: option.split)
next
  case (Some r)
  let ?f = "\<lambda>r. r\<lparr>cf_value := doc, cf_version := cf_version r + 1, cf_updated := rfc now, cf_by := actor\<rparr>"
  have "sql_find (config_of q) (sql_update (config_of p) ?f rs) =
      map_option (\<lambda>r. if config_of p r then ?f r else r) (sql_find (config_of q) rs)"
    by (rule sql_find_update_key) (simp add: config_of_def)
  moreover have "\<not> config_of p x" if "sql_find (config_of q) rs = Some x" "q \<noteq> p" for x
    using sql_find_Some[OF that(1)] that(2) by (simp add: config_of_def)
  moreover have "config_of p r" using sql_find_Some[OF Some] by simp
  ultimately show ?thesis using Some by (cases "sql_find (config_of q) rs") (auto simp: upsert_config_def)
qed

lemma loadConfig_upsert:
  assumes "hd_config d' = upsert_config now (mf_id m) doc actor (hd_config d)"
  shows "loadConfig m d' = (doc, snd (loadConfig m d) + 1)"
    "mf_id m' \<noteq> mf_id m \<Longrightarrow> loadConfig m' d' = loadConfig m' d"
  using assms by (auto simp: loadConfig_def upsert_find split: option.splits)

lemma replace_after_upsert:
  assumes "credentialIDsFromConfig jl doc = Inr creds"
    and "ReplaceTx now (config_owner p) creds (d\<lparr>hd_config := cs\<rparr>) = (r, d')"
  shows "case r of Inl e \<Rightarrow> e = HeUnknownCredential
    | Inr _ \<Rightarrow> owned_refs (config_owner p) d' = creds \<and> other_refs (config_owner p) d' = other_refs (config_owner p) d \<and>
        hd_config d' = cs \<and> d' = d\<lparr>hd_config := hd_config d', hd_refs := hd_refs d'\<rparr>"
proof (cases r)
  case (Inl e)
  then show ?thesis
    using ReplaceTx_short[OF credential_ids_short[OF assms(1)], of "config_owner p" "d\<lparr>hd_config := cs\<rparr>" now] assms(2)
    by (simp add: config_owner_def)
next
  case (Inr a)
  have d': "owned_refs (config_owner p) d' = creds"
    "other_refs (config_owner p) d' = other_refs (config_owner p) (d\<lparr>hd_config := cs\<rparr>)"
    "d' = d\<lparr>hd_config := cs, hd_refs := hd_refs d'\<rparr>"
    using ReplaceTx_short[OF credential_ids_short[OF assms(1)], of "config_owner p" "d\<lparr>hd_config := cs\<rparr>" now] assms(2) Inr
    by (simp_all add: config_owner_def)
  from d'(3) have c: "hd_config d' = cs" by (metis host_db.select_convs(1) host_db.surjective host_db.update_convs(1, 3))
  show ?thesis using Inr d' by (simp add: c other_refs_def)
qed

text \<open>C14. An update of a plugin's configuration either changes nothing, because the document does not fit the schema or
  names an unknown credential, or stores the document under the next version together with exactly its
  credential reference, and leaves other plugins' documents and references and all other tables alone.\<close>

theorem config_update_exact:
  "case update_config_tx now jl refs m doc actor d of
     (Inl e, d') \<Rightarrow> d' = d \<and>
       (validateAgainstSchema jl (mf_config m) doc = Inr () \<longrightarrow> e = HeUnknownCredential \<or> e = HePlugin ErrInvalidConfig)
   | (Inr _, d') \<Rightarrow>
       validateAgainstSchema jl (mf_config m) doc = Inr () \<and>
       loadConfig m d' = (doc, snd (loadConfig m d) + 1) \<and>
       (\<forall>m'. mf_id m' \<noteq> mf_id m \<longrightarrow> loadConfig m' d' = loadConfig m' d) \<and>
       (refs \<longrightarrow> credentialIDsFromConfig jl doc = Inr (owned_refs (config_owner (mf_id m)) d')) \<and>
       other_refs (config_owner (mf_id m)) d' = other_refs (config_owner (mf_id m)) d \<and>
       d' = d\<lparr>hd_config := hd_config d', hd_refs := hd_refs d'\<rparr>"
proof (cases "validateAgainstSchema jl (mf_config m) doc")
  case (Inl e)
  then show ?thesis by (simp add: update_config_tx_def Let_def)
next
  case v: (Inr u)
  show ?thesis
  proof (cases "credentialIDsFromConfig jl doc")
    case (Inl e)
    then have "e = ErrInvalidConfig"
      by (auto simp: credentialIDsFromConfig_def Let_def split: if_splits option.splits any.splits)
    with Inl v show ?thesis by (simp add: update_config_tx_def Let_def)
  next
    case c: (Inr creds)
    let ?cs = "upsert_config now (mf_id m) doc (if actor = [] then ''admin'' else actor) (hd_config d)"
    have u: "update_config_tx now jl refs m doc actor d =
        (case (if refs then ReplaceTx now (config_owner (mf_id m)) creds (d\<lparr>hd_config := ?cs\<rparr>) else (Inr (), d\<lparr>hd_config := ?cs\<rparr>)) of
           (Inl e, d') \<Rightarrow> (Inl e, d) | (Inr a, d') \<Rightarrow> (Inr a, d'))"
      using v c by (simp add: update_config_tx_def Let_def run_tx_def split: sum.split prod.split)
    obtain res d' where rt: "ReplaceTx now (config_owner (mf_id m)) creds (d\<lparr>hd_config := ?cs\<rparr>) = (res, d')" by fastforce
    have l: "loadConfig m x = (doc, snd (loadConfig m d) + 1) \<and> (\<forall>m'. mf_id m' \<noteq> mf_id m \<longrightarrow> loadConfig m' x = loadConfig m' d)"
      if "hd_config x = ?cs" for x :: "'a host_db_scheme"
      using loadConfig_upsert[OF that] by blast
    show ?thesis
    proof (cases refs)
      case True
      show ?thesis
      proof (cases res)
        case (Inl e)
        with replace_after_upsert[OF c rt] u rt True show ?thesis by simp
      next
        case (Inr a)
        note R = replace_after_upsert[OF c rt, unfolded Inr sum.case]
        have f: "owned_refs (config_owner (mf_id m)) d' = creds"
          "other_refs (config_owner (mf_id m)) d' = other_refs (config_owner (mf_id m)) d"
          "d' = d\<lparr>hd_config := hd_config d', hd_refs := hd_refs d'\<rparr>" "hd_config d' = ?cs" using R by blast+
        have e: "update_config_tx now jl refs m doc actor d = (Inr (), d')" using u rt Inr True by simp
        have v': "validateAgainstSchema jl (mf_config m) doc = Inr ()" using v by simp
        show ?thesis
          unfolding e prod.case sum.case f(1) using v' c f(2, 3) l[OF f(4)] by blast
      qed
    next
      case False
      then show ?thesis using u v c l[of "d\<lparr>hd_config := ?cs\<rparr>"] by (simp add: other_refs_def)
    qed
  qed
qed

definition c_json :: json_lib where
  "c_json = \<lparr>jl_parse = (\<lambda>s.
      if s = ''schema'' then Some (AObj [(''type'', AStr ''object''),
          (''properties'', AObj [(''credential_id'', AObj [(''type'', AStr ''string'')])])])
      else if s = ''doc'' then Some (AObj [(''credential_id'', AStr '' k '')]) else None), jl_rx = w_rx\<rparr>"

definition c_manifest :: manifest where
  "c_manifest = \<lparr>mf_id = ''a'', mf_name = ''A'', mf_automated = False, mf_models = [], mf_events = [],
     mf_config = \<lparr>cs_schema = ''schema'', cs_defaults = []\<rparr>\<rparr>"

definition c_db :: host_db where
  "c_db = \<lparr>ev_rows = [], ev_seq = 0, ev_cursors = [], ev_oldest = 1, ev_last_run = None,
     pl_state = [], pl_budget = [], pl_spend = [], pl_reservations = [], pl_budget_events = [], pl_after = [],
     jb_jobs = [], jb_seq = 0, jb_logs = [], jb_log_seq = 0, jb_schedules = [],
     hd_config = [], hd_creds = [''k''], hd_refs = []\<rparr>"

theorem config_update_exact_witness:
  "loadConfig c_manifest (snd (update_config_tx 0 c_json True c_manifest ''doc'' [] c_db)) = (''doc'', 1) \<and>
   owned_refs (config_owner ''a'') (snd (update_config_tx 0 c_json True c_manifest ''doc'' [] c_db)) = [''k'']"
proof -
  let ?r = "update_config_tx 0 c_json True c_manifest ''doc'' [] c_db"
  have f: "fst ?r = Inr ()" "credentialIDsFromConfig c_json ''doc'' = Inr [''k'']" by code_simp+
  then have r: "?r = (Inr (), snd ?r)" by (metis prod.collapse)
  have l: "loadConfig c_manifest c_db = (''{}'', 0)" "mf_id c_manifest = ''a''" by code_simp+
  have "case ?r of (Inl e, d') \<Rightarrow> False | (Inr _, d') \<Rightarrow> loadConfig c_manifest d' = (''doc'', snd (loadConfig c_manifest c_db) + 1) \<and>
      credentialIDsFromConfig c_json ''doc'' = Inr (owned_refs (config_owner (mf_id c_manifest)) d')"
    using config_update_exact[where now = 0 and jl = c_json and refs = True and m = c_manifest and
      doc = "''doc''" and actor = "[]" and d = c_db]
    by (subst (asm) r, subst r) simp
  then have "loadConfig c_manifest (snd ?r) = (''doc'', snd (loadConfig c_manifest c_db) + 1) \<and>
      credentialIDsFromConfig c_json ''doc'' = Inr (owned_refs (config_owner (mf_id c_manifest)) (snd ?r))"
    by (subst (asm) r) simp
  then show ?thesis using f(2) l by simp
qed

end
