(* ===== verification/Plugin_Lifecycle.thy ===== *)
theory Plugin_Lifecycle
  imports Plugin_Config
begin

text \<open>
  \<^verbatim>\<open>internal/core/pluginhost/lifecycle.go\<close>, \<^verbatim>\<open>http.go\<close> and the registry of \<^verbatim>\<open>pluginhost.go\<close>: the slots of the
  registered plugins, and the operations that converge what runs in the process to what policy wants. A reconcile
  holds the slot's mutex, so it is one step; it calls the modules below on their models
  (\<open>policy_State\<close>, \<open>CatchUpSchedules\<close>, \<open>queue_Register\<close>, \<open>subscribeDurable\<close>). What plugin code does in \<^verbatim>\<open>Migrate\<close>,
  \<^verbatim>\<open>Init\<close> and \<^verbatim>\<open>Shutdown\<close> is an argument, and so is whether \<^verbatim>\<open>ServeMux.Handle\<close> accepts the patterns (it panics otherwise).
\<close>

section \<open>Slots and the process\<close>

datatype runtime = RtEnabled | RtDisabled | RtDegraded

datatype error_kind =
    KNone | KMigration | KInit | KRoute | KScheduler | KSubscription | KConfig | KShutdown

record slot =
  sl_decl :: plugin_decl
  sl_desired :: bool
  sl_runtime :: runtime
  sl_error :: "host_error option" \<comment> \<open>\<^verbatim>\<open>LastError\<close> is its text\<close>
  sl_kind :: error_kind
  sl_init :: bool \<comment> \<open>\<^verbatim>\<open>initialized\<close>\<close>
  sl_host :: "plugin_config option" \<comment> \<open>the scoped host, by its view of the configuration\<close>
  sl_mux :: "string list option" \<comment> \<open>the patterns of the mux\<close>
  sl_live :: "string list" \<comment> \<open>patterns of the live subscriptions\<close>
  sl_durable :: "string list" \<comment> \<open>names of the durable subscriptions\<close>
  sl_gen :: "nat option" \<comment> \<open>\<^verbatim>\<open>gen\<close> and \<^verbatim>\<open>cancel\<close>, which are set and cleared together\<close>

definition new_slot :: "plugin_decl \<Rightarrow> slot" where
  "new_slot d = \<lparr>sl_decl = d, sl_desired = False, sl_runtime = RtDisabled, sl_error = None, sl_kind = KNone,
     sl_init = False, sl_host = None, sl_mux = None, sl_live = [], sl_durable = [], sl_gen = None\<rparr>"

datatype plugin_call =
    CallMigrate bool | CallInit nat bool | CallShutdown bool \<comment> \<open>with success\<close>
  | CallCloseBrowser

record running =
  ru_sub :: durable_sub
  ru_plugin :: bool \<comment> \<open>it runs the plugin's handler, not the one that discards\<close>

record 'a world =
  wd_db :: "'a host_db_scheme"
  wd_queue :: queue
  wd_subs :: "running list" \<comment> \<open>the durable subscribers that run in this process\<close>
  wd_calls :: "(string \<times> plugin_call) list" \<comment> \<open>calls of plugin code so far\<close>
  wd_gens :: "(string \<times> nat) list" \<comment> \<open>contexts that are not cancelled\<close>
  wd_next :: nat

record 'a plugin_code =
  cd_migrate :: "'a host_db_scheme \<Rightarrow> (string + unit) \<times> 'a host_db_scheme"
  cd_init :: "'a host_db_scheme \<Rightarrow> (string + unit) \<times> 'a host_db_scheme"
  cd_shutdown :: "'a host_db_scheme \<Rightarrow> (string + unit) \<times> 'a host_db_scheme"
  cd_mux :: "string list \<Rightarrow> bool" \<comment> \<open>\<^verbatim>\<open>ServeMux.Handle\<close> accepts the patterns\<close>

record lib =
  li_json :: json_lib
  li_job :: job_env
  li_owner :: string \<comment> \<open>the owner of leases in this process\<close>

definition sid :: "slot \<Rightarrow> string" where
  "sid s = mf_id (dl_manifest (sl_decl s))"

definition setHealth :: "runtime \<Rightarrow> error_kind \<Rightarrow> host_error option \<Rightarrow> slot \<Rightarrow> slot" where
  "setHealth rt k e s = s\<lparr>sl_runtime := rt, sl_kind := k, sl_error := e\<rparr>"

definition host_fail :: "error_kind \<Rightarrow> host_error \<Rightarrow> slot \<Rightarrow> slot" where
  "host_fail k e s = s\<lparr>sl_runtime := RtDegraded, sl_error := Some e, sl_kind := k\<rparr>"

section \<open>Subscriptions\<close>

definition sub_named :: "string \<Rightarrow> running \<Rightarrow> bool" where
  "sub_named n r \<longleftrightarrow> ds_name (ru_sub r) = n"

definition close_sub :: "lib \<Rightarrow> time \<Rightarrow> string \<Rightarrow> 'a world \<Rightarrow> 'a world" where
  \<comment> \<open>\<^verbatim>\<open>Close\<close>: the loop ends, the name is free, the lease is released\<close>
  "close_sub li now n w =
     w\<lparr>wd_subs := filter (\<lambda>r. \<not> sub_named n r) (wd_subs w), wd_db := releaseLease (li_owner li) now n (wd_db w)\<rparr>"

definition detachSubscriptions :: "lib \<Rightarrow> time \<Rightarrow> slot \<Rightarrow> 'a world \<Rightarrow> slot \<times> 'a world" where
  "detachSubscriptions li now s w =
     (s\<lparr>sl_live := [], sl_durable := []\<rparr>, fold (close_sub li now) (sl_durable s) w)"

definition durable_cfg :: "string \<Rightarrow> string \<Rightarrow> string \<Rightarrow> durable_config" where
  "durable_cfg p n pat = \<lparr>dc_name = durableName p n, dc_pattern = pat, dc_mode = FromNow, dc_event_id = 0,
     dc_retry = DefaultRetry\<rparr>"

fun attach_loop ::
  "time \<Rightarrow> string \<Rightarrow> bool \<Rightarrow> subscription_decl list \<Rightarrow> slot \<Rightarrow> 'a world \<Rightarrow>
   (events_error + unit) \<times> slot \<times> 'a world" where
  "attach_loop now p discard [] s w = (Inr (), s, w)"
| "attach_loop now p discard (sub # subs) s w =
     (case sb_durable sub of
        Some (n, h) \<Rightarrow>
          (case subscribeDurable now (map (\<lambda>r. ds_name (ru_sub r)) (wd_subs w))
                  (durable_cfg p n (sb_pattern sub)) (wd_db w) of
             (Inl e, d) \<Rightarrow> (Inl e, s, w\<lparr>wd_db := d\<rparr>)
           | (Inr ds, d) \<Rightarrow>
               attach_loop now p discard subs (s\<lparr>sl_durable := sl_durable s @ [ds_name ds]\<rparr>)
                 (w\<lparr>wd_db := d, wd_subs := wd_subs w @ [\<lparr>ru_sub = ds, ru_plugin = \<not> discard\<rparr>]\<rparr>))
      | None \<Rightarrow>
          if discard then attach_loop now p discard subs s w
          else
            (case CompilePattern (sb_pattern sub) of
               Inl e \<Rightarrow> (Inl e, s, w)
             | Inr _ \<Rightarrow> attach_loop now p discard subs (s\<lparr>sl_live := sl_live s @ [sb_pattern sub]\<rparr>) w))"

definition attachSubscriptions ::
  "lib \<Rightarrow> time \<Rightarrow> bool \<Rightarrow> slot \<Rightarrow> 'a world \<Rightarrow> (events_error + unit) \<times> slot \<times> 'a world" where
  "attachSubscriptions li now discard s w =
     (case detachSubscriptions li now s w of
        (s1, w1) \<Rightarrow> attach_loop now (sid s) discard (dl_subs (sl_decl s)) s1 w1)"

definition work_handler ::
  "string \<Rightarrow> (event \<Rightarrow> 'a policy_db_scheme \<Rightarrow> (string + unit) \<times> 'a policy_db_scheme) \<Rightarrow>
   event \<Rightarrow> 'a policy_db_scheme \<Rightarrow> (string + unit) \<times> 'a policy_db_scheme" where
  \<comment> \<open>the plugin's durable handler behind the gate; a refused event counts as handled\<close>
  "work_handler p ph e d = (case CheckWorkTx p d of Inl _ \<Rightarrow> (Inr (), d) | Inr _ \<Rightarrow> ph e d)"

definition attached_handler ::
  "string \<Rightarrow> (event \<Rightarrow> 'a policy_db_scheme \<Rightarrow> (string + unit) \<times> 'a policy_db_scheme) \<Rightarrow> running \<Rightarrow>
   'a policy_db_scheme handler" where
  "attached_handler p ph r = InTx (if ru_plugin r then work_handler p ph else discard_handler)"

section \<open>Jobs and routes\<close>

fun register_jobs :: "job_env \<Rightarrow> string \<Rightarrow> job_def list \<Rightarrow> queue \<Rightarrow> (job_error + unit) \<times> queue" where
  "register_jobs env p [] q = (Inr (), q)"
| "register_jobs env p (df # dfs) q =
     (case queue_Register env p df q of
        Inl e \<Rightarrow> (Inl e, q)
      | Inr q1 \<Rightarrow> register_jobs env p dfs q1)"

definition mountJobs :: "lib \<Rightarrow> time \<Rightarrow> slot \<Rightarrow> 'a world \<Rightarrow> (job_error + unit) \<times> 'a world" where
  "mountJobs li now s w =
     (case CatchUpSchedules (li_job li) now (sid s) (wd_db w) of
        (Inl e, d) \<Rightarrow> (Inl e, w\<lparr>wd_db := d\<rparr>)
      | (Inr _, d) \<Rightarrow>
          (case register_jobs (li_job li) (sid s) (dl_jobs (sl_decl s)) (wd_queue w) of
             (r, q) \<Rightarrow> (r, w\<lparr>wd_db := d, wd_queue := q\<rparr>)))"

definition buildMux :: "'a plugin_code \<Rightarrow> slot \<Rightarrow> string list option" where
  \<comment> \<open>\<^const>\<open>None\<close> is a panic of \<^verbatim>\<open>Handle\<close>; an error is never returned\<close>
  "buildMux code s =
     (let pats = map rt_pattern (dl_routes (sl_decl s)) in if cd_mux code pats then Some pats else None)"

section \<open>Tear-down\<close>

definition log_call :: "string \<Rightarrow> plugin_call \<Rightarrow> 'a world \<Rightarrow> 'a world" where
  "log_call p c w = w\<lparr>wd_calls := wd_calls w @ [(p, c)]\<rparr>"

definition cancel_gen :: "string \<Rightarrow> nat option \<Rightarrow> 'a world \<Rightarrow> 'a world" where
  "cancel_gen p g w = (case g of None \<Rightarrow> w
     | Some n \<Rightarrow> w\<lparr>wd_gens := filter (\<lambda>x. x \<noteq> (p, n)) (wd_gens w)\<rparr>)"

definition call_shutdown :: "'a plugin_code \<Rightarrow> string \<Rightarrow> 'a world \<Rightarrow> (string + unit) \<times> 'a world" where
  "call_shutdown code p w =
     (case cd_shutdown code (wd_db w) of
        (r, d) \<Rightarrow> (r, log_call p (CallShutdown (case r of Inl _ \<Rightarrow> False | Inr _ \<Rightarrow> True)) (w\<lparr>wd_db := d\<rparr>)))"

definition release_resources :: "lib \<Rightarrow> time \<Rightarrow> slot \<Rightarrow> 'a world \<Rightarrow> slot \<times> 'a world" where
  \<comment> \<open>what \<^verbatim>\<open>teardownLocked\<close> does before it calls \<^verbatim>\<open>Shutdown\<close>\<close>
  "release_resources li now s w =
     (let w1 = cancel_gen (sid s) (sl_gen s) w;
          s1 = s\<lparr>sl_gen := None, sl_host := map_option (\<lambda>c. c\<lparr>pc_listeners := []\<rparr>) (sl_host s)\<rparr>;
          (s2, w2) = detachSubscriptions li now s1 w1
      in (s2\<lparr>sl_mux := None\<rparr>,
          log_call (sid s) CallCloseBrowser (w2\<lparr>wd_queue := UnregisterAll (sid s) (wd_queue w2)\<rparr>)))"

definition attach_discard :: "lib \<Rightarrow> time \<Rightarrow> slot \<Rightarrow> 'a world \<Rightarrow> (host_error + unit) \<times> slot \<times> 'a world" where
  "attach_discard li now s w =
     (case attachSubscriptions li now True s w of
        (Inl e, s1, w1) \<Rightarrow> (Inl (HeEvents e), setHealth RtDegraded KSubscription (Some (HeEvents e)) s1, w1)
      | (Inr _, s1, w1) \<Rightarrow> (Inr (), s1, w1))"

definition teardownLocked ::
  "lib \<Rightarrow> time \<Rightarrow> 'a plugin_code \<Rightarrow> slot \<Rightarrow> 'a world \<Rightarrow> (host_error + unit) \<times> slot \<times> 'a world" where
  "teardownLocked li now code s w =
     (let (s1, w1) = release_resources li now s w in
      if sl_init s1 then
        (let (r, w2) = call_shutdown code (sid s) w1;
             s2 = s1\<lparr>sl_init := False, sl_host := None\<rparr>
         in case r of
              Inl e \<Rightarrow>
                (case attachSubscriptions li now True (setHealth RtDegraded KShutdown (Some (HeCode e)) s2) w2 of
                   (_, s3, w3) \<Rightarrow> (Inl (HeCode e), s3, w3))
            | Inr _ \<Rightarrow> attach_discard li now s2 w2)
      else attach_discard li now s1 w1)"

section \<open>Reconciliation\<close>

datatype rec_result = RecOk | RecErr host_error | RecPanic

definition abort_start ::
  "'a plugin_code \<Rightarrow> nat \<Rightarrow> bool \<Rightarrow> error_kind \<Rightarrow> host_error \<Rightarrow> slot \<Rightarrow> 'a world \<Rightarrow> rec_result \<times> slot \<times> 'a world" where
  \<comment> \<open>the failure branches after the context was made; the flag: \<^verbatim>\<open>Init\<close> had succeeded\<close>
  "abort_start code g inited k e s w =
     (let w1 = cancel_gen (sid s) (Some g) w;
          w2 = (if inited then snd (call_shutdown code (sid s) w1) else w1)
      in (RecErr e, setHealth RtDegraded k (Some e) s, w2))"

definition start_plugin ::
  "lib \<Rightarrow> time \<Rightarrow> 'a plugin_code \<Rightarrow> slot \<Rightarrow> 'a world \<Rightarrow> rec_result \<times> slot \<times> 'a world" where
  \<comment> \<open>\<^verbatim>\<open>reconcileLocked\<close> from the load of the configuration on\<close>
  "start_plugin li now code s w =
     (let cfg = \<lparr>pc_value = fst (loadConfig (dl_manifest (sl_decl s)) (wd_db w)), pc_listeners = []\<rparr>;
          g = wd_next w;
          w1 = w\<lparr>wd_gens := wd_gens w @ [(sid s, g)], wd_next := Suc g\<rparr>
      in case mountJobs li now s w1 of
           (Inl e, w2) \<Rightarrow> abort_start code g False KScheduler (HeJobs e) s w2
         | (Inr _, w2) \<Rightarrow>
             (case cd_init code (wd_db w2) of
                (Inl e, d) \<Rightarrow>
                  abort_start code g False KInit (HeCode e) s (log_call (sid s) (CallInit g False) (w2\<lparr>wd_db := d\<rparr>))
              | (Inr _, d) \<Rightarrow>
                  (let w3 = log_call (sid s) (CallInit g True) (w2\<lparr>wd_db := d\<rparr>) in
                   case buildMux code s of
                     None \<Rightarrow> (RecPanic, s, w3)
                   | Some pats \<Rightarrow>
                       (case attachSubscriptions li now False s w3 of
                          (Inl e, s4, w4) \<Rightarrow> abort_start code g True KSubscription (HeEvents e) s4 w4
                        | (Inr _, s4, w4) \<Rightarrow>
                            (RecOk,
                             setHealth RtEnabled KNone None
                               (s4\<lparr>sl_host := Some cfg, sl_mux := Some pats, sl_gen := Some g, sl_init := True\<rparr>),
                             w4)))))"

definition reconcileLocked ::
  "lib \<Rightarrow> time \<Rightarrow> 'a plugin_code \<Rightarrow> slot \<Rightarrow> 'a world \<Rightarrow> rec_result \<times> slot \<times> 'a world" where
  "reconcileLocked li now code s w =
     (case policy_State now (sid s) (wd_db w) of
        Inl e \<Rightarrow> (RecErr (HePolicy e), setHealth RtDegraded KInit (Some (HePolicy e)) s, w)
      | Inr st \<Rightarrow>
          (let s1 = s\<lparr>sl_desired := vs_enabled st\<rparr> in
           if \<not> vs_enabled st then
             (case teardownLocked li now code s1 w of
                (Inl e, s2, w2) \<Rightarrow> (RecErr e, s2, w2)
              | (Inr _, s2, w2) \<Rightarrow> (RecOk, setHealth RtDisabled KNone None s2, w2))
           else
             (case validatePersistedConfig (li_json li) (dl_manifest (sl_decl s)) (wd_db w) of
                Inl e \<Rightarrow>
                  (case teardownLocked li now code s1 w of
                     (_, s2, w2) \<Rightarrow>
                       (RecErr (HePlugin e), setHealth RtDegraded KConfig (Some (HePlugin e)) s2, w2))
              | Inr _ \<Rightarrow>
                  if sl_init s1 then (RecOk, setHealth RtEnabled KNone None s1, w)
                  else start_plugin li now code s1 w)))"

definition bootstrap ::
  "lib \<Rightarrow> time \<Rightarrow> 'a plugin_code \<Rightarrow> slot \<Rightarrow> 'a world \<Rightarrow> rec_result \<times> slot \<times> 'a world" where
  "bootstrap li now code s w =
     (case Register now (sid s) (mf_automated (dl_manifest (sl_decl s))) (wd_db w) of
        (Inl e, d) \<Rightarrow> (RecErr (HePolicy e), host_fail KInit (HePolicy e) s, w\<lparr>wd_db := d\<rparr>)
      | (Inr _, d) \<Rightarrow>
          (let d1 = ensureConfigRow now (dl_manifest (sl_decl s)) d in
           case cd_migrate code d1 of
             (Inl e, d2) \<Rightarrow>
               (RecErr (HeCode e), host_fail KMigration (HeCode e) s,
                log_call (sid s) (CallMigrate False) (w\<lparr>wd_db := d2\<rparr>))
           | (Inr _, d2) \<Rightarrow>
               reconcileLocked li now code s (log_call (sid s) (CallMigrate True) (w\<lparr>wd_db := d2\<rparr>))))"

section \<open>The registry\<close>

record 'a registry =
  rg_world :: "'a world"
  rg_slots :: "string \<rightharpoonup> slot"
  rg_order :: "string list"
  rg_started :: bool

definition RegisterAll :: "json_lib \<Rightarrow> plugin option list \<Rightarrow> 'a registry \<Rightarrow> (host_error + unit) \<times> 'a registry" where
  "RegisterAll jl ps r =
     (if rg_started r then (Inl (HePlugin ErrAlreadyRegistered), r)
      else if rg_order r \<noteq> [] then (Inl (HePlugin ErrAlreadyRegistered), r)
      else case register_loop jl no_keys ps of
             Inl e \<Rightarrow> (Inl (HePlugin e), r)
           | Inr ds \<Rightarrow>
               (Inr (), r\<lparr>rg_slots := rg_slots r ++ map_of (map (\<lambda>d. (did d, new_slot d)) ds),
                          rg_order := rg_order r @ map did ds\<rparr>))"

definition on_slot ::
  "(slot \<Rightarrow> 'a world \<Rightarrow> 'x \<times> slot \<times> 'a world) \<Rightarrow> string \<Rightarrow> 'a registry \<Rightarrow> 'x option \<times> 'a registry" where
  \<comment> \<open>\<^verbatim>\<open>lookup\<close>, then the operation under the slot's mutex\<close>
  "on_slot f p r =
     (case rg_slots r p of
        None \<Rightarrow> (None, r)
      | Some s \<Rightarrow>
          (case f s (rg_world r) of
             (x, s', w') \<Rightarrow> (Some x, r\<lparr>rg_world := w', rg_slots := (rg_slots r)(p \<mapsto> s')\<rparr>)))"

fun bootstrap_loop :: "lib \<Rightarrow> time \<Rightarrow> (string \<Rightarrow> 'a plugin_code) \<Rightarrow> string list \<Rightarrow> 'a registry \<Rightarrow> 'a registry" where
  \<comment> \<open>errors are logged; the next plugin still starts\<close>
  "bootstrap_loop li now code [] r = r"
| "bootstrap_loop li now code (p # ps) r =
     bootstrap_loop li now code ps (snd (on_slot (bootstrap li now (code p)) p r))"

definition registry_Start :: "lib \<Rightarrow> time \<Rightarrow> (string \<Rightarrow> 'a plugin_code) \<Rightarrow> 'a registry \<Rightarrow> 'a registry" where
  "registry_Start li now code r =
     (if rg_started r then r else bootstrap_loop li now code (rg_order r) (r\<lparr>rg_started := True\<rparr>))"

definition stop_slot ::
  "lib \<Rightarrow> time \<Rightarrow> 'a plugin_code \<Rightarrow> slot \<Rightarrow> 'a world \<Rightarrow> unit \<times> slot \<times> 'a world" where
  "stop_slot li now code s w =
     (if sl_init s then ((), snd (teardownLocked li now code s w)) else ((), s, w))"

fun stop_loop :: "lib \<Rightarrow> time \<Rightarrow> (string \<Rightarrow> 'a plugin_code) \<Rightarrow> string list \<Rightarrow> 'a registry \<Rightarrow> 'a registry" where
  "stop_loop li now code [] r = r"
| "stop_loop li now code (p # ps) r =
     stop_loop li now code ps (snd (on_slot (stop_slot li now (code p)) p r))"

definition registry_Stop :: "lib \<Rightarrow> time \<Rightarrow> (string \<Rightarrow> 'a plugin_code) \<Rightarrow> 'a registry \<Rightarrow> 'a registry" where
  "registry_Stop li now code r = stop_loop li now code (rg_order r) r"

definition set_db :: "'a host_db_scheme \<Rightarrow> 'a registry \<Rightarrow> 'a registry" where
  "set_db d r = r\<lparr>rg_world := (rg_world r)\<lparr>wd_db := d\<rparr>\<rparr>"

definition after_reconcile :: "rec_result option \<Rightarrow> (host_error + unit) option" where
  \<comment> \<open>\<^const>\<open>None\<close> is a panic\<close>
  "after_reconcile x = (case x of
     Some (RecErr e) \<Rightarrow> Some (Inl (HePlugin ErrIncomplete))
   | Some RecPanic \<Rightarrow> None
   | _ \<Rightarrow> Some (Inr ()))"

definition registry_Enable ::
  "lib \<Rightarrow> time \<Rightarrow> 'a plugin_code \<Rightarrow> string \<Rightarrow> string \<Rightarrow> string \<Rightarrow> 'a registry \<Rightarrow>
   (host_error + unit) option \<times> 'a registry" where
  "registry_Enable li now code p actor reason r =
     (if rg_slots r p = None then (Some (Inl (HePlugin ErrUnknownPluginID)), r)
      else case Enable now p actor reason (wd_db (rg_world r)) of
             (Inl e, d) \<Rightarrow> (Some (Inl (HePolicy e)), set_db d r)
           | (Inr _, d) \<Rightarrow>
               (case on_slot (reconcileLocked li now code) p (set_db d r) of
                  (x, r') \<Rightarrow> (after_reconcile x, r')))"

definition registry_Disable ::
  "lib \<Rightarrow> time \<Rightarrow> 'a plugin_code \<Rightarrow> string \<Rightarrow> string \<Rightarrow> string \<Rightarrow> 'a registry \<Rightarrow>
   (host_error + unit) option \<times> 'a registry" where
  "registry_Disable li now code p actor reason r =
     (if rg_slots r p = None then (Some (Inl (HePlugin ErrUnknownPluginID)), r)
      else case Disable now p actor reason (wd_db (rg_world r)) of
             (Inl e, d) \<Rightarrow> (Some (Inl (HePolicy e)), set_db d r)
           | (Inr _, d) \<Rightarrow>
               (case on_slot (reconcileLocked li now code) p (set_db d r) of
                  (x, r') \<Rightarrow> (after_reconcile x, r')))"

definition notifyConfig :: "string \<Rightarrow> slot \<Rightarrow> (nat \<times> nat \<times> string) list \<times> slot" where
  \<comment> \<open>the listeners that are called, with the context and the document they get\<close>
  "notifyConfig doc s =
     (case (sl_host s, sl_gen s) of
        (Some c, Some g) \<Rightarrow>
          if \<not> sl_init s then ([], s)
          else (map (\<lambda>fn. (fn, g, doc)) (List.map_filter (\<lambda>x. x) (pc_listeners c)),
                s\<lparr>sl_host := Some (c\<lparr>pc_value := doc\<rparr>)\<rparr>)
      | _ \<Rightarrow> ([], s))"

definition UpdateConfig ::
  "lib \<Rightarrow> time \<Rightarrow> bool \<Rightarrow> string \<Rightarrow> string \<Rightarrow> string \<Rightarrow> 'a registry \<Rightarrow>
   (host_error + (nat \<times> nat \<times> string) list) \<times> 'a registry" where
  "UpdateConfig li now refs p doc actor r =
     (case rg_slots r p of
        None \<Rightarrow> (Inl (HePlugin ErrUnknownPluginID), r)
      | Some s \<Rightarrow>
          (case update_config_tx now (li_json li) refs (dl_manifest (sl_decl s)) doc actor (wd_db (rg_world r)) of
             (Inl e, d) \<Rightarrow> (Inl e, set_db d r)
           | (Inr _, d) \<Rightarrow>
               (case notifyConfig doc s of
                  (fns, s') \<Rightarrow> (Inr fns, (set_db d r)\<lparr>rg_slots := (rg_slots r)(p \<mapsto> s')\<rparr>))))"

definition GetConfig :: "string \<Rightarrow> 'a registry \<Rightarrow> host_error + string" where
  "GetConfig p r =
     (case rg_slots r p of
        None \<Rightarrow> Inl (HePlugin ErrUnknownPluginID)
      | Some s \<Rightarrow> Inr (fst (loadConfig (dl_manifest (sl_decl s)) (wd_db (rg_world r)))))"

section \<open>Requests\<close>

definition plugin_mount :: string where "plugin_mount = ''/api/plugins/''"

definition splitPluginPath :: "string \<Rightarrow> (string \<times> string) option" where
  "splitPluginPath path =
     (if \<not> has_prefix path plugin_mount then None
      else
        (let rest = trim_prefix path plugin_mount in
         if rest = [] then None
         else
           (let (p, remainder) = (case cut CHR ''/'' rest of None \<Rightarrow> (rest, []) | Some x \<Rightarrow> x) in
            if p = [] \<or> \<not> host_validPluginID p then None
            else Some (p, if remainder = [] then ''/'' else ''/'' @ remainder))))"

datatype http_reply = ReplyNotFound | ReplyUnavailable
  | Dispatched string string "nat option" \<comment> \<open>plugin, path for its mux, context\<close>

definition ServeHTTP :: "string \<Rightarrow> 'a registry \<Rightarrow> http_reply" where
  "ServeHTTP path r =
     (case splitPluginPath path of
        None \<Rightarrow> ReplyNotFound
      | Some (p, rel) \<Rightarrow>
          (case rg_slots r p of
             None \<Rightarrow> ReplyNotFound
           | Some s \<Rightarrow>
               if sl_mux s = None \<or> sl_runtime s \<noteq> RtEnabled then ReplyUnavailable
               else Dispatched p rel (sl_gen s)))"

end
