(* ===== verification/Plugin_Laws.thy ===== *)
theory Plugin_Laws
  imports Plugin_Lifecycle
begin

text \<open>
  Laws of the plugin life cycle. What the process holds for one plugin (its durable subscribers, contexts,
  job definitions, and the calls made to it) is its view of the world. An operation on a plugin acts on that plugin's
  view only (\<open>acts_on\<close>), and keeps the invariant \<open>slot_ok\<close> that ties the slot to the view.
\<close>

section \<open>Views\<close>

definition sub_of :: "string \<Rightarrow> running \<Rightarrow> bool" where
  "sub_of p r \<longleftrightarrow> has_prefix (ds_name (ru_sub r)) (durableName p [])"

definition subs_of :: "string \<Rightarrow> 'a world \<Rightarrow> running list" where
  "subs_of p w = filter (sub_of p) (wd_subs w)"

definition gens_of :: "string \<Rightarrow> 'a world \<Rightarrow> nat list" where
  "gens_of p w = map snd (filter (\<lambda>x. fst x = p) (wd_gens w))"

definition calls_of :: "string \<Rightarrow> 'a world \<Rightarrow> plugin_call list" where
  "calls_of p w = map snd (filter (\<lambda>x. fst x = p) (wd_calls w))"

definition jobs_of :: "string \<Rightarrow> 'a world \<Rightarrow> string \<Rightarrow> job_def option" where
  "jobs_of p w n = lookupDef p n (wd_queue w)"

definition names_of :: "string \<Rightarrow> 'a world \<Rightarrow> string list" where
  "names_of p w = map (\<lambda>r. ds_name (ru_sub r)) (subs_of p w)"

lemmas view_defs = subs_of_def gens_of_def calls_of_def jobs_of_def

definition same_view :: "string \<Rightarrow> 'a world \<Rightarrow> 'a world \<Rightarrow> bool" where
  "same_view q w w' \<longleftrightarrow> subs_of q w' = subs_of q w \<and> gens_of q w' = gens_of q w \<and>
     calls_of q w' = calls_of q w \<and> jobs_of q w' = jobs_of q w"

definition acts_on :: "string \<Rightarrow> 'a world \<Rightarrow> 'a world \<Rightarrow> bool" where
  "acts_on p w w' \<longleftrightarrow> (\<forall>q. host_validPluginID q \<longrightarrow> q \<noteq> p \<longrightarrow> same_view q w w')"

lemma acts_on_refl [simp]: "acts_on p w w"
  by (simp add: acts_on_def same_view_def)

lemma acts_on_trans [trans]: "acts_on p w w' \<Longrightarrow> acts_on p w' w'' \<Longrightarrow> acts_on p w w''"
  by (simp add: acts_on_def same_view_def)

lemma view_db [simp]:
  "subs_of p (w\<lparr>wd_db := d\<rparr>) = subs_of p w" "gens_of p (w\<lparr>wd_db := d\<rparr>) = gens_of p w"
  "calls_of p (w\<lparr>wd_db := d\<rparr>) = calls_of p w" "jobs_of p (w\<lparr>wd_db := d\<rparr>) = jobs_of p w"
  by (simp_all add: fun_eq_iff view_defs)

lemma acts_on_db [simp]:
  "acts_on p w (w'\<lparr>wd_db := d\<rparr>) = acts_on p w w'" "acts_on p (w\<lparr>wd_db := d\<rparr>) w' = acts_on p w w'"
  by (simp_all add: acts_on_def same_view_def)

lemma id_plain: "host_validPluginID p \<Longrightarrow> CHR '':'' \<notin> set p \<and> CHR 0x00 \<notin> set p"
  using host_id_name host_segment segment_no_char seg_char_plain by blast

lemma durable_prefix:
  assumes "host_validPluginID p" "host_validPluginID q"
  shows "has_prefix (durableName q n) (durableName p []) \<longleftrightarrow> q = p"
proof
  note z = id_plain[OF assms(1)] id_plain[OF assms(2)]
  assume "has_prefix (durableName q n) (durableName p [])"
  then obtain r where "durableName q n = durableName p [] @ r"
    by (metis append_take_drop_id has_prefix_def)
  then have "cut CHR '':'' (q @ CHR '':'' # n) = cut CHR '':'' (p @ CHR '':'' # r)" by (simp add: durableName_def)
  then show "q = p" using z by (simp add: cut_fresh)
qed (simp add: has_prefix_def durableName_def)

lemma prefix_exclusive:
  assumes "host_validPluginID p" "host_validPluginID q" "q \<noteq> p" "has_prefix n (durableName p [])"
  shows "\<not> has_prefix n (durableName q [])"
proof -
  obtain r where "n = durableName p r"
    using assms(4) by (metis append_take_drop_id has_prefix_def durableName_def append.assoc append_Nil2)
  then show ?thesis using durable_prefix assms by simp
qed

section \<open>Primitive actions\<close>

lemma log_call_view [simp]:
  "subs_of q (log_call p c w) = subs_of q w" "gens_of q (log_call p c w) = gens_of q w"
  "jobs_of q (log_call p c w) = jobs_of q w" "names_of q (log_call p c w) = names_of q w"
  "calls_of q (log_call p c w) = calls_of q w @ (if q = p then [c] else [])"
  by (simp_all add: fun_eq_iff view_defs names_of_def log_call_def)

lemma log_call_acts [simp]: "acts_on p w (log_call p c w') = acts_on p w w'"
  by (simp add: acts_on_def same_view_def)

lemma cancel_gen_view [simp]:
  "subs_of q (cancel_gen p g w) = subs_of q w" "calls_of q (cancel_gen p g w) = calls_of q w"
  "jobs_of q (cancel_gen p g w) = jobs_of q w" "names_of q (cancel_gen p g w) = names_of q w"
  by (simp_all add: fun_eq_iff view_defs names_of_def cancel_gen_def split: option.split)

lemma cancel_gen_gens:
  "gens_of q (cancel_gen p g w) = (if q = p then filter (\<lambda>n. Some n \<noteq> g) (gens_of q w) else gens_of q w)"
proof (cases g)
  case (Some n)
  have "map snd (filter (\<lambda>x. fst x = q) (filter (\<lambda>x. x \<noteq> (p, n)) xs)) =
      (if q = p then filter (\<lambda>m. m \<noteq> n) (map snd (filter (\<lambda>x. fst x = q) xs))
       else map snd (filter (\<lambda>x. fst x = q) xs))" for xs :: "(string \<times> nat) list"
    by (induction xs) auto
  then show ?thesis using Some by (simp add: gens_of_def cancel_gen_def)
qed (simp add: cancel_gen_def)

lemma cancel_gen_acts [simp]: "acts_on p w (cancel_gen p g w)"
  by (simp add: acts_on_def same_view_def cancel_gen_gens)

lemma unregister_jobs:
  assumes "host_validPluginID p" "host_validPluginID q"
  shows "jobs_of q (w\<lparr>wd_queue := UnregisterAll p (wd_queue w)\<rparr>) = (if q = p then (\<lambda>n. None) else jobs_of q w)"
  using def_key_prefix[of p q] host_id_name assms
  by (auto simp: fun_eq_iff jobs_of_def lookupDef_def UnregisterAll_def)

lemma queue_view [simp]:
  "subs_of q (w\<lparr>wd_queue := u\<rparr>) = subs_of q w" "gens_of q (w\<lparr>wd_queue := u\<rparr>) = gens_of q w"
  "calls_of q (w\<lparr>wd_queue := u\<rparr>) = calls_of q w" "names_of q (w\<lparr>wd_queue := u\<rparr>) = names_of q w"
  by (simp_all add: view_defs names_of_def)

lemma fold_close:
  "fold (close_sub li now) ns w =
     w\<lparr>wd_subs := filter (\<lambda>r. ds_name (ru_sub r) \<notin> set ns) (wd_subs w),
       wd_db := fold (releaseLease (li_owner li) now) ns (wd_db w)\<rparr>"
  by (induction ns arbitrary: w)
     (simp_all add: close_sub_def sub_named_def filter_filter conj_commute)

lemma detach_view:
  assumes "host_validPluginID p" "names_of p w = sl_durable s" "detachSubscriptions li now s w = (s', w')"
  shows "s' = s\<lparr>sl_live := [], sl_durable := []\<rparr>" "subs_of p w' = []" "gens_of q w' = gens_of q w"
    "calls_of q w' = calls_of q w" "jobs_of q w' = jobs_of q w" "acts_on p w w'" "wd_next w' = wd_next w"
    "wd_gens w' = wd_gens w"
proof -
  have w': "w' = fold (close_sub li now) (sl_durable s) w" and s': "s' = s\<lparr>sl_live := [], sl_durable := []\<rparr>"
    using assms(3) by (simp_all add: detachSubscriptions_def)
  show "s' = s\<lparr>sl_live := [], sl_durable := []\<rparr>" by (rule s')
  have subs: "wd_subs w' = filter (\<lambda>r. ds_name (ru_sub r) \<notin> set (names_of p w)) (wd_subs w)"
    by (simp add: w' fold_close assms(2))
  have own: "has_prefix n (durableName p [])" if "n \<in> set (names_of p w)" for n
    using that by (auto simp: names_of_def subs_of_def sub_of_def)
  show "subs_of p w' = []"
    unfolding subs_of_def subs by (auto simp: filter_empty_conv names_of_def subs_of_def)
  have other: "subs_of q w' = subs_of q w" if "host_validPluginID q" "q \<noteq> p" for q
  proof -
    have "ds_name (ru_sub r) \<notin> set (names_of p w)" if "sub_of q r" for r
      using prefix_exclusive[OF assms(1) \<open>host_validPluginID q\<close> \<open>q \<noteq> p\<close>] own that by (auto simp: sub_of_def)
    then show ?thesis unfolding subs_of_def subs by (auto intro: filter_cong simp: filter_filter)
  qed
  show g: "gens_of q w' = gens_of q w" "calls_of q w' = calls_of q w" "jobs_of q w' = jobs_of q w" for q
    by (simp_all add: fun_eq_iff view_defs w' fold_close)
  show "acts_on p w w'" using other g by (simp add: acts_on_def same_view_def)
  show "wd_next w' = wd_next w" "wd_gens w' = wd_gens w" by (simp_all add: w' fold_close)
qed

lemma subscribe_name: "subscribeDurable now run cfg d = (Inr ds, d') \<Longrightarrow> ds_name ds = dc_name cfg"
  by (auto simp: subscribeDurable_def Let_def split: if_splits sum.splits prod.splits)

definition live_patterns :: "subscription_decl list \<Rightarrow> string list" where
  "live_patterns subs = map sb_pattern (filter (\<lambda>s. sb_durable s = None) subs)"

lemma live_patterns_simps [simp]:
  "live_patterns [] = []"
  "live_patterns (s # ss) = (if sb_durable s = None then [sb_pattern s] else []) @ live_patterns ss"
  by (simp_all add: live_patterns_def)

lemma durable_names_simps [simp]:
  "durable_names p [] = []"
  "durable_names p (s # ss) = (case sb_durable s of None \<Rightarrow> [] | Some (n, h) \<Rightarrow> [durableName p n]) @ durable_names p ss"
  by (simp_all add: durable_names_def)

lemma attach_view:
  "host_validPluginID p \<Longrightarrow> attach_loop now p discard subs s w = (res, s', w') \<Longrightarrow>
    (\<exists>new. subs_of p w' = subs_of p w @ new \<and> list_all (\<lambda>r. ru_plugin r = (\<not> discard)) new \<and>
       sl_durable s' = sl_durable s @ map (\<lambda>r. ds_name (ru_sub r)) new) \<and>
    s' = s\<lparr>sl_live := sl_live s', sl_durable := sl_durable s'\<rparr> \<and> (discard \<longrightarrow> sl_live s' = sl_live s) \<and>
    (res = Inr () \<longrightarrow> sl_durable s' = sl_durable s @ durable_names p subs \<and>
       sl_live s' = sl_live s @ (if discard then [] else live_patterns subs)) \<and>
    gens_of p w' = gens_of p w \<and> calls_of p w' = calls_of p w \<and> jobs_of p w' = jobs_of p w \<and>
    acts_on p w w' \<and> wd_next w' = wd_next w \<and> wd_gens w' = wd_gens w"
proof (induction now p discard subs s w rule: attach_loop.induct)
  case (1 now p discard s w)
  then show ?case by auto
next
  case (2 now p discard sub subs s w)
  show ?case
  proof (cases "sb_durable sub")
    case None
    show ?thesis
    proof (cases discard)
      case True
      then show ?thesis using "2.IH"(1)[OF None True "2.prems"(1)] "2.prems" None True by (cases s; cases s') simp
    next
      case False
      show ?thesis
      proof (cases "CompilePattern (sb_pattern sub)")
        case (Inl e)
        then show ?thesis using "2.prems" None False by auto
      next
        case (Inr c)
        then show ?thesis using "2.IH"(2)[OF None False Inr "2.prems"(1)] "2.prems" None False by simp
      qed
    qed
  next
    case (Some nh)
    obtain n h where nh: "nh = (n, h)" by (cases nh)
    let ?run = "map (\<lambda>r. ds_name (ru_sub r)) (wd_subs w)"
    let ?cfg = "durable_cfg p n (sb_pattern sub)"
    obtain r d where rd: "subscribeDurable now ?run ?cfg (wd_db w) = (r, d)"
      by (cases "subscribeDurable now ?run ?cfg (wd_db w)")
    show ?thesis
    proof (cases r)
      case (Inl e)
      then show ?thesis using "2.prems" Some nh rd by auto
    next
      case (Inr ds)
      have nm: "ds_name ds = durableName p n"
        using rd subscribe_name[of now ?run ?cfg "wd_db w" ds d] Inr by (simp add: durable_cfg_def)
      let ?s1 = "s\<lparr>sl_durable := sl_durable s @ [ds_name ds]\<rparr>"
      let ?new = "\<lparr>ru_sub = ds, ru_plugin = \<not> discard\<rparr>"
      let ?w1 = "w\<lparr>wd_db := d, wd_subs := wd_subs w @ [?new]\<rparr>"
      have rest: "attach_loop now p discard subs ?s1 ?w1 = (res, s', w')"
        using "2.prems"(2) Some nh rd Inr by simp
      note ih = "2.IH"(3)[OF Some nh[symmetric] rd[symmetric] Inr "2.prems"(1) rest]
      have "sub_of q ?new \<longleftrightarrow> q = p" if "host_validPluginID q" for q
        using durable_prefix[OF that "2.prems"(1)] nm by (auto simp: sub_of_def)
      then have v: "subs_of q ?w1 = subs_of q w @ (if q = p then [?new] else [])" if "host_validPluginID q" for q
        using that by (simp add: subs_of_def)
      have g: "gens_of q ?w1 = gens_of q w" "calls_of q ?w1 = calls_of q w" "jobs_of q ?w1 = jobs_of q w" for q
        by (simp_all add: fun_eq_iff view_defs)
      have "acts_on p w ?w1" using v g by (simp add: acts_on_def same_view_def)
      then have "acts_on p w w'" using ih acts_on_trans by blast
      then show ?thesis using ih v[OF "2.prems"(1)] g nm Some nh by (cases s; cases s') auto
    qed
  qed
qed

lemma attach_subs_view:
  assumes "host_validPluginID p" "sid s = p" "names_of p w = sl_durable s"
    "attachSubscriptions li now discard s w = (res, s', w')"
  shows "list_all (\<lambda>r. ru_plugin r = (\<not> discard)) (subs_of p w')" "names_of p w' = sl_durable s'"
    "s' = s\<lparr>sl_live := sl_live s', sl_durable := sl_durable s'\<rparr>" "discard \<Longrightarrow> sl_live s' = []"
    "gens_of p w' = gens_of p w" "calls_of p w' = calls_of p w" "jobs_of p w' = jobs_of p w"
    "acts_on p w w'" "wd_next w' = wd_next w" "wd_gens w' = wd_gens w"
    "res = Inr () \<Longrightarrow> sl_durable s' = durable_names p (dl_subs (sl_decl s)) \<and>
       sl_live s' = (if discard then [] else live_patterns (dl_subs (sl_decl s)))"
proof -
  obtain s1 w1 where d: "detachSubscriptions li now s w = (s1, w1)" by (cases "detachSubscriptions li now s w")
  note dv = detach_view[OF assms(1, 3) d]
  have a: "attach_loop now p discard (dl_subs (sl_decl s)) s1 w1 = (res, s', w')"
    using assms(2, 4) d by (simp add: attachSubscriptions_def)
  note av = attach_view[OF assms(1) a]
  obtain new where n: "subs_of p w' = new" "list_all (\<lambda>r. ru_plugin r = (\<not> discard)) new"
    "sl_durable s' = map (\<lambda>r. ds_name (ru_sub r)) new"
    using av dv(1, 2) by auto
  show "list_all (\<lambda>r. ru_plugin r = (\<not> discard)) (subs_of p w')" "names_of p w' = sl_durable s'"
    using n by (simp_all add: names_of_def)
  show "s' = s\<lparr>sl_live := sl_live s', sl_durable := sl_durable s'\<rparr>" "discard \<Longrightarrow> sl_live s' = []"
    using av dv(1) by simp_all
  show "gens_of p w' = gens_of p w" "calls_of p w' = calls_of p w" "jobs_of p w' = jobs_of p w"
    "acts_on p w w'" "wd_next w' = wd_next w" "wd_gens w' = wd_gens w"
    using av dv acts_on_trans by auto
  show "res = Inr () \<Longrightarrow> sl_durable s' = durable_names p (dl_subs (sl_decl s)) \<and>
       sl_live s' = (if discard then [] else live_patterns (dl_subs (sl_decl s)))"
    using av dv(1) by simp
qed

lemma def_defaults_name [simp]: "df_name (def_defaults df) = df_name df"
  by (simp add: def_defaults_def Let_def)

lemma queue_Register_ok:
  "queue_Register env p df u = Inr u' \<Longrightarrow>
   u' = u\<lparr>qu_defs := (qu_defs u)(defKey p (df_name df) \<mapsto> def_defaults df)\<rparr>"
  by (auto simp: queue_Register_def Let_def split: if_splits)

lemma def_keys_differ:
  assumes "host_validPluginID p" "host_validPluginID q" "q \<noteq> p"
  shows "defKey q n \<noteq> defKey p m"
proof
  assume "defKey q n = defKey p m"
  then have "cut (CHR 0x00) (q @ CHR 0x00 # n) = cut (CHR 0x00) (p @ CHR 0x00 # m)" by (simp add: defKey_def)
  then show False using id_plain[OF assms(1)] id_plain[OF assms(2)] assms(3) by (simp add: cut_fresh)
qed

lemma register_jobs_other:
  "register_jobs env p dfs u = (r, u') \<Longrightarrow> host_validPluginID p \<Longrightarrow> host_validPluginID q \<Longrightarrow> q \<noteq> p \<Longrightarrow>
   lookupDef q n u' = lookupDef q n u"
proof (induction env p dfs u arbitrary: r rule: register_jobs.induct)
  case (2 env p df dfs u)
  show ?case
  proof (cases "queue_Register env p df u")
    case (Inl e)
    then show ?thesis using 2 by simp
  next
    case (Inr u1)
    have "lookupDef q n u1 = lookupDef q n u"
      using queue_Register_ok[OF Inr] def_keys_differ "2.prems" by (simp add: lookupDef_def)
    then show ?thesis using 2 Inr by simp
  qed
qed simp

definition declares :: "job_def list \<Rightarrow> string \<Rightarrow> job_def \<Rightarrow> bool" where
  "declares dfs n d \<longleftrightarrow> (\<exists>j \<in> set dfs. df_name j = n \<and> d = def_defaults j)"

lemma lookup_registered:
  "queue_Register env p df u = Inr u' \<Longrightarrow>
   lookupDef p n u' = (if n = df_name df then Some (def_defaults df) else lookupDef p n u)"
  by (drule queue_Register_ok) (simp add: lookupDef_def defKey_def)

lemma register_jobs_own:
  "register_jobs env p dfs u = (r, u') \<Longrightarrow>
   (\<forall>n d. lookupDef p n u' = Some d \<longrightarrow> lookupDef p n u = Some d \<or> declares dfs n d) \<and>
   (\<forall>n. lookupDef p n u \<noteq> None \<longrightarrow> lookupDef p n u' \<noteq> None) \<and>
   (r = Inr () \<longrightarrow> (\<forall>j \<in> set dfs. lookupDef p (df_name j) u' \<noteq> None))"
proof (induction env p dfs u arbitrary: r rule: register_jobs.induct)
  case (2 env p df dfs u)
  show ?case
  proof (cases "queue_Register env p df u")
    case (Inl e)
    then show ?thesis using 2 by auto
  next
    case (Inr u1)
    have "register_jobs env p dfs u1 = (r, u')" using 2 Inr by simp
    note ih = "2.IH"[OF Inr this]
    show ?thesis using ih lookup_registered[OF Inr] by (auto simp: declares_def split: if_splits)
  qed
qed (auto simp: declares_def)

lemma mountJobs_view:
  assumes "host_validPluginID p" "sid s = p" "mountJobs li now s w = (r, w')"
  shows "subs_of p w' = subs_of p w" "gens_of p w' = gens_of p w" "calls_of p w' = calls_of p w"
    "acts_on p w w'" "wd_next w' = wd_next w" "wd_gens w' = wd_gens w"
    "jobs_of p w' n = Some df \<Longrightarrow> jobs_of p w n = Some df \<or> declares (dl_jobs (sl_decl s)) n df"
    "r = Inr () \<Longrightarrow> j \<in> set (dl_jobs (sl_decl s)) \<Longrightarrow> jobs_of p w' (df_name j) \<noteq> None"
proof -
  have "w' = w\<lparr>wd_db := wd_db w', wd_queue := wd_queue w'\<rparr>" and
    u: "wd_queue w' = wd_queue w \<or>
      (\<exists>r. register_jobs (li_job li) p (dl_jobs (sl_decl s)) (wd_queue w) = (r, wd_queue w'))" and
    o: "r = Inr () \<Longrightarrow> register_jobs (li_job li) p (dl_jobs (sl_decl s)) (wd_queue w) = (Inr (), wd_queue w')"
    using assms(2, 3) by (auto simp: mountJobs_def split: prod.splits sum.splits)
  then obtain d v where w': "w' = w\<lparr>wd_db := d, wd_queue := v\<rparr>" by blast
  have v: "subs_of q w' = subs_of q w" "gens_of q w' = gens_of q w" "calls_of q w' = calls_of q w"
    "wd_next w' = wd_next w" "wd_gens w' = wd_gens w" for q by (simp_all add: w')
  then show "subs_of p w' = subs_of p w" "gens_of p w' = gens_of p w" "calls_of p w' = calls_of p w"
    "wd_next w' = wd_next w" "wd_gens w' = wd_gens w" by blast+
  have "jobs_of q w' = jobs_of q w" if "host_validPluginID q" "q \<noteq> p" for q
    using u register_jobs_other[OF _ assms(1) that] by (auto simp: fun_eq_iff jobs_of_def)
  then show "acts_on p w w'" using v by (simp add: acts_on_def same_view_def)
  show "jobs_of p w' n = Some df \<Longrightarrow> jobs_of p w n = Some df \<or> declares (dl_jobs (sl_decl s)) n df"
    using u by (auto simp: jobs_of_def dest!: register_jobs_own)
  show "r = Inr () \<Longrightarrow> j \<in> set (dl_jobs (sl_decl s)) \<Longrightarrow> jobs_of p w' (df_name j) \<noteq> None"
    by (frule o) (auto simp: jobs_of_def dest!: register_jobs_own)
qed

section \<open>The invariant of a slot\<close>

text \<open>The order of calls that plugin code may rely on: \<^verbatim>\<open>Init\<close> only while down, \<^verbatim>\<open>Shutdown\<close> only while up.\<close>

fun phase :: "bool \<Rightarrow> plugin_call list \<Rightarrow> bool option" where
  "phase up [] = Some up"
| "phase up (CallInit g ok # cs) = (if up then None else phase ok cs)"
| "phase up (CallShutdown ok # cs) = (if up then phase False cs else None)"
| "phase up (CallMigrate ok # cs) = phase up cs"
| "phase up (CallCloseBrowser # cs) = phase up cs"

lemma phase_append: "phase up (xs @ ys) = Option.bind (phase up xs) (\<lambda>u. phase u ys)"
  by (induction up xs rule: phase.induct) simp_all

definition quiet :: "string \<Rightarrow> slot \<Rightarrow> 'a world \<Rightarrow> bool" where
  \<comment> \<open>no code of the plugin is reachable from events or jobs\<close>
  "quiet p s w \<longleftrightarrow> list_all (\<lambda>r. \<not> ru_plugin r) (subs_of p w) \<and> sl_live s = [] \<and> jobs_of p w = (\<lambda>n. None)"

definition slot_base :: "string \<Rightarrow> slot \<Rightarrow> 'a world \<Rightarrow> bool" where
  "slot_base p s w \<longleftrightarrow> sid s = p \<and> host_validPluginID p \<and> names_of p w = sl_durable s"

definition mounted :: "string \<Rightarrow> slot \<Rightarrow> 'a world \<Rightarrow> bool" where
  \<comment> \<open>everything the plugin declares is attached to its own code\<close>
  "mounted p s w \<longleftrightarrow> list_all ru_plugin (subs_of p w) \<and> sl_durable s = durable_names p (dl_subs (sl_decl s)) \<and>
     sl_live s = live_patterns (dl_subs (sl_decl s)) \<and>
     (\<forall>j \<in> set (dl_jobs (sl_decl s)). jobs_of p w (df_name j) \<noteq> None)"

definition jobs_declared :: "string \<Rightarrow> slot \<Rightarrow> 'a world \<Rightarrow> bool" where
  "jobs_declared p s w \<longleftrightarrow> (\<forall>n d. jobs_of p w n = Some d \<longrightarrow> declares (dl_jobs (sl_decl s)) n d)"

definition slot_ok :: "string \<Rightarrow> slot \<Rightarrow> 'a world \<Rightarrow> bool" where
  "slot_ok p s w \<longleftrightarrow> slot_base p s w \<and>
     gens_of p w = (case sl_gen s of None \<Rightarrow> [] | Some g \<Rightarrow> [g]) \<and>
     (sl_init s \<longleftrightarrow> sl_gen s \<noteq> None) \<and> (sl_init s \<longleftrightarrow> sl_host s \<noteq> None) \<and>
     sl_mux s = (if sl_init s then Some (map rt_pattern (dl_routes (sl_decl s))) else None) \<and>
     (sl_init s \<or> sl_runtime s = RtDegraded \<or> quiet p s w) \<and>
     (sl_init s \<longrightarrow> mounted p s w) \<and> jobs_declared p s w \<and>
     phase False (calls_of p w) = Some (sl_init s)"

definition released :: "string \<Rightarrow> slot \<Rightarrow> 'a world \<Rightarrow> bool" where
  "released p s w \<longleftrightarrow> slot_base p s w \<and> gens_of p w = [] \<and> sl_gen s = None \<and> sl_mux s = None \<and> quiet p s w"

lemma sid_update [simp]:
  "sid (s\<lparr>sl_desired := b\<rparr>) = sid s" "sid (s\<lparr>sl_init := b\<rparr>) = sid s" "sid (s\<lparr>sl_host := h\<rparr>) = sid s"
  "sid (s\<lparr>sl_mux := m\<rparr>) = sid s" "sid (s\<lparr>sl_live := l\<rparr>) = sid s" "sid (s\<lparr>sl_durable := l\<rparr>) = sid s"
  "sid (s\<lparr>sl_gen := g\<rparr>) = sid s" "sid (setHealth rt k e s) = sid s" "sid (host_fail k e' s) = sid s"
  by (simp_all add: sid_def setHealth_def host_fail_def)

lemma health_fields [simp]:
  "sl_decl (setHealth rt k e s) = sl_decl s" "sl_init (setHealth rt k e s) = sl_init s"
  "sl_host (setHealth rt k e s) = sl_host s" "sl_mux (setHealth rt k e s) = sl_mux s"
  "sl_live (setHealth rt k e s) = sl_live s" "sl_durable (setHealth rt k e s) = sl_durable s"
  "sl_gen (setHealth rt k e s) = sl_gen s" "sl_runtime (setHealth rt k e s) = rt"
  "sl_desired (setHealth rt k e s) = sl_desired s" "sl_kind (setHealth rt k e s) = k"
  "sl_error (setHealth rt k e s) = e"
  by (simp_all add: setHealth_def)

lemma fail_is_health: "host_fail k e s = setHealth RtDegraded k (Some e) s"
  by (simp add: host_fail_def setHealth_def)

lemma quiet_health [simp]: "quiet p (setHealth rt k e s) w = quiet p s w"
  by (simp add: quiet_def)

lemma mounted_health [simp]: "mounted p (setHealth rt k e s) w = mounted p s w"
  "jobs_declared p (setHealth rt k e s) w = jobs_declared p s w"
  by (simp_all add: mounted_def jobs_declared_def)

lemma quiet_declared: "quiet p s w \<Longrightarrow> jobs_declared p s w"
  by (simp add: quiet_def jobs_declared_def)

lemma released_health [simp]: "released p (setHealth rt k e s) w = released p s w"
  by (simp add: released_def slot_base_def)

lemma names_db [simp]: "names_of p (w\<lparr>wd_db := d\<rparr>) = names_of p w"
  by (simp add: names_of_def)

lemma slot_ok_health: "slot_ok p s w \<Longrightarrow> slot_ok p (setHealth RtDegraded k e s) w"
  by (auto simp: slot_ok_def slot_base_def)

lemma slot_ok_view:
  assumes "slot_ok p s w" "same_view p w w'"
  shows "slot_ok p s w'"
proof -
  from assms(2) have v: "subs_of p w' = subs_of p w" "gens_of p w' = gens_of p w"
    "calls_of p w' = calls_of p w" "jobs_of p w' = jobs_of p w" by (simp_all add: same_view_def)
  from assms(1) show ?thesis
    unfolding slot_ok_def slot_base_def quiet_def mounted_def jobs_declared_def names_of_def v .
qed

lemma released_ok:
  "released p s w \<Longrightarrow> \<not> sl_init s \<Longrightarrow> sl_host s = None \<Longrightarrow> phase False (calls_of p w) = Some False \<Longrightarrow> slot_ok p s w"
  by (simp add: slot_ok_def released_def quiet_declared)

section \<open>Tear-down\<close>

lemma release_resources_ok:
  assumes "slot_ok p s w" "release_resources li now s w = (s', w')"
  shows "released p s' w'" "acts_on p w w'" "calls_of p w' = calls_of p w @ [CallCloseBrowser]"
    "sl_init s' = sl_init s" "sl_host s' = map_option (\<lambda>c. c\<lparr>pc_listeners := []\<rparr>) (sl_host s)"
    "sl_decl s' = sl_decl s" "sl_runtime s' = sl_runtime s" "sl_desired s' = sl_desired s"
proof -
  have b: "sid s = p" "host_validPluginID p" "names_of p w = sl_durable s"
    using assms(1) by (simp_all add: slot_ok_def slot_base_def)
  let ?w1 = "cancel_gen p (sl_gen s) w"
  let ?s1 = "s\<lparr>sl_gen := None, sl_host := map_option (\<lambda>c. c\<lparr>pc_listeners := []\<rparr>) (sl_host s)\<rparr>"
  obtain s2 w2 where d: "detachSubscriptions li now ?s1 ?w1 = (s2, w2)"
    by (cases "detachSubscriptions li now ?s1 ?w1")
  have n: "names_of p ?w1 = sl_durable ?s1" using b by simp
  note dv = detach_view[OF b(2) n d]
  have s': "s' = s2\<lparr>sl_mux := None\<rparr>" and
    w': "w' = log_call p CallCloseBrowser (w2\<lparr>wd_queue := UnregisterAll p (wd_queue w2)\<rparr>)"
    using assms(2) b(1) d by (simp_all add: release_resources_def Let_def)
  have g: "gens_of p ?w1 = []"
    using assms(1) by (auto simp: slot_ok_def cancel_gen_gens split: option.splits)
  show "released p s' w'"
    using b g dv(1-5) unregister_jobs[OF b(2) b(2), of w2]
    by (simp add: released_def slot_base_def quiet_def s' w' names_of_def)
  have u: "acts_on p w2 (w2\<lparr>wd_queue := UnregisterAll p (wd_queue w2)\<rparr>)"
    unfolding acts_on_def same_view_def by (simp add: unregister_jobs[OF b(2)])
  show "acts_on p w w'"
    unfolding w' using cancel_gen_acts[of p w "sl_gen s"] dv(6) u acts_on_trans by (metis log_call_acts)
  show "calls_of p w' = calls_of p w @ [CallCloseBrowser]" using dv by (simp add: w')
  show "sl_init s' = sl_init s" "sl_host s' = map_option (\<lambda>c. c\<lparr>pc_listeners := []\<rparr>) (sl_host s)"
    "sl_decl s' = sl_decl s" "sl_runtime s' = sl_runtime s" "sl_desired s' = sl_desired s"
    by (simp_all add: s' dv(1))
qed

lemma attach_quiet:
  assumes "released p s w" "attachSubscriptions li now True s w = (r, s', w')"
  shows "released p s' w'" "acts_on p w w'" "calls_of p w' = calls_of p w"
    "sl_init s' = sl_init s" "sl_host s' = sl_host s" "sl_decl s' = sl_decl s" "sl_runtime s' = sl_runtime s"
    "sl_desired s' = sl_desired s"
proof -
  have b: "host_validPluginID p" "sid s = p" "names_of p w = sl_durable s"
    using assms(1) by (simp_all add: released_def slot_base_def)
  note av = attach_subs_view[OF b assms(2)]
  obtain l n where s': "s' = s\<lparr>sl_live := l, sl_durable := n\<rparr>" using av(3) by blast
  show "released p s' w'"
    using assms(1) av(1, 2, 4, 5, 7) b by (simp add: released_def slot_base_def quiet_def s')
  show "acts_on p w w'" "calls_of p w' = calls_of p w" by (rule av)+
  show "sl_init s' = sl_init s" "sl_host s' = sl_host s" "sl_decl s' = sl_decl s" "sl_runtime s' = sl_runtime s"
    "sl_desired s' = sl_desired s" by (simp_all add: s')
qed

lemma attach_discard_ok:
  assumes "released p s w" "attach_discard li now s w = (r, s', w')"
  shows "released p s' w' \<and> acts_on p w w' \<and> calls_of p w' = calls_of p w \<and>
    sl_init s' = sl_init s \<and> sl_host s' = sl_host s \<and> sl_decl s' = sl_decl s \<and> sl_desired s' = sl_desired s \<and>
    (r = Inr () \<longrightarrow> sl_runtime s' = sl_runtime s)"
proof -
  obtain r1 s1 w1 where a: "attachSubscriptions li now True s w = (r1, s1, w1)"
    by (cases "attachSubscriptions li now True s w")
  show ?thesis using attach_quiet[OF assms(1) a] assms(2) a
    by (cases r1) (auto simp: attach_discard_def)
qed

lemma teardown_ok:
  assumes "slot_ok p s w" "teardownLocked li now code s w = (r, s', w')"
  shows "slot_ok p s' w' \<and> acts_on p w w' \<and> \<not> sl_init s' \<and> quiet p s' w' \<and>
    sl_decl s' = sl_decl s \<and> sl_desired s' = sl_desired s"
proof -
  obtain s1 w1 where rr: "release_resources li now s w = (s1, w1)" by (cases "release_resources li now s w")
  note r1 = release_resources_ok[OF assms(1) rr]
  have p: "sid s = p" "phase False (calls_of p w) = Some (sl_init s)" "sl_init s \<longleftrightarrow> sl_host s \<noteq> None"
    using assms(1) by (auto simp: slot_ok_def slot_base_def)
  show ?thesis
  proof (cases "sl_init s")
    case False
    then have a: "attach_discard li now s1 w1 = (r, s', w')"
      using assms(2) rr r1(4) by (simp add: teardownLocked_def)
    note ad = attach_discard_ok[OF r1(1) a]
    have "slot_ok p s' w'"
      by (rule released_ok) (use ad r1 p False in \<open>auto simp: phase_append\<close>)
    moreover have "acts_on p w1 w'" using ad by blast
    ultimately show ?thesis using ad r1 False acts_on_trans[OF r1(2)] by (simp add: released_def)
  next
    case True
    obtain x d where sd: "cd_shutdown code (wd_db w1) = (x, d)" by (cases "cd_shutdown code (wd_db w1)")
    let ?b = "case x of Inl _ \<Rightarrow> False | Inr _ \<Rightarrow> True"
    let ?w2 = "log_call p (CallShutdown ?b) (w1\<lparr>wd_db := d\<rparr>)"
    let ?s2 = "s1\<lparr>sl_init := False, sl_host := None\<rparr>"
    have sc: "call_shutdown code p w1 = (x, ?w2)" by (simp add: call_shutdown_def sd)
    have rel: "released p ?s2 ?w2"
      using r1(1) by (simp add: released_def slot_base_def quiet_def)
    have act: "acts_on p w ?w2" using r1(2) by simp
    have ph: "phase False (calls_of p ?w2) = Some False" using p True r1(3) by (simp add: phase_append)
    show ?thesis
    proof (cases x)
      case (Inl e)
      let ?s3 = "setHealth RtDegraded KShutdown (Some (HeCode e)) ?s2"
      obtain r3 where a: "attachSubscriptions li now True ?s3 ?w2 = (r3, s', w')"
        using assms(2) rr r1(4) True sc Inl p(1) by (auto simp: teardownLocked_def split: prod.splits)
      have rel3: "released p ?s3 ?w2" using rel by simp
      note aq = attach_quiet[OF rel3 a]
      have "slot_ok p s' w'" by (rule released_ok) (use aq ph in auto)
      then show ?thesis using aq acts_on_trans[OF act aq(2)] r1 by (simp add: released_def)
    next
      case (Inr u)
      have a: "attach_discard li now ?s2 ?w2 = (r, s', w')"
        using assms(2) rr r1(4) True sc Inr p(1) by (simp add: teardownLocked_def)
      note ad = attach_discard_ok[OF rel a]
      have "slot_ok p s' w'" by (rule released_ok) (use ad ph in auto)
      moreover have "acts_on p ?w2 w'" using ad by blast
      ultimately show ?thesis using ad acts_on_trans[OF act] r1 by (simp add: released_def)
    qed
  qed
qed

section \<open>Start and reconciliation\<close>

lemma next_gen_view [simp]:
  "subs_of q (w\<lparr>wd_gens := x, wd_next := n\<rparr>) = subs_of q w" "calls_of q (w\<lparr>wd_gens := x, wd_next := n\<rparr>) = calls_of q w"
  "jobs_of q (w\<lparr>wd_gens := x, wd_next := n\<rparr>) = jobs_of q w" "names_of q (w\<lparr>wd_gens := x, wd_next := n\<rparr>) = names_of q w"
  by (simp_all add: fun_eq_iff view_defs names_of_def)

text \<open>A slot that is down and whose failed start is about to be reported.\<close>

lemma abort_ok:
  assumes "slot_base p s w" "gens_of p w = [g]" "sl_gen s = None" "sl_host s = None" "sl_mux s = None" "\<not> sl_init s"
    "phase False (calls_of p w) = Some inited" "jobs_declared p s w" "abort_start code g inited k e s w = (r, s', w')"
  shows "slot_ok p s' w'" "acts_on p w w'" "r = RecErr e" "sl_desired s' = sl_desired s" "\<not> sl_init s'"
    "sl_decl s' = sl_decl s"
proof -
  let ?w1 = "cancel_gen p (Some g) w"
  have p: "sid s = p" using assms(1) by (simp add: slot_base_def)
  have s': "s' = setHealth RtDegraded k (Some e) s" and r: "r = RecErr e" and
    w': "w' = (if inited then snd (call_shutdown code p ?w1) else ?w1)"
    using assms(9) p by (auto simp: abort_start_def Let_def)
  show "r = RecErr e" by (rule r)
  have g: "gens_of p ?w1 = []" using assms(2) by (simp add: cancel_gen_gens)
  obtain x d where sd: "cd_shutdown code (wd_db ?w1) = (x, d)" by (cases "cd_shutdown code (wd_db ?w1)")
  have ws: "snd (call_shutdown code p ?w1) =
      log_call p (CallShutdown (case x of Inl _ \<Rightarrow> False | Inr _ \<Rightarrow> True)) (?w1\<lparr>wd_db := d\<rparr>)"
    by (simp add: call_shutdown_def sd)
  show "slot_ok p s' w'" using assms g by (auto simp: slot_ok_def slot_base_def s' w' ws phase_append jobs_declared_def)
  show "acts_on p w w'" by (simp add: w' ws)
  show "sl_desired s' = sl_desired s" "\<not> sl_init s'" "sl_decl s' = sl_decl s" using assms(6) by (simp_all add: s')
qed

lemma start_ok:
  assumes "slot_ok p s w" "\<not> sl_init s" "start_plugin li now code s w = (r, s', w')" "r \<noteq> RecPanic"
  shows "slot_ok p s' w' \<and> acts_on p w w' \<and> sl_decl s' = sl_decl s \<and> sl_desired s' = sl_desired s \<and>
    (r = RecOk \<longrightarrow> sl_init s' \<and> sl_runtime s' = RtEnabled) \<and> (r \<noteq> RecOk \<longrightarrow> \<not> sl_init s')"
proof -
  have b: "sid s = p" "host_validPluginID p" "names_of p w = sl_durable s" "gens_of p w = []"
    "sl_gen s = None" "sl_host s = None" "sl_mux s = None" "phase False (calls_of p w) = Some False"
    using assms(1, 2) by (auto simp: slot_ok_def slot_base_def)
  let ?g = "wd_next w"
  let ?w1 = "w\<lparr>wd_gens := wd_gens w @ [(p, ?g)], wd_next := Suc ?g\<rparr>"
  have g1: "gens_of q ?w1 = gens_of q w @ (if q = p then [?g] else [])" for q by (simp add: gens_of_def)
  have a1: "acts_on p w ?w1" using g1 by (simp add: acts_on_def same_view_def)
  obtain m w2 where mj: "mountJobs li now s ?w1 = (m, w2)" by (cases "mountJobs li now s ?w1")
  note mv = mountJobs_view[OF b(2) b(1) mj]
  have a2: "acts_on p w w2" using a1 mv(4) acts_on_trans by blast
  have n2: "names_of p w2 = sl_durable s" using mv(1) b(3) by (simp add: names_of_def)
  have g2: "gens_of p w2 = [?g]" using mv(2) g1 b(4) by simp
  have c2: "calls_of p w2 = calls_of p w" using mv(3) by simp
  have "jobs_of p ?w1 = jobs_of p w" by simp
  then have j2: "jobs_declared p s w2"
    using mv(7) assms(1) unfolding slot_ok_def jobs_declared_def by metis
  show ?thesis
  proof (cases m)
    case (Inl e)
    then have ab: "abort_start code ?g False KScheduler (HeJobs e) s w2 = (r, s', w')"
      using assms(3) mj b(1) by (simp add: start_plugin_def Let_def)
    have sb: "slot_base p s w2" using b n2 by (simp add: slot_base_def)
    note ab = abort_ok[OF sb g2 b(5-7) assms(2) _ j2 ab]
    show ?thesis using ab c2 b(8) acts_on_trans[OF a2] assms(2) by auto
  next
    case m: (Inr u)
    obtain x d where ci: "cd_init code (wd_db w2) = (x, d)" by (cases "cd_init code (wd_db w2)")
    show ?thesis
    proof (cases x)
      case (Inl e)
      let ?w3 = "log_call p (CallInit ?g False) (w2\<lparr>wd_db := d\<rparr>)"
      have ab: "abort_start code ?g False KInit (HeCode e) s ?w3 = (r, s', w')"
        using assms(3) mj b(1) m ci Inl by (simp add: start_plugin_def Let_def)
      have sb: "slot_base p s ?w3" using b n2 by (simp add: slot_base_def)
      have g3: "gens_of p ?w3 = [?g]" using g2 by simp
      have a3: "acts_on p w ?w3" using a2 by simp
      have j3: "jobs_declared p s ?w3" using j2 by (simp add: jobs_declared_def)
      note ab = abort_ok[OF sb g3 b(5-7) assms(2) _ j3 ab]
      show ?thesis using ab c2 b(8) acts_on_trans[OF a3] assms(2) by (auto simp: phase_append)
    next
      case x: (Inr u')
      let ?w3 = "log_call p (CallInit ?g True) (w2\<lparr>wd_db := d\<rparr>)"
      have c3: "calls_of p ?w3 = calls_of p w @ [CallInit ?g True]" using c2 by simp
      have n3: "names_of p ?w3 = sl_durable s" using n2 by simp
      show ?thesis
      proof (cases "buildMux code s")
        case None
        then show ?thesis using assms(3, 4) mj b(1) m ci x by (simp add: start_plugin_def Let_def)
      next
        case (Some pats)
        then have pats: "pats = map rt_pattern (dl_routes (sl_decl s))"
          by (simp add: buildMux_def Let_def split: if_splits)
        obtain y s4 w4 where at: "attachSubscriptions li now False s ?w3 = (y, s4, w4)"
          by (cases "attachSubscriptions li now False s ?w3")
        note av = attach_subs_view[OF b(2) b(1) n3 at]
        obtain l n where s4: "s4 = s\<lparr>sl_live := l, sl_durable := n\<rparr>" using av(3) by blast
        have sb: "slot_base p s4 w4" using b av(2) by (simp add: slot_base_def s4)
        have g4: "gens_of p w4 = [?g]" using av(5) g2 by simp
        have c4: "phase False (calls_of p w4) = Some True" using av(6) c3 b(8) by (simp add: phase_append)
        have j4: "jobs_declared p s4 w4" using j2 av(7) by (simp add: jobs_declared_def s4)
        have a4: "acts_on p w w4" using av(8) by (rule acts_on_trans[rotated]) (simp add: a2)
        show ?thesis
        proof (cases y)
          case (Inl e)
          then have ab: "abort_start code ?g True KSubscription (HeEvents e) s4 w4 = (r, s', w')"
            using assms(3) mj b(1) m ci x Some at by (simp add: start_plugin_def Let_def)
          have s4f: "sl_gen s4 = None" "sl_host s4 = None" "sl_mux s4 = None" "\<not> sl_init s4"
            using b assms(2) by (simp_all add: s4)
          note ab = abort_ok[OF sb g4 s4f c4 j4 ab]
          show ?thesis using ab acts_on_trans[OF a4] s4 by auto
        next
          case (Inr v)
          let ?cfg = "\<lparr>pc_value = fst (loadConfig (dl_manifest (sl_decl s)) (wd_db w)), pc_listeners = []\<rparr>"
          have res: "r = RecOk" "w' = w4"
            "s' = setHealth RtEnabled KNone None
               (s4\<lparr>sl_host := Some ?cfg, sl_mux := Some pats, sl_gen := Some ?g, sl_init := True\<rparr>)"
            using assms(3) mj b(1) m ci x Some at Inr by (simp_all add: start_plugin_def Let_def)
          have "jobs_of p w4 (df_name j) \<noteq> None" if "j \<in> set (dl_jobs (sl_decl s))" for j
            using mv(8)[of j] that av(7) m by simp
          then have "mounted p s' w4"
            using av(1) av(11) Inr s4 by (simp add: mounted_def res)
          then show ?thesis using sb g4 c4 a4 pats j4
            by (simp add: res slot_ok_def slot_base_def jobs_declared_def s4)
        qed
      qed
    qed
  qed
qed

definition converged :: "bool \<Rightarrow> string \<Rightarrow> slot \<Rightarrow> 'a world \<Rightarrow> bool" where
  \<comment> \<open>what runs is what policy wants\<close>
  "converged enabled p s w \<longleftrightarrow> sl_desired s = enabled \<and> sl_init s = enabled \<and>
     sl_runtime s = (if enabled then RtEnabled else RtDisabled) \<and> (enabled \<or> quiet p s w)"

lemma slot_ok_desired [simp]: "slot_ok p (s\<lparr>sl_desired := b\<rparr>) w = slot_ok p s w"
  by (simp add: slot_ok_def slot_base_def quiet_def mounted_def jobs_declared_def)

lemma slot_ok_up: "slot_ok p s w \<Longrightarrow> sl_init s \<Longrightarrow> slot_ok p (setHealth RtEnabled k e s) w"
  by (simp add: slot_ok_def slot_base_def)

lemma teardown_runtime:
  assumes "slot_ok p s w" "teardownLocked li now code s w = (Inr (), s', w')"
  shows "slot_ok p (setHealth RtDisabled KNone None s') w'"
  using teardown_ok[OF assms] by (auto simp: slot_ok_def slot_base_def)

lemma reconcile_ok:
  assumes "slot_ok p s w" "reconcileLocked li now code s w = (r, s', w')" "r \<noteq> RecPanic"
  shows "slot_ok p s' w' \<and> acts_on p w w' \<and> sl_decl s' = sl_decl s \<and>
    (r = RecOk \<longrightarrow> (\<exists>st. policy_State now p (wd_db w) = Inr st \<and> converged (vs_enabled st) p s' w'))"
proof -
  have p: "sid s = p" using assms(1) by (simp add: slot_ok_def slot_base_def)
  show ?thesis
  proof (cases "policy_State now p (wd_db w)")
    case (Inl e)
    then show ?thesis using assms slot_ok_health p by (auto simp: reconcileLocked_def)
  next
    case (Inr st)
    let ?s1 = "s\<lparr>sl_desired := vs_enabled st\<rparr>"
    have s1: "slot_ok p ?s1 w" using assms(1) by simp
    obtain t s2 w2 where td: "teardownLocked li now code ?s1 w = (t, s2, w2)"
      by (cases "teardownLocked li now code ?s1 w")
    note to = teardown_ok[OF s1 td]
    show ?thesis
    proof (cases "vs_enabled st")
      case False
      show ?thesis
      proof (cases t)
        case (Inl e)
        then show ?thesis using assms(2) to td p \<open>policy_State now p (wd_db w) = Inr st\<close> False
          by (auto simp: reconcileLocked_def Let_def)
      next
        case (Inr u)
        then have r: "r = RecOk" "s' = setHealth RtDisabled KNone None s2" "w' = w2"
          using assms(2) td p \<open>policy_State now p (wd_db w) = Inr st\<close> False
          by (simp_all add: reconcileLocked_def Let_def)
        have "slot_ok p s' w'" using teardown_runtime[OF s1] td Inr r by simp
        then show ?thesis using to r \<open>policy_State now p (wd_db w) = Inr st\<close> False
          by (simp add: converged_def)
      qed
    next
      case True
      show ?thesis
      proof (cases "validatePersistedConfig (li_json li) (dl_manifest (sl_decl s)) (wd_db w)")
        case (Inl e)
        then have r: "r = RecErr (HePlugin e)" "s' = setHealth RtDegraded KConfig (Some (HePlugin e)) s2" "w' = w2"
          using assms(2) td p Inr True by (simp_all add: reconcileLocked_def Let_def)
        then show ?thesis using to slot_ok_health[OF to[THEN conjunct1]] by simp
      next
        case v: (Inr u)
        show ?thesis
        proof (cases "sl_init s")
          case init: True
          then have r: "r = RecOk" "s' = setHealth RtEnabled KNone None ?s1" "w' = w"
            using assms(2) p Inr True v by (simp_all add: reconcileLocked_def Let_def)
          have "slot_ok p s' w'" unfolding r by (rule slot_ok_up[OF s1]) (simp add: init)
          then show ?thesis using r init Inr True by (simp add: converged_def)
        next
          case False
          then have st: "start_plugin li now code ?s1 w = (r, s', w')"
            using assms(2) p Inr True v by (simp add: reconcileLocked_def Let_def)
          have i1: "\<not> sl_init ?s1" using False by simp
          show ?thesis using start_ok[OF s1 i1 st assms(3)] Inr True by (auto simp: converged_def)
        qed
      qed
    qed
  qed
qed

lemma bootstrap_ok:
  assumes "slot_ok p s w" "bootstrap li now code s w = (r, s', w')" "r \<noteq> RecPanic"
  shows "slot_ok p s' w' \<and> acts_on p w w' \<and> sl_decl s' = sl_decl s"
proof -
  have p: "sid s = p" using assms(1) by (simp add: slot_ok_def slot_base_def)
  have db: "slot_ok p s (log_call p (CallMigrate b) (w\<lparr>wd_db := d\<rparr>))" "slot_ok p s (w\<lparr>wd_db := d\<rparr>)" for b d
    using assms(1) by (auto simp: slot_ok_def slot_base_def quiet_def phase_append mounted_def jobs_declared_def)
  obtain x d where rg: "Register now p (mf_automated (dl_manifest (sl_decl s))) (wd_db w) = (x, d)"
    by (cases "Register now p (mf_automated (dl_manifest (sl_decl s))) (wd_db w)")
  show ?thesis
  proof (cases x)
    case (Inl e)
    then have "s' = setHealth RtDegraded KInit (Some (HePolicy e)) s" "w' = w\<lparr>wd_db := d\<rparr>"
      using assms(2) rg p by (auto simp: bootstrap_def fail_is_health)
    then show ?thesis using slot_ok_health[OF db(2)] by simp
  next
    case (Inr u)
    let ?d1 = "ensureConfigRow now (dl_manifest (sl_decl s)) d"
    obtain y d2 where mg: "cd_migrate code ?d1 = (y, d2)" by (cases "cd_migrate code ?d1")
    show ?thesis
    proof (cases y)
      case (Inl e)
      then have "s' = setHealth RtDegraded KMigration (Some (HeCode e)) s"
        "w' = log_call p (CallMigrate False) (w\<lparr>wd_db := d2\<rparr>)"
        using assms(2) rg p Inr mg by (auto simp: bootstrap_def Let_def fail_is_health)
      then show ?thesis using slot_ok_health[OF db(1)] by simp
    next
      case y: (Inr v)
      have rc: "reconcileLocked li now code s (log_call p (CallMigrate True) (w\<lparr>wd_db := d2\<rparr>)) = (r, s', w')"
        using assms(2) rg p Inr mg y by (simp add: bootstrap_def Let_def)
      note ro = reconcile_ok[OF db(1) rc assms(3)]
      moreover have "acts_on p w (log_call p (CallMigrate True) (w\<lparr>wd_db := d2\<rparr>))" by simp
      ultimately show ?thesis using acts_on_trans by blast
    qed
  qed
qed

section \<open>The registry\<close>

definition reg_ok :: "'a registry \<Rightarrow> bool" where
  "reg_ok r \<longleftrightarrow> (\<forall>p s. rg_slots r p = Some s \<longrightarrow> slot_ok p s (rg_world r))"

lemma on_slot_ok:
  assumes "reg_ok r" "on_slot f p r = (Some x, r')"
    "\<And>s s' w'. slot_ok p s (rg_world r) \<Longrightarrow> f s (rg_world r) = (x, s', w') \<Longrightarrow> slot_ok p s' w' \<and> acts_on p (rg_world r) w'"
  shows "reg_ok r'"
proof -
  obtain s where s: "rg_slots r p = Some s" using assms(2) by (auto simp: on_slot_def split: option.splits)
  obtain s' w' where f: "f s (rg_world r) = (x, s', w')"
    and r': "r' = r\<lparr>rg_world := w', rg_slots := (rg_slots r)(p \<mapsto> s')\<rparr>"
    using assms(2) s by (auto simp: on_slot_def split: prod.splits)
  have sp: "slot_ok p s (rg_world r)" using assms(1) s by (simp add: reg_ok_def)
  note k = assms(3)[OF sp f]
  have "slot_ok q t w'" if "rg_slots r q = Some t" "q \<noteq> p" for q t
  proof -
    have q: "slot_ok q t (rg_world r)" using assms(1) that by (simp add: reg_ok_def)
    then have "host_validPluginID q" by (simp add: slot_ok_def slot_base_def)
    then have "same_view q (rg_world r) w'" using k that by (simp add: acts_on_def)
    then show ?thesis by (rule slot_ok_view[OF q])
  qed
  then show ?thesis using k by (auto simp: reg_ok_def r' split: if_splits)
qed

lemma set_db_ok: "reg_ok (set_db d r) = reg_ok r"
proof -
  have "slot_ok p s ((rg_world r)\<lparr>wd_db := d\<rparr>) = slot_ok p s (rg_world r)" for p s
    by (simp add: slot_ok_def slot_base_def quiet_def mounted_def jobs_declared_def)
  then show ?thesis by (simp add: reg_ok_def set_db_def)
qed

end
