(* ===== verification/Plugin_Host.thy ===== *)
theory Plugin_Host
  imports Plugin_Laws
begin

text \<open>
  Properties of the plugin host. \<open>host_step\<close> interleaves the operations of the registry on all plugins with
  transactions of the rest of the program, which may leave any database. A reachable registry keeps the invariant of
  \<^verbatim>\<open>Plugin_Laws\<close> for every plugin, whatever \<^verbatim>\<open>Migrate\<close>, \<^verbatim>\<open>Init\<close> and \<^verbatim>\<open>Shutdown\<close> answer.
\<close>

section \<open>Interleavings\<close>

definition watch_config :: "(plugin_config \<Rightarrow> plugin_config) \<Rightarrow> slot \<Rightarrow> 'a world \<Rightarrow> unit \<times> slot \<times> 'a world" where
  \<comment> \<open>plugin code adds or stops a watch on its configuration\<close>
  "watch_config f s w = ((), s\<lparr>sl_host := map_option f (sl_host s)\<rparr>, w)"

inductive host_step :: "lib \<Rightarrow> 'a registry \<Rightarrow> 'a registry \<Rightarrow> bool" for li where
  st_bootstrap: "on_slot (bootstrap li now code) p r = (Some x, r') \<Longrightarrow> x \<noteq> RecPanic \<Longrightarrow> host_step li r r'"
| st_reconcile: "on_slot (reconcileLocked li now code) p r = (Some x, r') \<Longrightarrow> x \<noteq> RecPanic \<Longrightarrow> host_step li r r'"
| st_stop: "on_slot (stop_slot li now code) p r = (Some x, r') \<Longrightarrow> host_step li r r'"
| st_update: "UpdateConfig li now refs p doc actor r = (x, r') \<Longrightarrow> host_step li r r'"
| st_watch: "on_slot (watch_config (\<lambda>c. snd (config_Watch fn c))) p r = (Some x, r') \<Longrightarrow> host_step li r r'"
| st_unwatch: "on_slot (watch_config (config_unwatch i)) p r = (Some x, r') \<Longrightarrow> host_step li r r'"
| st_other: "host_step li r (set_db d r)" \<comment> \<open>any transaction of another module\<close>

definition fresh_registry :: "'a registry \<Rightarrow> bool" where
  \<comment> \<open>the process before \<^verbatim>\<open>RegisterAll\<close>; core subscribers may run\<close>
  "fresh_registry r \<longleftrightarrow> rg_slots r = Map.empty \<and> rg_order r = [] \<and> \<not> rg_started r \<and>
     wd_gens (rg_world r) = [] \<and> wd_calls (rg_world r) = [] \<and> qu_defs (wd_queue (rg_world r)) = Map.empty \<and>
     list_all (\<lambda>x. \<not> has_prefix (ds_name (ru_sub x)) ''plugin:'') (wd_subs (rg_world r))"

definition host_reachable :: "lib \<Rightarrow> 'a registry \<Rightarrow> bool" where
  "host_reachable li r \<longleftrightarrow> (\<exists>r0 jl ps r1. fresh_registry r0 \<and> RegisterAll jl ps r0 = (Inr (), r1) \<and> (host_step li)\<^sup>*\<^sup>* r1 r)"

lemma watch_ok: "slot_ok p s w \<Longrightarrow> slot_ok p (s\<lparr>sl_host := map_option f (sl_host s)\<rparr>) w"
  by (auto simp: slot_ok_def slot_base_def quiet_def mounted_def jobs_declared_def)

lemma notify_ok: "notifyConfig doc s = (fns, s') \<Longrightarrow> slot_ok p s w \<Longrightarrow> slot_ok p s' w"
proof -
  assume n: "notifyConfig doc s = (fns, s')" and ok: "slot_ok p s w"
  then have "s' = s \<or> s' = s\<lparr>sl_host := map_option (\<lambda>c. c\<lparr>pc_value := doc\<rparr>) (sl_host s)\<rparr>"
    by (auto simp: notifyConfig_def split: option.splits if_splits)
  then show ?thesis using ok watch_ok by auto
qed

lemma stop_ok:
  "slot_ok p s w \<Longrightarrow> stop_slot li now code s w = (x, s', w') \<Longrightarrow> slot_ok p s' w' \<and> acts_on p w w'"
proof -
  assume ok: "slot_ok p s w" and st: "stop_slot li now code s w = (x, s', w')"
  obtain t s2 w2 where td: "teardownLocked li now code s w = (t, s2, w2)" by (cases "teardownLocked li now code s w")
  show ?thesis using teardown_ok[OF ok td] ok st td by (auto simp: stop_slot_def split: if_splits)
qed

lemma host_step_ok: "host_step li r r' \<Longrightarrow> reg_ok r \<Longrightarrow> reg_ok r'"
proof (induction rule: host_step.induct)
  case (st_bootstrap now code p r x r')
  show ?case by (rule on_slot_ok[OF st_bootstrap(3, 1)]) (use bootstrap_ok st_bootstrap(2) in blast)
next
  case (st_reconcile now code p r x r')
  show ?case by (rule on_slot_ok[OF st_reconcile(3, 1)]) (use reconcile_ok st_reconcile(2) in blast)
next
  case (st_stop now code p r x r')
  show ?case by (rule on_slot_ok[OF st_stop(2, 1)]) (use stop_ok in blast)
next
  case (st_watch fn p r x r')
  show ?case by (rule on_slot_ok[OF st_watch(2, 1)]) (use watch_ok in \<open>auto simp: watch_config_def\<close>)
next
  case (st_unwatch i p r x r')
  show ?case by (rule on_slot_ok[OF st_unwatch(2, 1)]) (use watch_ok in \<open>auto simp: watch_config_def\<close>)
next
  case (st_other r d)
  then show ?case by (simp add: set_db_ok)
next
  case (st_update now refs p doc actor r x r')
  show ?case
  proof (cases "rg_slots r p")
    case None
    then show ?thesis using st_update by (simp add: UpdateConfig_def)
  next
    case (Some s)
    let ?u = "update_config_tx now (li_json li) refs (dl_manifest (sl_decl s)) doc actor (wd_db (rg_world r))"
    obtain y d where u: "?u = (y, d)" by (cases ?u)
    show ?thesis
    proof (cases y)
      case (Inl e)
      then show ?thesis using st_update Some u set_db_ok by (auto simp: UpdateConfig_def)
    next
      case (Inr v)
      obtain fns s' where n: "notifyConfig doc s = (fns, s')" by (cases "notifyConfig doc s")
      have r': "r' = (set_db d r)\<lparr>rg_slots := (rg_slots r)(p \<mapsto> s')\<rparr>"
        using st_update(1) Some u Inr n by (simp add: UpdateConfig_def)
      have "reg_ok (set_db d r)" using st_update(2) by (simp add: set_db_ok)
      then have "slot_ok q t (rg_world (set_db d r))" if "rg_slots r q = Some t" for q t
        using that by (simp add: reg_ok_def set_db_def)
      then show ?thesis using notify_ok[OF n] Some by (auto simp: reg_ok_def r')
    qed
  qed
qed

lemma register_ids: "register_loop jl rk ps = Inr ds \<Longrightarrow> d \<in> set ds \<Longrightarrow> host_validPluginID (did d)"
  using register_loop_ok inspect_ok(1) by (fastforce simp: did_def)

lemma new_slot_ok:
  assumes "fresh_registry r" "host_validPluginID (did d)"
  shows "slot_ok (did d) (new_slot d) (rg_world r)"
proof -
  let ?w = "rg_world r"
  have "\<not> sub_of (did d) x" if "x \<in> set (wd_subs ?w)" for x
  proof
    assume "sub_of (did d) x"
    then have "take (length (durableName (did d) [])) (ds_name (ru_sub x)) = durableName (did d) []"
      by (simp add: sub_of_def has_prefix_def)
    then obtain rest where "ds_name (ru_sub x) = durableName (did d) [] @ rest" by (metis append_take_drop_id)
    then have "has_prefix (ds_name (ru_sub x)) ''plugin:''" by (simp add: has_prefix_def durableName_def)
    then show False using assms(1) that by (simp add: fresh_registry_def list_all_iff)
  qed
  then have "subs_of (did d) ?w = []" by (simp add: subs_of_def filter_empty_conv)
  then show ?thesis using assms
    by (simp add: slot_ok_def slot_base_def new_slot_def sid_def did_def names_of_def gens_of_def calls_of_def
        fresh_registry_def quiet_def jobs_declared_def jobs_of_def lookupDef_def fun_eq_iff)
qed

lemma host_reachable_ok: "host_reachable li r \<Longrightarrow> reg_ok r"
proof -
  assume "host_reachable li r"
  then obtain r0 jl ps r1 where f: "fresh_registry r0" and ra: "RegisterAll jl ps r0 = (Inr (), r1)"
    and st: "(host_step li)\<^sup>*\<^sup>* r1 r" by (auto simp: host_reachable_def)
  from ra obtain ds where ds: "register_loop jl no_keys ps = Inr ds"
    and r1: "r1 = r0\<lparr>rg_slots := rg_slots r0 ++ map_of (map (\<lambda>d. (did d, new_slot d)) ds),
                     rg_order := rg_order r0 @ map did ds\<rparr>"
    by (auto simp: RegisterAll_def split: if_splits sum.splits)
  have e: "rg_slots r0 = Map.empty" using f by (simp add: fresh_registry_def)
  have "reg_ok r1"
  proof -
    have "slot_ok p s (rg_world r0)" if m: "map_of (map (\<lambda>d. (did d, new_slot d)) ds) p = Some s" for p s
    proof -
      obtain d where "d \<in> set ds" "p = did d" "s = new_slot d" using map_of_SomeD[OF m] by auto
      then show ?thesis using new_slot_ok[OF f] register_ids[OF ds] by simp
    qed
    then show ?thesis by (simp add: reg_ok_def r1 e)
  qed
  with st show ?thesis by (induction rule: rtranclp_induct) (use host_step_ok in blast)+
qed

section \<open>Lemmas of the properties\<close>

lemma cut_Some: "cut d s = Some (a, b) \<Longrightarrow> s = a @ d # b"
  by (induction d s arbitrary: a b rule: cut.induct) (auto split: if_splits option.splits)

lemma has_prefix_split: "has_prefix s p \<Longrightarrow> s = p @ trim_prefix s p"
  by (metis append_take_drop_id has_prefix_def trim_prefix_def)

lemma split_path:
  assumes "splitPluginPath path = Some (p, rel)"
  shows "host_validPluginID p \<and> has_prefix rel ''/'' \<and>
    (path = plugin_mount @ p @ rel \<or> rel = ''/'' \<and> path = plugin_mount @ p)"
proof -
  let ?rest = "trim_prefix path plugin_mount"
  have hp: "has_prefix path plugin_mount" using assms unfolding splitPluginPath_def by (simp split: if_splits)
  then have path: "path = plugin_mount @ ?rest" by (rule has_prefix_split)
  show ?thesis
  proof (cases "cut CHR ''/'' ?rest")
    case None
    then have "p = ?rest" "rel = ''/''" "host_validPluginID p"
      using assms hp unfolding splitPluginPath_def Let_def None by (simp_all split: if_splits)
    then show ?thesis using path by (simp add: has_prefix_def)
  next
    case (Some x)
    obtain a b where x: "x = (a, b)" by (cases x)
    have r: "?rest = a @ CHR ''/'' # b" using cut_Some Some x by blast
    have "p = a" "rel = ''/'' @ b" "host_validPluginID p"
      using assms hp unfolding splitPluginPath_def Let_def Some x by (simp_all split: if_splits)
    then show ?thesis using path r by (simp add: has_prefix_def)
  qed
qed

lemma Disable_off:
  assumes "Disable now p actor reason d = (Inr (), d')"
  shows "\<exists>st b. readStateRow p d' = Inr (st, b) \<and> \<not> ps_enabled st"
proof (rule Disable_cases[OF assms])
  assume "d' = d" "Inr () = Inr () \<Longrightarrow> \<exists>st b. readStateRow p d = Inr (st, b) \<and> \<not> ps_enabled st"
  then show ?thesis by simp
next
  fix st b
  assume off: "readStateRow p d = Inr (st, b)"
    "pl_state d' = sql_update (is_plugin p) (switch_off now actor reason) (pl_state d)"
  have "readStateRow p d' = Inr (switch_off now actor reason st, budget_of p d')"
    by (rule readStateRow_update[OF off]) (simp add: switch_off_def)
  then show ?thesis by (simp add: switch_off_def)
qed

lemma Enable_on:
  assumes "Enable now p actor reason d = (Inr (), d')"
  shows "\<exists>st b. readStateRow p d' = Inr (st, b) \<and> ps_enabled st"
proof (rule Enable_cases[OF assms])
  assume "d' = d" "Inr () = Inr () \<Longrightarrow> \<exists>st b. readStateRow p d = Inr (st, b) \<and> ps_enabled st"
  then show ?thesis by simp
next
  fix st b
  assume on: "readStateRow p d = Inr (st, b)" "pl_state d' = sql_update (is_plugin p) switch_on (pl_state d)"
  have "readStateRow p d' = Inr (switch_on st, budget_of p d')"
    by (rule readStateRow_update[OF on]) (simp add: switch_on_def)
  then show ?thesis by (simp add: switch_on_def)
qed

lemma policy_State_enabled:
  "readStateRow p d = Inr (st, b) \<Longrightarrow> policy_State now p d = Inr v \<Longrightarrow> vs_enabled v = ps_enabled st"
  by (auto simp: policy_State_def hydrate_def Let_def split: sum.splits)

lemma on_slot_reconcile:
  assumes "reg_ok r" "on_slot (reconcileLocked li now code) p (set_db d r) = (Some RecOk, r')"
  shows "\<exists>s st. rg_slots r' p = Some s \<and> slot_ok p s (rg_world r') \<and> policy_State now p d = Inr st \<and>
    converged (vs_enabled st) p s (rg_world r')"
proof -
  have ok: "reg_ok (set_db d r)" using assms(1) by (simp add: set_db_ok)
  obtain s where s: "rg_slots (set_db d r) p = Some s" using assms(2) by (auto simp: on_slot_def split: option.splits)
  obtain s' w' where f: "reconcileLocked li now code s (rg_world (set_db d r)) = (RecOk, s', w')"
    and r': "r' = (set_db d r)\<lparr>rg_world := w', rg_slots := (rg_slots (set_db d r))(p \<mapsto> s')\<rparr>"
    using assms(2) s by (auto simp: on_slot_def split: prod.splits)
  have sp: "slot_ok p s (rg_world (set_db d r))" using ok s by (simp add: reg_ok_def)
  show ?thesis using reconcile_ok[OF sp f] by (auto simp: r' set_db_def)
qed

lemma on_slot_some: "rg_slots r p \<noteq> None \<Longrightarrow> fst (on_slot f p r) \<noteq> None"
  by (auto simp: on_slot_def split: prod.splits)

section \<open>Properties\<close>




section \<open>A concrete host\<close>

definition h_job :: job_def where
  "h_job = \<lparr>df_name = ''sync'', df_handler = True, df_schedule = [], df_tz = [], df_timeout = 0, df_max_attempts = 0,
     df_backoff = \<lparr>bo_initial = 0, bo_maximum = 0\<rparr>, df_concurrency = 0\<rparr>"

definition h_plugin :: plugin where
  "h_plugin = \<lparr>pg_manifest = \<lparr>mf_id = ''a'', mf_name = ''A'', mf_automated = False, mf_models = [], mf_events = [],
       mf_config = \<lparr>cs_schema = [], cs_defaults = []\<rparr>\<rparr>,
     pg_jobs = [h_job],
     pg_subs = [\<lparr>sb_pattern = ''b.x'', sb_live = False, sb_durable = Some (''one'', True)\<rparr>,
                \<lparr>sb_pattern = ''b.y'', sb_live = False, sb_durable = Some (''two'', True)\<rparr>],
     pg_routes = [\<lparr>rt_pattern = ''GET /x'', rt_handler = True\<rparr>]\<rparr>"

definition h_db :: "cursor_row list \<Rightarrow> host_db" where
  "h_db cs = \<lparr>ev_rows = [], ev_seq = 0, ev_cursors = cs, ev_oldest = 1, ev_last_run = None,
     pl_state = [\<lparr>ps_id = ''a'', ps_enabled = True, ps_automated = False, ps_disabled_at = None,
                  ps_disabled_by = [], ps_disabled_reason = [], ps_failed_at = None\<rparr>],
     pl_budget = [], pl_spend = [], pl_reservations = [], pl_budget_events = [], pl_after = [],
     jb_jobs = [], jb_seq = 0, jb_logs = [], jb_log_seq = 0, jb_schedules = [],
     hd_config = [], hd_creds = [], hd_refs = []\<rparr>"

definition h_world :: "host_db \<Rightarrow> unit world" where
  "h_world d = \<lparr>wd_db = d, wd_queue = \<lparr>qu_owner = ''w'', qu_ttl = 1, qu_retention = 1, qu_gap = 1, qu_defs = Map.empty\<rparr>,
     wd_subs = [], wd_calls = [], wd_gens = [], wd_next = 0\<rparr>"

definition h_lib :: lib where
  "h_lib = \<lparr>li_json = \<lparr>jl_parse = (\<lambda>s. None), jl_rx = w_rx\<rparr>,
     li_job = \<lparr>je_tz = (\<lambda>z. None), je_sha = (\<lambda>s. s), je_float = (\<lambda>_. JNum 0), je_dur = (\<lambda>d. [])\<rparr>, li_owner = ''w''\<rparr>"

definition h_code :: "bool \<Rightarrow> unit plugin_code" where
  \<comment> \<open>the flag: the migrations succeed\<close>
  "h_code b = \<lparr>cd_migrate = (\<lambda>d. (if b then Inr () else Inl ''migration failed'', d)), cd_init = (\<lambda>d. (Inr (), d)),
     cd_shutdown = (\<lambda>d. (Inr (), d)), cd_mux = (\<lambda>pats. True)\<rparr>"

definition h_reg0 :: "cursor_row list \<Rightarrow> unit registry" where
  "h_reg0 cs = \<lparr>rg_world = h_world (h_db cs), rg_slots = Map.empty, rg_order = [], rg_started = False\<rparr>"

definition h_reg1 :: "cursor_row list \<Rightarrow> unit registry" where
  "h_reg1 cs = snd (RegisterAll (li_json h_lib) [Some h_plugin] (h_reg0 cs))"

definition h_reg2 :: "cursor_row list \<Rightarrow> unit registry" where
  "h_reg2 cs = snd (on_slot (reconcileLocked h_lib 0 (h_code True)) ''a'' (h_reg1 cs))"

lemma h_fresh: "fresh_registry (h_reg0 cs)"
  by (simp add: fresh_registry_def h_reg0_def h_world_def)

lemma h_register: "fst (RegisterAll (li_json h_lib) [Some h_plugin] (h_reg0 [])) = Inr ()"
  by code_simp

lemma h_reconciled: "fst (on_slot (reconcileLocked h_lib 0 (h_code True)) ''a'' (h_reg1 [])) = Some RecOk"
  by code_simp

lemma h_reachable1: "host_reachable h_lib (h_reg1 [])"
proof -
  have "RegisterAll (li_json h_lib) [Some h_plugin] (h_reg0 []) = (Inr (), h_reg1 [])"
    using h_register by (simp add: h_reg1_def prod_eq_iff)
  then show ?thesis using h_fresh unfolding host_reachable_def by blast
qed

lemma h_reachable2: "host_reachable h_lib (h_reg2 [])"
proof -
  have "on_slot (reconcileLocked h_lib 0 (h_code True)) ''a'' (h_reg1 []) = (Some RecOk, h_reg2 [])"
    using h_reconciled by (simp add: h_reg2_def prod_eq_iff)
  then have "host_step h_lib (h_reg1 []) (h_reg2 [])" by (rule st_reconcile) simp
  then show ?thesis using h_reachable1 unfolding host_reachable_def by (meson rtranclp.rtrancl_into_rtrancl)
qed




section \<open>Flaws\<close>

definition h_old :: "cursor_row list" where
  "h_old = [\<lparr>cu_subscriber = ''plugin:a:two'', cu_pattern = ''b.old'', cu_last = 0, cu_state = CursorActive, cu_failed = 0,
     cu_attempts = 0, cu_retry_at = None, cu_last_error = [], cu_lease_owner = [], cu_lease_until = None, cu_updated = []\<rparr>]"

definition h_failed :: "rec_result option \<times> unit registry" where
  "h_failed = on_slot (reconcileLocked h_lib 0 (h_code True)) ''a'' (h_reg1 h_old)"


text \<open>A failed migration is forgotten by the next reconcile: the plugin runs on tables that are not there.\<close>

lemma failed_migration_forgotten:
  "let r = snd (on_slot (bootstrap h_lib 0 (h_code False)) ''a'' (h_reg1 []));
       x = on_slot (reconcileLocked h_lib 1 (h_code False)) ''a'' r
   in map_option sl_kind (rg_slots r ''a'') = Some KMigration \<and> fst x = Some RecOk \<and>
      map_option (\<lambda>s. (sl_init s, sl_runtime s, sl_kind s)) (rg_slots (snd x) ''a'') = Some (True, RtEnabled, KNone) \<and>
      calls_of ''a'' (rg_world (snd x)) = [CallMigrate False, CallInit 0 True]"
  by code_simp

text \<open>C16. Stopping the host swaps the durable handlers of a running plugin for ones that discard. The event log stops after
  the host, so an event that is dispatched in between is acknowledged and never handled, though the plugin
  is enabled.\<close>

theorem stop_discards_events:
  assumes "host_reachable li r" "rg_slots r p = Some s" "sl_init s" "on_slot (stop_slot li now code) p r = (Some x, r')"
    "u \<in> set (subs_of p (rg_world r'))"
  shows "dispatch now' (ru_sub u) (attached_handler p ph u) e d = (True, advanceTx now' (ds_name (ru_sub u)) (ev_id e) d)"
proof -
  have ok: "slot_ok p s (rg_world r)" using host_reachable_ok[OF assms(1)] assms(2) by (simp add: reg_ok_def)
  obtain t s2 w2 where td: "teardownLocked li now code s (rg_world r) = (t, s2, w2)"
    by (cases "teardownLocked li now code s (rg_world r)")
  have "rg_world r' = w2" using assms(2-4) td by (simp add: on_slot_def stop_slot_def) auto
  then have "\<not> ru_plugin u" using teardown_ok[OF ok td] assms(5) by (auto simp: quiet_def list_all_iff)
  then show ?thesis by (simp add: attached_handler_def dispatch_def run_tx_def discard_handler_def)
qed

definition h_event :: event where
  "h_event = \<lparr>ev_id = 1, ev_type = ''b.x'', ev_source = ''b'', ev_subject = [], ev_payload = ''{}'', ev_created = []\<rparr>"

definition h_stopped :: "unit registry" where
  "h_stopped = snd (on_slot (stop_slot h_lib 3 (h_code True)) ''a'' (h_reg2 []))"

theorem stop_discards_events_witness:
  "\<exists>u. subs_of ''a'' (rg_world h_stopped) ! 0 = u \<and> ds_name (ru_sub u) = ''plugin:a:one'' \<and>
     CheckWorkTx ''a'' (wd_db (rg_world h_stopped)) = Inr () \<and>
     dispatch 4 (ru_sub u) (attached_handler ''a'' (\<lambda>e d. (Inl ''busy'', d)) u) h_event (wd_db (rg_world h_stopped)) =
       (True, advanceTx 4 ''plugin:a:one'' 1 (wd_db (rg_world h_stopped)))"
proof -
  let ?x = "on_slot (stop_slot h_lib 3 (h_code True)) ''a'' (h_reg2 [])"
  let ?u = "subs_of ''a'' (rg_world h_stopped) ! 0"
  have x: "fst ?x = Some ()" by code_simp
  then have st: "?x = (Some (), h_stopped)" by (simp add: h_stopped_def prod_eq_iff)
  have "map_option sl_init (rg_slots (h_reg2 []) ''a'') = Some True" by code_simp
  then obtain s where s: "rg_slots (h_reg2 []) ''a'' = Some s" "sl_init s" by auto
  have l: "map (\<lambda>r. ds_name (ru_sub r)) (subs_of ''a'' (rg_world h_stopped)) = [''plugin:a:one'', ''plugin:a:two'']" by code_simp
  then obtain v vs where v: "subs_of ''a'' (rg_world h_stopped) = v # vs" "ds_name (ru_sub v) = ''plugin:a:one''"
    by (cases "subs_of ''a'' (rg_world h_stopped)") simp_all
  then have u: "?u \<in> set (subs_of ''a'' (rg_world h_stopped))" "ds_name (ru_sub ?u) = ''plugin:a:one''"
    by simp_all
  have c: "CheckWorkTx ''a'' (wd_db (rg_world h_stopped)) = Inr ()" by code_simp
  have ev: "ev_id h_event = 1" by (simp add: h_event_def)
  have "dispatch 4 (ru_sub ?u) (attached_handler ''a'' (\<lambda>e d. (Inl ''busy'', d)) ?u) h_event (wd_db (rg_world h_stopped)) =
       (True, advanceTx 4 ''plugin:a:one'' 1 (wd_db (rg_world h_stopped)))"
    unfolding ev[symmetric] u(2)[symmetric] by (rule stop_discards_events[OF h_reachable2 s st u(1)])
  then show ?thesis using u(2) c by (intro exI[of _ ?u]) simp
qed

section \<open>Registration\<close>

definition names_fit :: "job_env \<Rightarrow> string \<Rightarrow> plugin_decl \<Rightarrow> bool" where
  \<comment> \<open>no module below refuses a name of the declaration\<close>
  "names_fit env p d \<longleftrightarrow> validPluginID p \<and> p \<noteq> ''core'' \<and>
     (\<forall>j \<in> set (dl_jobs d). \<forall>u. queue_Register env p j u \<noteq> Inl ErrInvalidName \<and> queue_Register env p j u \<noteq> Inl ErrNoHandler) \<and>
     (\<forall>n \<in> set (durable_names p (dl_subs d)). validDurableName n) \<and>
     (\<forall>e \<in> set (mf_events (dl_manifest d)). validateType (p @ ''.'' @ es_type e) = Inr () \<and>
        validateSource p (p @ ''.'' @ es_type e) = Inr ()) \<and>
     (\<forall>rt \<in> set (dl_routes d). \<exists>m path. parseRoutePattern (rt_pattern rt) = Inr (m, path) \<and> m \<in> set route_methods \<and>
        has_prefix path ''/'' \<and> \<not> contains_sub path ''..'' \<and> \<not> has_prefix path ''/api/'')"

lemma inspect_names_fit:
  assumes "inspect jl pg = Inr d"
  shows "names_fit env (did d) d"
proof -
  note i = inspect_ok[OF assms]
  have p: "host_validPluginID (did d)" using i(1) by (simp add: did_def)
  have n: "host_validName (did d)" "did d \<noteq> ''core''" using host_id_name[OF p] by auto
  have "queue_Register env (did d) j u \<noteq> Inl ErrInvalidName \<and> queue_Register env (did d) j u \<noteq> Inl ErrNoHandler"
    if "j \<in> set (dl_jobs d)" for j u
    using i(2) that n host_name_jobs by (auto simp: list_all_iff job_ok_def queue_Register_def Let_def)
  moreover have "validDurableName x" if m: "x \<in> set (durable_names (did d) (dl_subs d))" for x
  proof -
    obtain sb where sb: "sb \<in> set (dl_subs d)"
      "x \<in> set (case sb_durable sb of None \<Rightarrow> [] | Some (n, h) \<Rightarrow> [durableName (did d) n])"
      using m by (auto simp: durable_names_def)
    obtain k h where s: "sb_durable sb = Some (k, h)" "x = durableName (did d) k"
      using sb(2) by (cases "sb_durable sb") (auto split: prod.splits)
    have "host_validName k" using i(3) sb(1) s(1) by (auto simp: list_all_iff sub_ok_def)
    then show ?thesis using durable_name_valid n(1) s(2) by simp
  qed
  moreover have "validEventType (es_type e)" if "e \<in> set (mf_events (dl_manifest d))" for e
    using event_loop_ok i(5) that unfolding validateEventSpecs_def by blast
  moreover have "\<exists>m path. parseRoutePattern (rt_pattern rt) = Inr (m, path)" if "rt \<in> set (dl_routes d)" for rt
    using inspect_routes[OF assms] that by (auto simp: list_all_iff)
  ultimately show ?thesis
    unfolding names_fit_def using n host_name_policy event_type_valid[OF p] route_inside by metis
qed

lemma apart_disjoint:
  "apart f old ds \<Longrightarrow> d \<in> set ds \<Longrightarrow> d' \<in> set ds \<Longrightarrow> d \<noteq> d' \<Longrightarrow> set (f d) \<inter> set (f d') = {}"
proof (induction ds)
  case (Cons x xs)
  have "apart f old xs" using Cons.prems(1) by (auto simp: apart_def)
  moreover have "set (f x) \<inter> set (f y) = {}" if "y \<in> set xs" for y
    using Cons.prems(1) that by (auto simp: apart_def)
  ultimately show ?case using Cons by auto
qed simp

lemma registered:
  assumes "fresh_registry r" "RegisterAll jl ps r = (Inr (), r')"
  obtains ds where "register_loop jl no_keys ps = Inr ds" "rg_order r' = map did ds"
    "rg_slots r' = map_of (map (\<lambda>d. (did d, new_slot d)) ds)"
proof -
  have f: "rg_slots r = Map.empty" "rg_order r = []" "\<not> rg_started r" using assms(1) by (simp_all add: fresh_registry_def)
  show ?thesis using that assms(2) f by (auto simp: RegisterAll_def split: if_splits sum.splits)
qed

lemma registered_apart:
  assumes "register_loop jl no_keys ps = Inr ds" "d \<in> set ds" "d' \<in> set ds" "did d \<noteq> did d'"
  shows "set (durables_of d) \<inter> set (durables_of d') = {} \<and> set (job_keys_of d) \<inter> set (job_keys_of d') = {}"
proof -
  have "d \<noteq> d'" using assms(4) by auto
  then show ?thesis
    using register_loop_ok[OF assms(1)] apart_disjoint[of durables_of _ ds d d'] apart_disjoint[of job_keys_of _ ds d d'] assms(2, 3)
    by blast
qed

lemma registered_slot:
  assumes "rg_slots r' = map_of (map (\<lambda>d. (did d, new_slot d)) ds)" "rg_slots r' p = Some s"
  shows "sl_decl s \<in> set ds \<and> did (sl_decl s) = p \<and> s = new_slot (sl_decl s)"
  using assms by (auto simp: new_slot_def dest!: map_of_SomeD)



text \<open>What registration does not check: the fields of a cron expression and the time zone. Such a plugin is
  registered and fails at every start.\<close>

lemma bad_cron_registered:
  "job_ok (h_job\<lparr>df_schedule := ''99 0 1 1 1'', df_tz := ''UTC''\<rparr>) \<and>
   (\<exists>e. parseCron ''99 0 1 1 1'' = Inl e)"
proof -
  have "job_ok (h_job\<lparr>df_schedule := ''99 0 1 1 1'', df_tz := ''UTC''\<rparr>)" by code_simp
  moreover have "(case parseCron ''99 0 1 1 1'' of Inl e \<Rightarrow> True | Inr s \<Rightarrow> False)" by code_simp
  ultimately show ?thesis by (auto split: sum.splits)
qed

text \<open>Validation trims and upper-cases a pattern; the mux gets it as written, so \<^verbatim>\<open>get /x\<close> is accepted as a \<^verbatim>\<open>GET\<close> route
  and mounted for the method \<^verbatim>\<open>get\<close>.\<close>

lemma route_method_folded:
  "parseRoutePattern ''get /x'' = Inr (''GET'', ''/x'') \<and> cut CHR '' '' ''get /x'' = Some (''get'', ''/x'')"
  by code_simp

end
