(* ===== verification/Plugin_Facade.thy ===== *)
theory Plugin_Facade
  imports Plugin_Host Storage_Auth "HOL-Library.Sublist"
begin

text \<open>
  \<^verbatim>\<open>internal/core/pluginhost/facade.go\<close> with \<^verbatim>\<open>events/scoped.go\<close>: the handles a plugin gets, which put the policy gate, the
  identity of the plugin and the SQL authorizer between its code and the modules. The callback of a plugin's transaction
  is any program over the operations of \<^verbatim>\<open>txAdapter\<close> and \<^verbatim>\<open>PublishTx\<close>, as a tree that branches on their results;
  SQLite is a parameter: for a text, the questions it asks the authorizer and what it does.
\<close>

section \<open>Transactions of a plugin\<close>

datatype ('v, 'x) tx_code =
    Return "string + 'x"
  | ExecSQL string "sql_error + 'v \<Rightarrow> ('v, 'x) tx_code" \<comment> \<open>\<^verbatim>\<open>Exec\<close> and \<^verbatim>\<open>Query\<close>\<close>
  | RowSQL string "sql_error + 'v \<Rightarrow> ('v, 'x) tx_code" \<comment> \<open>\<^verbatim>\<open>QueryRow\<close>\<close>
  | PublishIn string string payload "host_error + unit \<Rightarrow> ('v, 'x) tx_code"

record ('d, 'v) sqlite =
  sq_stmt :: "string \<Rightarrow> ('d, 'v) sql_stmt"
  sq_conn :: int \<comment> \<open>the writer's connection\<close>
  sq_set :: bool \<comment> \<open>\<^verbatim>\<open>sqlite3_set_authorizer\<close> succeeds\<close>

definition scoped_input :: "string \<Rightarrow> string \<Rightarrow> string \<Rightarrow> payload \<Rightarrow> input" where
  "scoped_input p ty subj pl = \<lparr>in_type = p @ ''.'' @ ty, in_source = p, in_subject = subj, in_payload = pl\<rparr>"

definition gated_PublishTx :: "time \<Rightarrow> string \<Rightarrow> string \<Rightarrow> string \<Rightarrow> payload \<Rightarrow> ('a, unit) htx" where
  "gated_PublishTx now p ty subj pl d =
     (case CheckWorkTx p d of
        Inl e \<Rightarrow> (Inl (HePolicy e), d)
      | Inr _ \<Rightarrow>
          (case PublishTx now (scoped_input p ty subj pl) d of
             (Inl e, d1) \<Rightarrow> (Inl (HeEvents e), d1) | (Inr _, d1) \<Rightarrow> (Inr (), d1)))"

definition gated_Publish :: "time \<Rightarrow> string \<Rightarrow> string \<Rightarrow> string \<Rightarrow> payload \<Rightarrow> ('a, unit) htx" where
  "gated_Publish now p ty subj pl = run_tx (gated_PublishTx now p ty subj pl)"

definition tx_Exec ::
  "('d, 'v) sqlite \<Rightarrow> string \<Rightarrow> string \<Rightarrow> authorizers \<Rightarrow> 'd \<Rightarrow> (sql_error + 'v) \<times> authorizers \<times> 'd" where
  \<comment> \<open>\<^verbatim>\<open>withAuth\<close> around the statement\<close>
  "tx_Exec S p q a d = prefixed_stmt (sq_set S) (sq_conn S) (prefix_of p) (sq_stmt S q) a d"

definition tx_QueryRow ::
  "('d, 'v) sqlite \<Rightarrow> string \<Rightarrow> string \<Rightarrow> authorizers \<Rightarrow> 'd \<Rightarrow> (sql_error + 'v) \<times> authorizers \<times> 'd" where
  \<comment> \<open>the error of setting the authorizer is dropped\<close>
  "tx_QueryRow S p q a d =
     (let a1 = snd (setConnAuthorizer (sq_set S) (sq_conn S) (prefix_of p) a);
          (r, d1) = sql_exec a1 (sq_conn S) (sq_stmt S q) d
      in (r, snd (setConnAuthorizer True (sq_conn S) [] a1), d1))"

primrec tx_run ::
  "time \<Rightarrow> ('a host_db_scheme, 'v) sqlite \<Rightarrow> string \<Rightarrow> ('v, 'x) tx_code \<Rightarrow> authorizers \<Rightarrow> 'a host_db_scheme \<Rightarrow>
   (string + 'x) \<times> authorizers \<times> 'a host_db_scheme" where
  "tx_run now S p (Return r) a d = (r, a, d)"
| "tx_run now S p (ExecSQL q k) a d =
     (case tx_Exec S p q a d of (r, a1, d1) \<Rightarrow> tx_run now S p (k r) a1 d1)"
| "tx_run now S p (RowSQL q k) a d =
     (case tx_QueryRow S p q a d of (r, a1, d1) \<Rightarrow> tx_run now S p (k r) a1 d1)"
| "tx_run now S p (PublishIn ty subj pl k) a d =
     (case gated_PublishTx now p ty subj pl d of (r, d1) \<Rightarrow> tx_run now S p (k r) a d1)"

definition gated_Tx ::
  "time \<Rightarrow> ('a host_db_scheme, 'v) sqlite \<Rightarrow> string \<Rightarrow> ('v, 'x) tx_code \<Rightarrow> authorizers \<Rightarrow> 'a host_db_scheme \<Rightarrow>
   (host_error + 'x) \<times> authorizers \<times> 'a host_db_scheme" where
  \<comment> \<open>the authorizer belongs to the connection, so a rollback does not undo it\<close>
  "gated_Tx now S p prog a d =
     (case CheckWorkTx p d of
        Inl e \<Rightarrow> (Inl (HePolicy e), a, d)
      | Inr _ \<Rightarrow>
          (case tx_run now S p prog a d of
             (Inl e, a1, _) \<Rightarrow> (Inl (HeCode e), a1, d) | (Inr x, a1, d1) \<Rightarrow> (Inr x, a1, d1)))"

definition sql_text :: "sql_error \<Rightarrow> string" where
  "sql_text e = (case e of ErrSQLDenied \<Rightarrow> ''denied'' | ErrSQL s \<Rightarrow> s)"

definition gated_Exec ::
  "time \<Rightarrow> ('a host_db_scheme, 'v) sqlite \<Rightarrow> string \<Rightarrow> string \<Rightarrow> authorizers \<Rightarrow> 'a host_db_scheme \<Rightarrow>
   (host_error + 'v) \<times> authorizers \<times> 'a host_db_scheme" where
  "gated_Exec now S p q =
     gated_Tx now S p (ExecSQL q (\<lambda>r. Return (case r of Inl e \<Rightarrow> Inl (sql_text e) | Inr v \<Rightarrow> Inr v)))"

section \<open>Jobs of a plugin\<close>

record host_opts =
  ho_RunAt :: time
  ho_HasRunAt :: bool
  ho_Key :: string
  ho_Priority :: int

datatype host_opt = NilOpt | WithRunAt time | WithIdempotencyKey string | WithPriority int

fun apply_opt :: "host_opts \<Rightarrow> host_opt \<Rightarrow> host_opts" where
  "apply_opt ho NilOpt = ho"
| "apply_opt ho (WithRunAt t) = ho\<lparr>ho_RunAt := t, ho_HasRunAt := True\<rparr>"
| "apply_opt ho (WithIdempotencyKey k) = ho\<lparr>ho_Key := k\<rparr>"
| "apply_opt ho (WithPriority n) = ho\<lparr>ho_Priority := n\<rparr>"

definition ApplyOpts :: "host_opt list \<Rightarrow> host_opts" where
  "ApplyOpts os = foldl apply_opt \<lparr>ho_RunAt = 0, ho_HasRunAt = False, ho_Key = [], ho_Priority = 0\<rparr> os"

definition gated_Enqueue ::
  "job_env \<Rightarrow> time \<Rightarrow> queue \<Rightarrow> string \<Rightarrow> string \<Rightarrow> payload \<Rightarrow> host_opt list \<Rightarrow> ('a, int) htx" where
  "gated_Enqueue env now q p name args os d =
     (case CheckWorkTx p d of
        Inl e \<Rightarrow> (Inl (HePolicy e), d)
      | Inr _ \<Rightarrow>
          (let ho = ApplyOpts os in
           case Enqueue env now q p name args
                  \<lparr>eo_run_at = (if ho_HasRunAt ho then Some (ho_RunAt ho) else None), eo_key = ho_Key ho,
                   eo_priority = ho_Priority ho\<rparr> d of
             (Inl e, d1) \<Rightarrow> (Inl (HeJobs e), d1) | (Inr n, d1) \<Rightarrow> (Inr n, d1)))"

section \<open>Credentials in requests\<close>

datatype browser_error = BrEngine | BrCred string

record credential_ref =
  ci_ID :: string
  ci_Field :: string

definition set_member :: "string \<Rightarrow> any \<Rightarrow> (string \<times> any) list \<Rightarrow> (string \<times> any) list" where
  "set_member k v ms = (if map_of ms k = None then ms @ [(k, v)] else map (\<lambda>(k', w). if k' = k then (k', v) else (k', w)) ms)"

definition inject_credential ::
  "(string \<Rightarrow> any option) \<Rightarrow> (any \<Rightarrow> string) \<Rightarrow> (string \<Rightarrow> string + string) option \<Rightarrow> credential_ref option \<Rightarrow> string \<Rightarrow>
   (browser_error + string) option" where
  \<comment> \<open>the body that \<^verbatim>\<open>Do\<close> sends; \<^const>\<open>None\<close> is a panic: \<^verbatim>\<open>null\<close> decodes into a nil map without an error\<close>
  "inject_credential parse marshal token cred body =
     (case cred of
        None \<Rightarrow> Some (Inr body)
      | Some c \<Rightarrow>
          (case token of
             None \<Rightarrow> Some (Inl BrEngine)
           | Some tok \<Rightarrow>
               if trim_space (ci_ID c) = [] \<or> trim_space (ci_Field c) = [] then Some (Inl BrEngine)
               else
                 (case parse body of
                    Some (AObj ms) \<Rightarrow>
                      (case tok (ci_ID c) of
                         Inl e \<Rightarrow> Some (Inl (BrCred e))
                       | Inr secret \<Rightarrow> Some (Inr (marshal (AObj (set_member (ci_Field c) (AStr secret) ms)))))
                  | Some ANull \<Rightarrow>
                      (case tok (ci_ID c) of Inl e \<Rightarrow> Some (Inl (BrCred e)) | Inr secret \<Rightarrow> None)
                  | _ \<Rightarrow> Some (Inl BrEngine))))"

definition fill_secret :: "(string \<Rightarrow> string + string) option \<Rightarrow> string \<Rightarrow> browser_error + string" where
  \<comment> \<open>the text \<^verbatim>\<open>FillCredential\<close> puts into the form\<close>
  "fill_secret token cred =
     (if trim_space cred = [] then Inl BrEngine
      else case token of
             None \<Rightarrow> Inl BrEngine
           | Some tok \<Rightarrow> (case tok cred of Inl e \<Rightarrow> Inl (BrCred e) | Inr s \<Rightarrow> Inr s))"

section \<open>What a plugin's transaction can change\<close>

definition core_table :: "string \<Rightarrow> bool" where
  "core_table t \<longleftrightarrow> has_prefix t ''core_''"

definition touches :: "('d, 'v) sql_stmt \<Rightarrow> string \<Rightarrow> bool" where
  "touches s t \<longleftrightarrow> list_ex (\<lambda>(x, a1, a2). t \<in> set (table_asked x a1 a2)) (ss_asks s)"

definition core_part :: "'a host_db_scheme \<Rightarrow> host_db" where
  \<comment> \<open>the tables of the core but the event log, without the counters in \<^verbatim>\<open>sqlite_sequence\<close>\<close>
  "core_part d = host_db.truncate (d\<lparr>ev_rows := [], ev_seq := 0, jb_seq := 0, jb_log_seq := 0\<rparr>)"

text \<open>
  What SQLite documents of the authorizer: a statement changes no table that it did not ask about. The tables of
  plugins are the extension of the core's record, read by \<open>tab\<close>.
\<close>

definition sqlite_law :: "(string \<Rightarrow> 'a \<Rightarrow> 'w) \<Rightarrow> ('a host_db_scheme, 'v) sql_stmt \<Rightarrow> bool" where
  "sqlite_law tab s \<longleftrightarrow> (\<forall>d v d'. ss_run s d = (Inr v, d') \<longrightarrow>
     ((\<forall>t. core_table t \<and> ordinary t \<longrightarrow> \<not> touches s t) \<longrightarrow> core_part d' = core_part d \<and> ev_rows d' = ev_rows d) \<and>
     (\<forall>t. ordinary t \<and> \<not> touches s t \<longrightarrow> tab t (host_db.more d') = tab t (host_db.more d)))"

definition confined_step ::
  "(string \<Rightarrow> 'a \<Rightarrow> 'w) \<Rightarrow> string \<Rightarrow> 'a host_db_scheme \<Rightarrow> 'a host_db_scheme \<Rightarrow> bool" where
  "confined_step tab p d d' \<longleftrightarrow>
     core_part d' = core_part d \<and>
     (\<exists>es. ev_rows d' = ev_rows d @ es \<and> (\<forall>e \<in> set es. ev_source e = p \<and> has_prefix (ev_type e) (p @ ''.''))) \<and>
     (\<forall>t. ordinary t \<and> \<not> has_prefix t (prefix_of p) \<longrightarrow> tab t (host_db.more d') = tab t (host_db.more d))"

lemma confined_refl: "confined_step tab p d d"
  by (simp add: confined_step_def)

lemma confined_trans: "confined_step tab p d d1 \<Longrightarrow> confined_step tab p d1 d2 \<Longrightarrow> confined_step tab p d d2"
  unfolding confined_step_def by (elim conjE exE) (auto simp: ball_Un)

lemma not_core_prefix:
  assumes "host_validPluginID p" "\<not> has_prefix p ''core_''" "core_table t"
  shows "\<not> has_prefix t (prefix_of p)"
proof
  assume "has_prefix t (prefix_of p)"
  with assms(3) have "has_prefix (prefix_of p) ''core_'' \<or> has_prefix ''core_'' (prefix_of p)"
    unfolding core_table_def by (rule prefixes_comparable[rotated])
  then show False
  proof
    assume "has_prefix (prefix_of p) ''core_''"
    then have "has_prefix p ''core_'' \<or> p @ ''_'' = ''core_''"
      by (auto simp: prefix_of_def has_prefix_iff append_eq_append_conv2 append_eq_Cons_conv Cons_eq_append_conv)
    then show False using assms(1, 2) by (auto simp: host_validPluginID_def)
  next
    assume "has_prefix ''core_'' (prefix_of p)"
    then have "p = ''core''"
      by (auto simp: prefix_of_def has_prefix_iff Cons_eq_append_conv append_eq_Cons_conv)
    then show False using assms(1) by (simp add: host_validPluginID_def)
  qed
qed

lemma prefix_of_nonempty [simp]: "prefix_of p \<noteq> []"
  by (simp add: prefix_of_def)

lemma set_conn_allows: "pre \<noteq> [] \<Longrightarrow> conn_allows (snd (setConnAuthorizer True db pre a)) db = authorize pre"
  by (cases rule: setConnAuthorizer_cases[of pre True db a])
    (auto simp: conn_allows_def authorizerTrampoline_def auth_prefix_def auth_bind_def auth_alloc_def fun_eq_iff)

lemma sql_exec_confined:
  assumes "sqlite_law tab s" "conn_allows a db = authorize (prefix_of p)" "host_validPluginID p" "\<not> has_prefix p ''core_''"
    "sql_exec a db s d = (r, d')"
  shows "confined_step tab p d d'"
proof (cases r)
  case (Inl e)
  then have "d' = d" using assms(5) by (auto simp: sql_exec_def split: if_splits prod.splits sum.splits)
  then show ?thesis by (simp add: confined_refl)
next
  case (Inr v)
  have ok: "list_all (\<lambda>(x, a1, a2). authorize (prefix_of p) x a1 a2) (ss_asks s)" and run: "ss_run s d = (Inr v, d')"
    using assms(5) Inr by (auto simp: sql_exec_def assms(2) split: if_splits prod.splits sum.splits)
  have own: "has_prefix t (prefix_of p)" if "touches s t" "ordinary t" for t
    using plug.allowed_confined[OF ok] that by (fastforce simp: plug.confined_def touches_def list_ex_iff)
  have core: "\<not> touches s t" if "core_table t" "ordinary t" for t
    using own[of t] not_core_prefix[OF assms(3, 4)] that by blast
  have ext: "ordinary t \<and> \<not> has_prefix t (prefix_of p) \<longrightarrow> tab t (host_db.more d') = tab t (host_db.more d)" for t
    using assms(1) run own[of t] unfolding sqlite_law_def by blast
  show ?thesis using assms(1) run core ext unfolding sqlite_law_def confined_step_def by auto
qed

definition auth_rest :: "int \<Rightarrow> authorizers \<Rightarrow> authorizers \<Rightarrow> bool" where
  "auth_rest c a a' \<longleftrightarrow> (auth_ok a \<and> au_hook a c = None \<longrightarrow>
     auth_ok a' \<and> au_hook a' c = None \<and> (\<forall>db. db \<noteq> c \<longrightarrow> conn_allows a' db = conn_allows a db))"

lemma auth_rest_refl: "auth_rest c a a"
  by (simp add: auth_rest_def)

lemma auth_rest_trans: "auth_rest c a a1 \<Longrightarrow> auth_rest c a1 a2 \<Longrightarrow> auth_rest c a a2"
  by (simp add: auth_rest_def)

lemma switch_back: "auth_rest c a (snd (setConnAuthorizer True c [] (snd (setConnAuthorizer ok c pre a))))"
proof -
  obtain r1 a1 where 1: "setConnAuthorizer ok c pre a = (r1, a1)" by fastforce
  obtain r2 a2 where 2: "setConnAuthorizer True c [] a1 = (r2, a2)" by fastforce
  have "au_hook a2 c = None" using 2 by (cases rule: setConnAuthorizer_cases[of "[]" True c a1]) auto
  then show ?thesis
    unfolding auth_rest_def 1 2 snd_conv
    by (metis authorizer_switch 1 2)
qed

lemma tx_QueryRow_step:
  assumes "\<forall>q. sqlite_law tab (sq_stmt S q)" "sq_set S" "host_validPluginID p" "\<not> has_prefix p ''core_''"
    and "tx_QueryRow S p q a d = (r, a', d')"
  shows "confined_step tab p d d' \<and> auth_rest (sq_conn S) a a'"
proof -
  let ?a1 = "snd (setConnAuthorizer True (sq_conn S) (prefix_of p) a)"
  have "sql_exec ?a1 (sq_conn S) (sq_stmt S q) d = (r, d')" "a' = snd (setConnAuthorizer True (sq_conn S) [] ?a1)"
    using assms(2, 5) by (auto simp: tx_QueryRow_def Let_def split: prod.splits)
  then show ?thesis
    using sql_exec_confined[OF assms(1)[rule_format] set_conn_allows[OF prefix_of_nonempty] assms(3, 4)] switch_back by blast
qed

lemma tx_Exec_QueryRow: "sq_set S \<Longrightarrow> tx_Exec S p q a d = tx_QueryRow S p q a d"
  by (cases rule: setConnAuthorizer_cases[of "prefix_of p" True "sq_conn S" a])
    (simp_all add: tx_Exec_def tx_QueryRow_def prefixed_stmt_def split: prod.splits)

lemma PublishTx_step:
  assumes "gated_PublishTx now p ty subj pl d = (r, d')"
  shows "confined_step tab p d d'"
proof -
  have "confined_step tab p d (d\<lparr>ev_seq := n, ev_rows := ev_rows d @ [e]\<rparr>)"
    if "ev_source e = p" "ev_type e = p @ ''.'' @ ty" for n e
    using that by (simp add: confined_step_def core_part_def host_db.defs has_prefix_iff)
  then show ?thesis
    using assms
    by (auto simp: gated_PublishTx_def PublishTx_def scoped_input_def Let_def confined_refl split: sum.splits)
qed

lemma tx_run_step:
  assumes "\<forall>q. sqlite_law tab (sq_stmt S q)" "sq_set S" "host_validPluginID p" "\<not> has_prefix p ''core_''"
  shows "tx_run now S p prog a d = (r, a', d') \<Longrightarrow> confined_step tab p d d' \<and> auth_rest (sq_conn S) a a'"
proof (induction prog arbitrary: a d)
  case (Return x)
  then show ?case by (simp add: confined_refl auth_rest_refl)
next
  case (ExecSQL q k)
  obtain r1 a1 d1 where 1: "tx_QueryRow S p q a d = (r1, a1, d1)" by (cases "tx_QueryRow S p q a d")
  with ExecSQL.prems have "tx_run now S p (k r1) a1 d1 = (r, a', d')" by (simp add: tx_Exec_QueryRow[OF assms(2)])
  from ExecSQL.IH[OF _ this] tx_QueryRow_step[OF assms 1] show ?case by (blast intro: confined_trans auth_rest_trans)
next
  case (RowSQL q k)
  obtain r1 a1 d1 where 1: "tx_QueryRow S p q a d = (r1, a1, d1)" by (cases "tx_QueryRow S p q a d")
  with RowSQL.prems have "tx_run now S p (k r1) a1 d1 = (r, a', d')" by simp
  from RowSQL.IH[OF _ this] tx_QueryRow_step[OF assms 1] show ?case by (blast intro: confined_trans auth_rest_trans)
next
  case (PublishIn ty subj pl k)
  obtain r1 d1 where 1: "gated_PublishTx now p ty subj pl d = (r1, d1)" by (cases "gated_PublishTx now p ty subj pl d")
  with PublishIn.prems have "tx_run now S p (k r1) a d1 = (r, a', d')" by simp
  from PublishIn.IH[OF _ this] PublishTx_step[OF 1] show ?case by (blast intro: confined_trans)
qed


definition f_stmt :: "string \<Rightarrow> (nat host_db_scheme, unit) sql_stmt" where
  "f_stmt q =
     (if q = ''insert'' then
        \<lparr>ss_asks = [(SQLITE_INSERT, ''a_items'', [])],
         ss_run = (\<lambda>d. (Inr (), host_db.extend (host_db.truncate d) (host_db.more d + 1)))\<rparr>
      else \<lparr>ss_asks = [(SQLITE_DELETE, ''core_jobs'', [])], ss_run = (\<lambda>d. (Inr (), d\<lparr>jb_jobs := []\<rparr>))\<rparr>)"

definition f_sqlite :: "(nat host_db_scheme, unit) sqlite" where
  "f_sqlite = \<lparr>sq_stmt = f_stmt, sq_conn = 7, sq_set = True\<rparr>"

definition f_tab :: "string \<Rightarrow> nat \<Rightarrow> nat" where
  "f_tab t n = (if t = ''a_items'' then n else 0)"

definition f_db :: "nat host_db_scheme" where
  "f_db = host_db.extend (h_db []) 0"

definition f_prog :: "(unit, sql_error + unit) tx_code" where
  \<comment> \<open>insert a row of its own, publish, try to delete the jobs of the core\<close>
  "f_prog = ExecSQL ''insert'' (\<lambda>_. PublishIn ''x'' [] NoPayload (\<lambda>_. ExecSQL ''steal'' (\<lambda>r. Return (Inr r))))"

definition f_result where
  "f_result = gated_Tx 0 f_sqlite ''a'' f_prog w_auth f_db"

lemma f_law: "sqlite_law f_tab (sq_stmt f_sqlite q)"
proof (cases "q = ''insert''")
  case True
  then show ?thesis
    by (auto simp: sqlite_law_def f_sqlite_def f_stmt_def f_tab_def touches_def core_part_def table_asked_def host_db.defs)
next
  case False
  have "core_table ''core_jobs'' \<and> ordinary ''core_jobs'' \<and> touches (f_stmt q) ''core_jobs''"
    using False by (simp add: f_stmt_def touches_def table_asked_def) code_simp
  moreover have "host_db.more d' = host_db.more d" if "ss_run (f_stmt q) d = (Inr v, d')" for d d' v
    using that False by (auto simp: f_stmt_def)
  ultimately show ?thesis unfolding sqlite_law_def f_sqlite_def by (simp, blast)
qed

lemma f_computed:
  "(case f_result of (r, a', d') \<Rightarrow> r = Inr (Inl ErrSQLDenied) \<and> host_db.more d' = 1 \<and>
      map ev_source (ev_rows d') = [''a''])"
  by code_simp


text \<open>
  What the hypotheses exclude. Only \<^verbatim>\<open>core\<close> itself is refused as an identifier: a plugin named \<^verbatim>\<open>core_plugin\<close> owns the
  tables of the policy module, so it may raise its own spend limit. And \<^verbatim>\<open>QueryRow\<close> ignores that the authorizer
  could not be set, so the statement runs without one.
\<close>

lemma core_prefixed_plugin_open:
  "host_validPluginID ''core_plugin'' \<and> has_prefix ''core_plugin_budget'' (prefix_of ''core_plugin'') \<and>
   authorize (prefix_of ''core_plugin'') SQLITE_UPDATE ''core_plugin_budget'' ''daily_microusd''"
  by code_simp

lemma query_row_unconfined:
  "(case tx_QueryRow (f_sqlite\<lparr>sq_set := False\<rparr>) ''a'' ''steal'' w_auth (f_db\<lparr>jb_jobs := [undefined]\<rparr>) of (r, a', d') \<Rightarrow>
      r = Inr () \<and> jb_jobs d' = [])"
  by (simp add: tx_QueryRow_def setConnAuthorizer_def auth_alloc_def auth_bind_def auth_drop_def w_auth_def sql_exec_def
      conn_allows_def f_sqlite_def f_stmt_def Let_def)

section \<open>The gate of the other handles\<close>

lemma disabled_facade_inert:
  assumes "CheckWorkTx p d = Inl e"
  shows "gated_Exec now S p q a d = (Inl (HePolicy e), a, d)"
    "gated_Publish now p ty subj pl d = (Inl (HePolicy e), d)"
    "gated_Enqueue env now q' p name args os d = (Inl (HePolicy e), d)"
  using assms by (simp_all add: gated_Exec_def gated_Tx_def gated_Publish_def gated_PublishTx_def gated_Enqueue_def run_tx_def)

section \<open>Credentials and frames\<close>

lemma set_member_map: "map_of (set_member k v ms) = (map_of ms)(k \<mapsto> v)"
proof -
  have "map_of (map (\<lambda>(k', w). if k' = k then (k', v) else (k', w)) ms) x = ((map_of ms)(k := (if map_of ms k = None then None else Some v))) x" for x
    by (induction ms) auto
  then show ?thesis by (auto simp: set_member_def map_add_def fun_eq_iff split: option.splits)
qed

lemma inject_credential_exact:
  assumes "inject_credential parse marshal (Some tok) (Some c) body = Some (Inr sent)"
  shows "\<exists>ms secret ms'. parse body = Some (AObj ms) \<and> tok (ci_ID c) = Inr secret \<and> sent = marshal (AObj ms') \<and>
    map_of ms' = (map_of ms)(ci_Field c \<mapsto> AStr secret)"
  using assms by (auto simp: inject_credential_def set_member_map split: if_splits option.splits any.splits sum.splits)

lemma null_body_panics:
  "inject_credential (\<lambda>_. Some ANull) marshal (Some (\<lambda>_. Inr ''secret'')) (Some \<lparr>ci_ID = ''k'', ci_Field = ''auth''\<rparr>) ''null'' = None"
  by (simp add: inject_credential_def trim_space_def is_space_def)

record pump_state =
  pu_frames :: "string list" \<comment> \<open>the buffer of the plugin's channel\<close>
  pu_closed :: bool

datatype pump_input = CoreFrame string | CoreClosed | PluginReads

fun pump :: "pump_state \<Rightarrow> pump_input \<Rightarrow> string list \<times> pump_state" where
  "pump s (CoreFrame f) =
     ([], if pu_closed s \<or> 256 \<le> length (pu_frames s) then s else s\<lparr>pu_frames := pu_frames s @ [f]\<rparr>)"
| "pump s CoreClosed = ([], s\<lparr>pu_closed := True\<rparr>)"
| "pump s PluginReads = (case pu_frames s of [] \<Rightarrow> ([], s) | f # fs \<Rightarrow> ([f], s\<lparr>pu_frames := fs\<rparr>))"

fun pump_run :: "pump_state \<Rightarrow> pump_input list \<Rightarrow> string list \<times> pump_state" where
  "pump_run s [] = ([], s)"
| "pump_run s (x # xs) = (case pump s x of (out, s1) \<Rightarrow> (case pump_run s1 xs of (outs, s2) \<Rightarrow> (out @ outs, s2)))"

definition frames_of :: "pump_input list \<Rightarrow> string list" where
  "frames_of xs = List.map_filter (\<lambda>x. case x of CoreFrame f \<Rightarrow> Some f | _ \<Rightarrow> None) xs"

lemma frames_of_simps [simp]:
  "frames_of [] = []" "frames_of (CoreFrame f # xs) = f # frames_of xs" "frames_of (CoreClosed # xs) = frames_of xs"
  "frames_of (PluginReads # xs) = frames_of xs"
  by (simp_all add: frames_of_def map_filter_simps)

lemma pump_run_subseq:
  "pump_run s xs = (got, s') \<Longrightarrow> subseq (got @ pu_frames s') (pu_frames s @ frames_of xs)"
proof (induction xs arbitrary: s got)
  case (Cons x xs)
  obtain out s1 where 1: "pump s x = (out, s1)" by fastforce
  obtain outs where 2: "pump_run s1 xs = (outs, s')" "got = out @ outs" using Cons.prems 1 by (auto split: prod.splits)
  note IH = Cons.IH[OF 2(1)]
  have drop: "subseq (pu_frames s @ frames_of xs) (pu_frames s @ f # frames_of xs)" for f
    by (simp add: list_emb_append_mono subseq_Cons')
  show ?case
    using IH 1 2(2) subseq_order.trans[OF _ drop]
    by (cases x) (auto split: if_splits list.splits)
qed auto

text \<open>
  What a plugin reads from a subscription is, in order, a part of the frames of the socket, and its buffer never holds
  more than 256 of them: a plugin that stops reading costs frames, not memory.
\<close>

lemma pump_bounded:
  "length (pu_frames s) \<le> 256 \<Longrightarrow> pump_run s xs = (got, s') \<Longrightarrow> length (pu_frames s') \<le> 256"
proof (induction xs arbitrary: s got)
  case (Cons x xs)
  obtain out s1 where 1: "pump s x = (out, s1)" by fastforce
  obtain outs where 2: "pump_run s1 xs = (outs, s')" using Cons.prems 1 by (auto split: prod.splits)
  have "length (pu_frames s1) \<le> 256" using Cons.prems(1) 1 by (cases x) (auto split: if_splits list.splits)
  from Cons.IH[OF this 2] show ?case .
qed simp

section \<open>Descriptors\<close>

record descriptor =
  de_manifest :: manifest
  de_state :: "policy_state option" \<comment> \<open>\<^const>\<open>None\<close>: the zero state, when policy has no row\<close>
  de_jobs :: "string list"
  de_routes :: "string list"
  de_desired :: bool
  de_runtime :: runtime
  de_error :: "host_error option"
  de_kind :: error_kind

definition slot_descriptor :: "time \<Rightarrow> 'a host_db_scheme \<Rightarrow> slot \<Rightarrow> descriptor" where
  "slot_descriptor now d s =
     (let st = (case policy_State now (sid s) d of Inl e \<Rightarrow> None | Inr st \<Rightarrow> Some st)
      in \<lparr>de_manifest = dl_manifest (sl_decl s), de_state = st, de_jobs = dl_jobNames (sl_decl s),
          de_routes = dl_routePat (sl_decl s),
          de_desired = (case st of None \<Rightarrow> False | Some st \<Rightarrow> vs_enabled st),
          de_runtime = sl_runtime s, de_error = sl_error s, de_kind = sl_kind s\<rparr>)"

definition registry_Describe :: "time \<Rightarrow> string \<Rightarrow> 'a registry \<Rightarrow> host_error + descriptor" where
  "registry_Describe now p r =
     (case rg_slots r p of
        None \<Rightarrow> Inl (HePlugin ErrUnknownPluginID)
      | Some s \<Rightarrow> Inr (slot_descriptor now (wd_db (rg_world r)) s))"

definition registry_List :: "time \<Rightarrow> 'a registry \<Rightarrow> descriptor list" where
  "registry_List now r = map (slot_descriptor now (wd_db (rg_world r))) (List.map_filter (rg_slots r) (rg_order r))"

definition ShellPlugins :: "time \<Rightarrow> 'a registry \<Rightarrow> (string \<times> string \<times> bool) list" where
  "ShellPlugins now r = map (\<lambda>de. (mf_id (de_manifest de), mf_name (de_manifest de),
     case de_state de of None \<Rightarrow> False | Some st \<Rightarrow> vs_enabled st)) (registry_List now r)"

lemma map_filter_all: "(\<And>x. x \<in> set xs \<Longrightarrow> f x \<noteq> None) \<Longrightarrow> List.map_filter f xs = map (\<lambda>x. the (f x)) xs"
  by (induction xs) (fastforce simp: map_filter_simps split: option.splits)+

lemma ShellPlugins_order:
  assumes "host_reachable li r" "\<And>p. p \<in> set (rg_order r) \<Longrightarrow> rg_slots r p \<noteq> None"
  shows "map fst (ShellPlugins now r) = rg_order r"
proof -
  have ok: "reg_ok r" using assms(1) by (rule host_reachable_ok)
  have s: "\<exists>s. rg_slots r p = Some s \<and> sid s = p" if "p \<in> set (rg_order r)" for p
    using ok assms(2)[OF that] by (fastforce simp: reg_ok_def slot_ok_def slot_base_def)
  have l: "List.map_filter (rg_slots r) (rg_order r) = map (\<lambda>p. the (rg_slots r p)) (rg_order r)"
    using assms(2) by (rule map_filter_all)
  have "map fst (ShellPlugins now r) = map (\<lambda>p. sid (the (rg_slots r p))) (rg_order r)"
    by (simp add: ShellPlugins_def registry_List_def l slot_descriptor_def Let_def sid_def)
  also have "\<dots> = rg_order r" using s by (intro map_idI) force
  finally show ?thesis .
qed

end
